(* ===== verification/Prelude.thy ===== *)
theory Prelude
  imports Main "HOL-Library.Signed_Division"
begin

text \<open>
  Shared vocabulary of the development: how the model writes a C++ failure, a
  \<^verbatim>\<open>std::map\<close>, a \<^verbatim>\<open>std::vector\<close>, \<^verbatim>\<open>std::stoi\<close> and \<^verbatim>\<open>std::to_string\<close>.

  \<^item> A handler that can fail returns \<open>exn + 'a\<close>. An uncaught exception ends the
    process, so \<open>Inl e\<close> is the death of the node. Undefined behaviour (an index past the end
    of a vector, a call through a null stub) is an error value too, so that no property rests on it.
  \<^item> A \<^verbatim>\<open>std::map\<close> is a key-sorted association list, read with \<open>map_of\<close>.
  \<^item> A \<^verbatim>\<open>std::vector\<close> is its size and its contents.
\<close>

section \<open>Failures as values\<close>

named_theorems exn_simps \<open>rewrites for the failure monad\<close>
named_theorems map_simps \<open>rewrites for ordered maps and vectors\<close>

datatype exn =
    InvalidArgument  \<comment> \<open>\<^verbatim>\<open>std::invalid_argument\<close>, from \<^verbatim>\<open>std::stoi\<close>\<close>
  | OutOfRange       \<comment> \<open>\<^verbatim>\<open>std::out_of_range\<close>, from \<^verbatim>\<open>std::stoi\<close> and \<^verbatim>\<open>at\<close>\<close>
  | OutOfBounds      \<comment> \<open>undefined behaviour: \<^verbatim>\<open>operator[]\<close> outside a vector\<close>
  | NullStub         \<comment> \<open>undefined behaviour: a call through a null \<^verbatim>\<open>shared_ptr\<close>\<close>
  | Aborted          \<comment> \<open>\<^verbatim>\<open>std::abort\<close>\<close>
  | RuntimeError     \<comment> \<open>\<^verbatim>\<open>std::runtime_error\<close>, from a blocking call that fails\<close>
  | LengthError      \<comment> \<open>\<^verbatim>\<open>std::length_error\<close>, from reserving a negative size\<close>
  | DivisionByZero   \<comment> \<open>undefined behaviour: an integer division by zero\<close>

definition bindE :: "exn + 'a \<Rightarrow> ('a \<Rightarrow> exn + 'b) \<Rightarrow> exn + 'b" where
  "bindE m f = (case m of Inl e \<Rightarrow> Inl e | Inr a \<Rightarrow> f a)"

lemma bindE_simps [simp, exn_simps]:
  "bindE (Inl e) f = Inl e"
  "bindE (Inr a) f = f a"
  by (simp_all add: bindE_def)

lemma bindE_eq_Inr [exn_simps]:
  "bindE m f = Inr b \<longleftrightarrow> (\<exists>a. m = Inr a \<and> f a = Inr b)"
  by (cases m) auto

lemma bindE_eq_Inl [exn_simps]:
  "bindE m f = Inl e \<longleftrightarrow> m = Inl e \<or> (\<exists>a. m = Inr a \<and> f a = Inl e)"
  by (cases m) auto

lemma bindE_assoc: "bindE (bindE m f) g = bindE m (\<lambda>a. bindE (f a) g)"
  by (cases m) auto

lemma bindE_InrE:
  assumes "bindE m f = Inr b"
  obtains a where "m = Inr a" and "f a = Inr b"
  using assms by (cases m) auto

lemma if_Inr_iff [exn_simps]:
  "((if b then Inl e else m) = Inr x) \<longleftrightarrow> \<not> b \<and> m = Inr x"
  "((if b then m else Inl e) = Inr x) \<longleftrightarrow> b \<and> m = Inr x"
  by auto

text \<open>A loop over a container whose body may fail: it stops at the first failure.\<close>

fun foldE :: "('a \<Rightarrow> 's \<Rightarrow> exn + 's) \<Rightarrow> 'a list \<Rightarrow> 's \<Rightarrow> exn + 's" where
  "foldE f [] s = Inr s"
| "foldE f (x # xs) s = bindE (f x s) (foldE f xs)"

lemma foldE_append: "foldE f (xs @ ys) s = bindE (foldE f xs s) (foldE f ys)"
proof (induction xs arbitrary: s)
  case (Cons x xs)
  then have "foldE f (xs @ ys) = (\<lambda>u. bindE (foldE f xs u) (foldE f ys))" by blast
  then show ?case by (simp add: bindE_assoc)
qed simp

lemma foldE_invariant:
  assumes run: "foldE f xs s = Inr t" and init: "P s"
    and step: "\<And>x u v. x \<in> set xs \<Longrightarrow> P u \<Longrightarrow> f x u = Inr v \<Longrightarrow> P v"
  shows "P t"
  using assms
proof (induction xs arbitrary: s)
  case Nil
  then show ?case by simp
next
  case (Cons x xs)
  from Cons.prems(1) obtain u where u: "f x s = Inr u" and t: "foldE f xs u = Inr t"
    by (auto elim: bindE_InrE)
  have "P u" using Cons.prems(2,3) u by auto
  moreover have "\<And>y u v. y \<in> set xs \<Longrightarrow> P u \<Longrightarrow> f y u = Inr v \<Longrightarrow> P v"
    using Cons.prems(3) by auto
  ultimately show ?case using Cons.IH t by blast
qed

lemma foldE_pure: "foldE (\<lambda>x s. Inr (g x s)) xs s = Inr (fold g xs s)"
  by (induction xs arbitrary: s) simp_all

lemma fold_invariant':
  assumes "P s" and "\<And>x u. x \<in> set xs \<Longrightarrow> P u \<Longrightarrow> P (f x u)"
  shows "P (fold f xs s)"
  using assms by (induction xs arbitrary: s) auto

section \<open>Ordered maps\<close>

type_synonym ('k, 'v) omap = "('k \<times> 'v) list"

fun omap_put :: "'k::linorder \<Rightarrow> 'v \<Rightarrow> ('k, 'v) omap \<Rightarrow> ('k, 'v) omap" where
  "omap_put k v [] = [(k, v)]"
| "omap_put k v ((k', v') # m) =
     (if k < k' then (k, v) # (k', v') # m
      else if k = k' then (k, v) # m
      else (k', v') # omap_put k v m)"

definition omap_erase :: "'k \<Rightarrow> ('k, 'v) omap \<Rightarrow> ('k, 'v) omap" where
  "omap_erase k m = filter (\<lambda>e. fst e \<noteq> k) m"

definition omap_ok :: "('k::linorder, 'v) omap \<Rightarrow> bool" where
  "omap_ok m \<longleftrightarrow> sorted_wrt (<) (map fst m)"

lemma omap_ok_Nil [simp]: "omap_ok []"
  by (simp add: omap_ok_def)

lemma omap_ok_Cons: "omap_ok (e # m) \<longleftrightarrow> omap_ok m \<and> (\<forall>k\<in>fst ` set m. fst e < k)"
  by (auto simp: omap_ok_def)

lemma map_of_omap_put [simp, map_simps]:
  "map_of (omap_put k v m) = (map_of m)(k \<mapsto> v)"
  by (induction k v m rule: omap_put.induct) (auto simp: fun_eq_iff)

lemma map_of_omap_erase [simp, map_simps]:
  "map_of (omap_erase k m) = (map_of m)(k := None)"
  by (induction m) (auto simp: omap_erase_def fun_eq_iff)

lemma keys_omap_put [simp]: "fst ` set (omap_put k v m) = insert k (fst ` set m)"
  by (induction k v m rule: omap_put.induct) auto

lemma set_omap_put_subset: "set (omap_put k v m) \<subseteq> insert (k, v) (set m)"
  by (induction k v m rule: omap_put.induct) auto

lemma omap_ok_put: "omap_ok m \<Longrightarrow> omap_ok (omap_put k v m)"
proof (induction k v m rule: omap_put.induct)
  case (1 k v)
  then show ?case by (simp add: omap_ok_def)
next
  case (2 k v k' v' m)
  then show ?case by (auto simp: omap_ok_Cons)
qed

lemma omap_ok_erase: "omap_ok m \<Longrightarrow> omap_ok (omap_erase k m)"
  by (induction m) (auto simp: omap_erase_def omap_ok_Cons)

lemma omap_ok_distinct: "omap_ok m \<Longrightarrow> distinct (map fst m)"
  by (simp add: omap_ok_def strict_sorted_iff)

lemma map_of_eq_None_keys: "map_of m k = None \<longleftrightarrow> k \<notin> fst ` set m"
  by (rule map_of_eq_None_iff)

text \<open>The key of \<^verbatim>\<open>rbegin()\<close>, and the loops that read the map in key order.\<close>

definition omap_max_key :: "(int, 'v) omap \<Rightarrow> int" where
  "omap_max_key m = (if m = [] then 0 else fst (last m))"

lemma omap_max_key_ge: "omap_ok m \<Longrightarrow> k \<in> fst ` set m \<Longrightarrow> k \<le> omap_max_key m"
proof (induction m)
  case Nil
  then show ?case by simp
next
  case (Cons e m)
  show ?case
  proof (cases "m = []")
    case True
    with Cons.prems show ?thesis by (auto simp: omap_max_key_def)
  next
    case False
    have last_in: "fst (last m) \<in> fst ` set m" using False by simp
    have "k \<le> fst (last m)"
    proof (cases "k = fst e")
      case True
      with Cons.prems(1) last_in show ?thesis by (auto simp: omap_ok_Cons)
    next
      case False
      with Cons show ?thesis
        using \<open>m \<noteq> []\<close> by (auto simp: omap_ok_Cons omap_max_key_def)
    qed
    with False show ?thesis by (simp add: omap_max_key_def)
  qed
qed

text \<open>
  The contract of an ordered map, as its clients use it. \<open>omap_put\<close> is
  \<^verbatim>\<open>m[k] = v\<close>, \<open>omap_erase\<close> is \<^verbatim>\<open>m.erase(k)\<close>.
\<close>

locale ordered_map =
  fixes find :: "'m \<Rightarrow> int \<Rightarrow> 'v option"
    and put :: "int \<Rightarrow> 'v \<Rightarrow> 'm \<Rightarrow> 'm"
    and erase :: "int \<Rightarrow> 'm \<Rightarrow> 'm"
    and ok :: "'m \<Rightarrow> bool"
  assumes find_put: "find (put k v m) j = (if j = k then Some v else find m j)"
    and find_erase: "find (erase k m) j = (if j = k then None else find m j)"
    and ok_put: "ok m \<Longrightarrow> ok (put k v m)"
    and ok_erase: "ok m \<Longrightarrow> ok (erase k m)"
begin

lemma find_put_same: "find (put k v m) k = Some v"
  by (simp add: find_put)

lemma find_put_other: "j \<noteq> k \<Longrightarrow> find (put k v m) j = find m j"
  by (simp add: find_put)

lemma find_erase_put: "find (erase k (put k v m)) j = find (erase k m) j"
  by (simp add: find_erase find_put)

lemma find_puts:
  "find (fold (\<lambda>k. put k v) ks m) j = (if j \<in> set ks then Some v else find m j)"
  by (induction ks arbitrary: m) (auto simp: find_put)

lemma ok_puts: "ok m \<Longrightarrow> ok (fold (\<lambda>k. put k v) ks m)"
  by (induction ks arbitrary: m) (auto simp: ok_put)

end

interpretation om: ordered_map map_of omap_put omap_erase omap_ok
  by unfold_locales (auto simp: omap_ok_put omap_ok_erase)

section \<open>Vectors\<close>

datatype 'a cvec = CVec (vsize: int) (vat: "int \<Rightarrow> 'a")

definition vec_get :: "'a cvec \<Rightarrow> int \<Rightarrow> exn + 'a" where
  "vec_get v i = (if 0 \<le> i \<and> i < vsize v then Inr (vat v i) else Inl OutOfBounds)"

definition vec_set :: "'a cvec \<Rightarrow> int \<Rightarrow> 'a \<Rightarrow> exn + 'a cvec" where
  "vec_set v i x =
     (if 0 \<le> i \<and> i < vsize v then Inr (CVec (vsize v) ((vat v)(i := x))) else Inl OutOfBounds)"

definition vec_fill :: "int \<Rightarrow> 'a \<Rightarrow> 'a cvec" where
  "vec_fill n x = CVec n (\<lambda>_. x)"

definition vec_clear :: "'a cvec \<Rightarrow> 'a cvec" where
  "vec_clear v = CVec 0 (vat v)"

lemma vec_get_eq_Inr [exn_simps]:
  "vec_get v i = Inr x \<longleftrightarrow> 0 \<le> i \<and> i < vsize v \<and> x = vat v i"
  by (auto simp: vec_get_def)

lemma vec_set_eq_Inr [exn_simps]:
  "vec_set v i x = Inr w \<longleftrightarrow> 0 \<le> i \<and> i < vsize v \<and> w = CVec (vsize v) ((vat v)(i := x))"
  by (auto simp: vec_set_def)

lemma vec_get_in [simp]: "0 \<le> i \<Longrightarrow> i < vsize v \<Longrightarrow> vec_get v i = Inr (vat v i)"
  by (simp add: vec_get_def)

lemma vec_set_in [simp]:
  "0 \<le> i \<Longrightarrow> i < vsize v \<Longrightarrow> vec_set v i x = Inr (CVec (vsize v) ((vat v)(i := x)))"
  by (simp add: vec_set_def)

lemma vec_fill_sel [simp]: "vsize (vec_fill n x) = n" "vat (vec_fill n x) i = x"
  by (simp_all add: vec_fill_def)

lemma vec_clear_sel [simp]: "vsize (vec_clear v) = 0" "vat (vec_clear v) = vat v"
  by (simp_all add: vec_clear_def)

lemma vec_get_cleared [simp]: "vec_get (vec_clear v) i = Inl OutOfBounds"
  by (simp add: vec_get_def)

lemma vec_set_cleared [simp]: "vec_set (vec_clear v) i x = Inl OutOfBounds"
  by (simp add: vec_set_def)

end
