(* ===== verification/CppStrings.thy ===== *)
theory CppStrings
  imports Prelude "HOL-Library.Char_ord"
begin

text \<open>
  \<^verbatim>\<open>std::stoi\<close> and \<^verbatim>\<open>std::to_string\<close>, which the program uses to carry account
  numbers through string fields. \<open>stoi\<close> skips white space, reads an optional sign and the
  longest run of digits, ignores what follows, and throws when there is no digit or the value
  does not fit a 32-bit \<^verbatim>\<open>int\<close>. The main results: \<open>stoi_to_string\<close> (round trip) and
  \<open>stoi_Nil\<close> (the empty string throws).
\<close>

section \<open>Digits\<close>

definition is_digit :: "char \<Rightarrow> bool" where
  "is_digit c \<longleftrightarrow> 48 \<le> (of_char c :: nat) \<and> (of_char c :: nat) \<le> 57"

definition digit_val :: "char \<Rightarrow> int" where
  "digit_val c = int (of_char c) - 48"

definition digit_char :: "int \<Rightarrow> char" where
  "digit_char d = char_of (nat (48 + d))"

definition is_space :: "char \<Rightarrow> bool" where
  "is_space c \<longleftrightarrow> (of_char c :: nat) = 32 \<or> 9 \<le> (of_char c :: nat) \<and> (of_char c :: nat) \<le> 13"

lemma digit_char_code: "0 \<le> d \<Longrightarrow> d < 10 \<Longrightarrow> (of_char (digit_char d) :: nat) = nat (48 + d)"
  by (simp add: digit_char_def of_char_of take_bit_eq_mod)

lemma digit_char_props:
  assumes "0 \<le> d" and "d < 10"
  shows "is_digit (digit_char d)" and "digit_val (digit_char d) = d"
    and "\<not> is_space (digit_char d)" and "digit_char d \<noteq> CHR ''-''" and "digit_char d \<noteq> CHR ''+''"
proof -
  have c: "(of_char (digit_char d) :: nat) = nat (48 + d)"
    using assms by (rule digit_char_code)
  show "is_digit (digit_char d)" and "digit_val (digit_char d) = d"
    and "\<not> is_space (digit_char d)"
    using assms c by (auto simp: is_digit_def digit_val_def is_space_def)
  show "digit_char d \<noteq> CHR ''-''" and "digit_char d \<noteq> CHR ''+''"
    using assms c by auto
qed

section \<open>Printing\<close>

fun nat_digits :: "nat \<Rightarrow> string" where
  "nat_digits n =
     (if n < 10 then [digit_char (int n)]
      else nat_digits (n div 10) @ [digit_char (int (n mod 10))])"

declare nat_digits.simps [simp del]

definition to_string :: "int \<Rightarrow> string" where
  "to_string i = (if i < 0 then CHR ''-'' # nat_digits (nat (- i)) else nat_digits (nat i))"

text \<open>\<^verbatim>\<open>std::to_string\<close> of a \<^verbatim>\<open>float\<close> or \<^verbatim>\<open>double\<close> with an integral value.\<close>

definition to_string_real :: "int \<Rightarrow> string" where
  "to_string_real i = to_string i @ ''.000000''"

lemma nat_digits_all: "list_all is_digit (nat_digits n)"
proof (induction n rule: nat_digits.induct)
  case (1 n)
  show ?case
    using 1 digit_char_props(1) by (subst nat_digits.simps) auto
qed

lemma nat_digits_ne: "nat_digits n \<noteq> []"
  by (subst nat_digits.simps) simp

lemma is_digit_start: "is_digit c \<Longrightarrow> \<not> is_space c \<and> c \<noteq> CHR ''-'' \<and> c \<noteq> CHR ''+''"
  by (auto simp: is_digit_def is_space_def)

section \<open>Parsing\<close>

definition digits_val :: "string \<Rightarrow> int" where
  "digits_val ds = fold (\<lambda>c acc. 10 * acc + digit_val c) ds 0"

definition int_min :: int where "int_min = - 2147483648"
definition int_max :: int where "int_max = 2147483647"

definition stoi :: "string \<Rightarrow> exn + int" where
  "stoi s =
     (let t = dropWhile is_space s;
          neg = (t \<noteq> [] \<and> hd t = CHR ''-'');
          u = (if t \<noteq> [] \<and> (hd t = CHR ''-'' \<or> hd t = CHR ''+'') then tl t else t);
          ds = takeWhile is_digit u;
          v = (if neg then - digits_val ds else digits_val ds)
      in if ds = [] then Inl InvalidArgument
         else if v < int_min \<or> int_max < v then Inl OutOfRange
         else Inr v)"

lemma stoi_Nil [simp]: "stoi [] = Inl InvalidArgument"
  by (simp add: stoi_def)

lemma digits_val_snoc: "digits_val (ds @ [c]) = 10 * digits_val ds + digit_val c"
  by (simp add: digits_val_def)

lemma digits_val_nat_digits: "digits_val (nat_digits n) = int n"
proof (induction n rule: nat_digits.induct)
  case (1 n)
  show ?case
  proof (cases "n < 10")
    case True
    then show ?thesis
      by (subst nat_digits.simps) (simp add: digits_val_def digit_char_props)
  next
    case False
    with 1 have "digits_val (nat_digits n) = 10 * int (n div 10) + int (n mod 10)"
      by (subst nat_digits.simps) (simp add: digits_val_snoc digit_char_props)
    also have "\<dots> = int (10 * (n div 10) + n mod 10)"
      by (simp only: of_nat_add of_nat_mult of_nat_numeral)
    also have "\<dots> = int n" by (simp only: mult_div_mod_eq)
    finally show ?thesis .
  qed
qed

lemma takeWhile_digits: "takeWhile is_digit (nat_digits n) = nat_digits n"
  using nat_digits_all by (simp add: list_all_iff)

lemma hd_nat_digits: "is_digit (hd (nat_digits n))"
  using nat_digits_all [of n] nat_digits_ne [of n] by (cases "nat_digits n") auto

lemma not_space_minus: "\<not> is_space (CHR ''-'')"
  by (simp add: is_space_def)

lemma dropWhile_digits: "dropWhile is_space (nat_digits n) = nat_digits n"
  using hd_nat_digits [of n] nat_digits_ne [of n] is_digit_start
  by (cases "nat_digits n") auto

lemma stoi_to_string:
  assumes "int_min \<le> i" and "i \<le> int_max"
  shows "stoi (to_string i) = Inr i"
proof (cases "i < 0")
  case True
  have "digits_val (nat_digits (nat (- i))) = - i"
    using True by (simp add: digits_val_nat_digits)
  with True assms show ?thesis
    by (simp add: stoi_def to_string_def not_space_minus takeWhile_digits nat_digits_ne)
next
  case False
  have "digits_val (nat_digits (nat i)) = i"
    using False by (simp add: digits_val_nat_digits)
  moreover have "hd (nat_digits (nat i)) \<noteq> CHR ''-''" "hd (nat_digits (nat i)) \<noteq> CHR ''+''"
    using hd_nat_digits is_digit_start by blast+
  ultimately show ?thesis using False assms
    by (simp add: stoi_def to_string_def dropWhile_digits takeWhile_digits nat_digits_ne)
qed

lemma to_string_inj:
  assumes "int_min \<le> i" "i \<le> int_max" "int_min \<le> j" "j \<le> int_max"
    and "to_string i = to_string j"
  shows "i = j"
proof -
  have "(Inr i :: exn + int) = stoi (to_string i)"
    using assms(1,2) by (rule stoi_to_string [symmetric])
  also have "\<dots> = stoi (to_string j)" by (simp only: assms(5))
  also have "\<dots> = Inr j" using assms(3,4) by (rule stoi_to_string)
  finally show ?thesis by simp
qed

lemma stoi_range: "stoi s = Inr v \<Longrightarrow> int_min \<le> v \<and> v \<le> int_max"
  by (auto simp: stoi_def Let_def split: if_splits)

lemma stoi_no_digits: "list_all (\<lambda>c. \<not> is_digit c) s \<Longrightarrow> stoi s = Inl InvalidArgument"
proof -
  assume h: "list_all (\<lambda>c. \<not> is_digit c) s"
  have sub: "set (dropWhile is_space s) \<subseteq> set s" by (rule set_dropWhileD [THEN subsetI])
  have none: "takeWhile is_digit t = []" if "set t \<subseteq> set s" for t
    using that h by (cases t) (auto simp: list_all_iff)
  have "set (tl (dropWhile is_space s)) \<subseteq> set s"
    using sub by (metis dual_order.trans list.sel(2) list.set_sel(2) subsetI)
  with sub none show ?thesis by (simp add: stoi_def Let_def)
qed

text \<open>The account names the witnesses use.\<close>

lemma stoi_literals [simp]:
  "stoi ''1'' = Inr 1" "stoi ''2'' = Inr 2" "stoi ''3'' = Inr 3" "stoi ''4'' = Inr 4"
  "stoi ''3001'' = Inr 3001" "stoi ''6001'' = Inr 6001" "stoi ''-1'' = Inr (- 1)"
  by code_simp+

end
