(* ===== verification/Ballots.thy ===== *)
theory Ballots
  imports CppStrings
begin

text \<open>
  \<^verbatim>\<open>struct Ballot\<close> of \<^verbatim>\<open>src/paxos_node.h\<close>: a counter and the proposer's node id with the
  code's four comparison operators. The operators form a strict total order (locale
  \<open>ballot_order\<close>, interpreted on them), which makes \<open>ballot\<close> a \<open>linorder\<close>, and
  ballots of different nodes are never equal.
\<close>

section \<open>The structure and its operators\<close>

datatype ballot = Ballot (b_counter: int) (b_node: int)

definition ballot_gt :: "ballot \<Rightarrow> ballot \<Rightarrow> bool" where
  "ballot_gt a b \<longleftrightarrow>
     b_counter a > b_counter b \<or> (b_counter a = b_counter b \<and> b_node a > b_node b)"

definition ballot_lt :: "ballot \<Rightarrow> ballot \<Rightarrow> bool" where
  "ballot_lt a b \<longleftrightarrow>
     b_counter a < b_counter b \<or> (b_counter a = b_counter b \<and> b_node a < b_node b)"

definition ballot_eq :: "ballot \<Rightarrow> ballot \<Rightarrow> bool" where
  "ballot_eq a b \<longleftrightarrow> b_counter a = b_counter b \<and> b_node a = b_node b"

definition ballot_ge :: "ballot \<Rightarrow> ballot \<Rightarrow> bool" where
  "ballot_ge a b \<longleftrightarrow> ballot_gt a b \<or> ballot_eq a b"

definition ballot_ToString :: "ballot \<Rightarrow> string" where
  "ballot_ToString b = ''('' @ to_string (b_counter b) @ '','' @ to_string (b_node b) @ '')''"

section \<open>They are a total order\<close>

locale ballot_order =
  fixes gt lt ge eq :: "'b \<Rightarrow> 'b \<Rightarrow> bool"
  assumes gt_irrefl: "\<not> gt a a"
    and gt_trans: "gt a b \<Longrightarrow> gt b c \<Longrightarrow> gt a c"
    and gt_total: "gt a b \<or> a = b \<or> gt b a"
    and lt_iff: "lt a b \<longleftrightarrow> gt b a"
    and eq_iff: "eq a b \<longleftrightarrow> a = b"
    and ge_iff: "ge a b \<longleftrightarrow> gt a b \<or> a = b"
begin

lemma gt_asym: "gt a b \<Longrightarrow> \<not> gt b a"
  using gt_irrefl gt_trans by blast

lemma not_lt: "\<not> lt a b \<longleftrightarrow> ge a b"
  using gt_total gt_asym gt_irrefl by (auto simp: lt_iff ge_iff)

lemma not_gt: "\<not> gt a b \<longleftrightarrow> ge b a"
  using gt_total gt_asym gt_irrefl by (auto simp: ge_iff)

lemma ge_trans: "ge a b \<Longrightarrow> ge b c \<Longrightarrow> ge a c"
  using gt_trans by (auto simp: ge_iff)

lemma ge_antisym: "ge a b \<Longrightarrow> ge b a \<Longrightarrow> a = b"
  using gt_asym by (auto simp: ge_iff)

text \<open>Keeping the larger of two ballots never lowers either.\<close>

lemma max_ge: "ge (if gt a b then a else b) a" "ge (if gt a b then a else b) b"
  using not_gt by (auto simp: ge_iff)

end

interpretation bo: ballot_order ballot_gt ballot_lt ballot_ge ballot_eq
  by unfold_locales
     (auto simp: ballot_gt_def ballot_lt_def ballot_ge_def ballot_eq_def intro: ballot.expand)

instantiation ballot :: linorder
begin

definition less_ballot :: "ballot \<Rightarrow> ballot \<Rightarrow> bool" where
  "less_ballot a b = ballot_lt a b"

definition less_eq_ballot :: "ballot \<Rightarrow> ballot \<Rightarrow> bool" where
  "less_eq_ballot a b = ballot_ge b a"

instance
proof
  fix a b c :: ballot
  show "(a < b) = (a \<le> b \<and> \<not> b \<le> a)"
    by (metis bo.not_lt bo.ge_iff bo.lt_iff bo.gt_irrefl less_ballot_def less_eq_ballot_def)
  show "a \<le> a" by (simp add: less_eq_ballot_def bo.ge_iff)
  show "a \<le> b \<Longrightarrow> b \<le> c \<Longrightarrow> a \<le> c"
    unfolding less_eq_ballot_def by (rule bo.ge_trans)
  show "a \<le> b \<Longrightarrow> b \<le> a \<Longrightarrow> a = b"
    unfolding less_eq_ballot_def by (rule bo.ge_antisym)
  show "a \<le> b \<or> b \<le> a"
    using bo.gt_total by (auto simp: less_eq_ballot_def bo.ge_iff)
qed

end

lemma ballot_gt_less [simp]: "ballot_gt a b \<longleftrightarrow> b < a"
  by (simp add: less_ballot_def bo.lt_iff)

lemma ballot_lt_less [simp]: "ballot_lt a b \<longleftrightarrow> a < b"
  by (simp add: less_ballot_def)

lemma ballot_ge_le [simp]: "ballot_ge a b \<longleftrightarrow> b \<le> a"
  by (simp add: less_eq_ballot_def)

lemma ballot_less_iff:
  "a < b \<longleftrightarrow> b_counter a < b_counter b \<or> (b_counter a = b_counter b \<and> b_node a < b_node b)"
  by (simp only: less_ballot_def ballot_lt_def)

lemma ballot_le_iff:
  "a \<le> b \<longleftrightarrow> b_counter a < b_counter b \<or> (b_counter a = b_counter b \<and> b_node a \<le> b_node b)"
  unfolding le_less [of a b] by (cases a; cases b) (auto simp: ballot_less_iff)

lemma ballot_of_sel [simp]: "Ballot (b_counter b) (b_node b) = b"
  by (cases b) simp

end
