(* ===== verification/Messages.thy ===== *)
theory Messages
  imports Ballots
begin

text \<open>
  The messages of \<^verbatim>\<open>grpc/paxos.proto\<close> as records, with the protobuf defaults, and the
  observable effects of a node: the RPCs it issues and the RPCs it answers. Amounts and
  balances are integers: \<^verbatim>\<open>node_launch.cpp\<close> only produces integral amounts, which
  \<^verbatim>\<open>float\<close> carries exactly up to \<open>2^24\<close> and \<^verbatim>\<open>double\<close> up to \<open>2^53\<close>.
\<close>

record client_request =
  cr_client_id :: string
  cr_timestamp :: int
  cr_from_account :: string
  cr_to_account :: string
  cr_amount :: int
  cr_read_only :: bool
  cr_two_pc_msg :: string
  cr_from_node :: int

definition no_request :: client_request where
  "no_request = \<lparr>cr_client_id = [], cr_timestamp = 0, cr_from_account = [], cr_to_account = [],
     cr_amount = 0, cr_read_only = False, cr_two_pc_msg = [], cr_from_node = 0\<rparr>"

record client_reply =
  rp_ballot :: ballot
  rp_timestamp :: int
  rp_client_id :: string
  rp_success :: bool
  rp_from_this_term :: bool
  rp_read_only_balance :: int

record prepare_request =
  pq_ballot :: ballot
  pq_node_id :: int

record accepted_entry =
  ae_ballot :: ballot
  ae_seqnum :: int
  ae_request :: client_request
  ae_node_id :: int
  ae_two_pc_status :: string
  ae_m :: client_request
  ae_new_leader :: int
  ae_phase2_result :: string

definition no_entry :: accepted_entry where
  "no_entry = \<lparr>ae_ballot = Ballot 0 0, ae_seqnum = 0, ae_request = no_request, ae_node_id = 0,
     ae_two_pc_status = [], ae_m = no_request, ae_new_leader = 0, ae_phase2_result = []\<rparr>"

record commit_entry =
  ce_ballot :: ballot
  ce_seqnum :: int
  ce_request :: client_request
  ce_two_pc_status :: string
  ce_m :: client_request
  ce_phase2_result :: string

definition no_commit :: commit_entry where
  "no_commit = \<lparr>ce_ballot = Ballot 0 0, ce_seqnum = 0, ce_request = no_request,
     ce_two_pc_status = [], ce_m = no_request, ce_phase2_result = []\<rparr>"

record promise_response =
  pr_ballot :: ballot
  pr_node_id :: int
  pr_promised :: bool
  pr_accept_log :: "accepted_entry list"

record new_view_request =
  nv_ballot :: ballot
  nv_accept_log :: "accepted_entry list"

record ack =
  ak_ballot :: ballot
  ak_node_id :: int
  ak_accepted :: bool
  ak_seqnum :: int
  ak_phase :: int
  ak_status :: string

definition no_ack :: ack where
  "no_ack = \<lparr>ak_ballot = Ballot 0 0, ak_node_id = 0, ak_accepted = False, ak_seqnum = 0,
     ak_phase = 0, ak_status = []\<rparr>"

record heartbeat_request =
  hb_ballot :: ballot
  hb_node_id :: int

record twopc_msg =
  tm_type :: string
  tm_s :: string
  tm_r :: string
  tm_amt :: int
  tm_m :: client_request

definition no_twopc :: twopc_msg where
  "no_twopc = \<lparr>tm_type = [], tm_s = [], tm_r = [], tm_amt = 0, tm_m = no_request\<rparr>"

record alive_update_request =
  au_is_alive :: bool
  au_kill_leader :: bool
  au_prompt_pause :: bool
  au_recover :: bool
  au_reset_state :: bool
  au_reshard :: bool
  au_shard_map :: "(int \<times> int) list"

record info_request =
  iq_print_log :: bool
  iq_print_db :: bool
  iq_print_status :: bool
  iq_print_newview :: bool
  iq_seqnum :: int

record node_info =
  ni_print_log :: string
  ni_database :: "(string \<times> int) list"
  ni_status :: string
  ni_newviews :: "new_view_request list"

definition no_info :: node_info where
  "no_info = \<lparr>ni_print_log = [], ni_database = [], ni_status = [], ni_newviews = []\<rparr>"

section \<open>The two-phase-commit status strings\<close>

text \<open>The test the code repeats: a phase-2 status, and the three phase-1 statuses.\<close>

definition is_phase2 :: "string \<Rightarrow> bool" where
  "is_phase2 s \<longleftrightarrow> s = ''C_COORD'' \<or> s = ''C'' \<or> s = ''A_COORD'' \<or> s = ''A_PART_COMMIT''"

definition is_phase1 :: "string \<Rightarrow> bool" where
  "is_phase1 s \<longleftrightarrow> s = ''COORD'' \<or> s = ''P'' \<or> s = ''A''"

lemma is_phase2_simps [simp]:
  "is_phase2 ''C_COORD''" "is_phase2 ''C''" "is_phase2 ''A_COORD''" "is_phase2 ''A_PART_COMMIT''"
  "\<not> is_phase2 []" "\<not> is_phase2 ''COORD''" "\<not> is_phase2 ''P''" "\<not> is_phase2 ''A''"
  by (simp_all add: is_phase2_def)

lemma is_phase1_simps [simp]:
  "is_phase1 ''COORD''" "is_phase1 ''P''" "is_phase1 ''A''" "\<not> is_phase1 []"
  by (simp_all add: is_phase1_def)

lemma phase1_not_phase2: "is_phase1 s \<Longrightarrow> \<not> is_phase2 s"
  by (auto simp: is_phase1_def is_phase2_def)

section \<open>Calls and effects\<close>

text \<open>
  A pending server-side call object: its identity and the request it carries
  (\<^verbatim>\<open>SendClientRequestCallData::GetRequest\<close>).
\<close>

datatype client_call = ClientCall (call_id: nat) (call_request: client_request)

datatype action =
    CallPrepare int prepare_request
  | CallAccept int accepted_entry
  | CallCommit int commit_entry
  | CallNewView int new_view_request
  | CallClientRequest int client_request
  | CallAcceptAck int ack
  | CallHeartbeat int heartbeat_request
  | CallTwoPC int twopc_msg
  | CallClientReply string client_reply
  | RespondPrepare nat promise_response
  | RespondClientRequest nat
  | RespondNewView nat

end
