(* ===== verification/Topology.thy ===== *)
theory Topology
  imports Ballots
begin

text \<open>
  The cluster layout computed by the constructor of \<^verbatim>\<open>PaxosNode\<close>
  (\<^verbatim>\<open>src/paxos_node.cpp\<close>): the cluster size \<^verbatim>\<open>divisor_\<close>, the node range of a
  cluster, the cluster of a node, the number \<^verbatim>\<open>f_\<close> of tolerated faults and the first leader.
  Main results: the ranges partition the nodes, and quorums of \<^verbatim>\<open>f_ + 1\<close> members of one
  cluster intersect exactly when the cluster has an odd number of nodes.
  C++ division truncates (\<open>sdiv\<close>, \<open>smod\<close>).
\<close>

section \<open>The constructor's arithmetic\<close>

definition cluster_divisor :: "int \<Rightarrow> int \<Rightarrow> int" where
  "cluster_divisor n num_clusters = n sdiv num_clusters"

definition range_low :: "int \<Rightarrow> int \<Rightarrow> int" where
  "range_low d i = ((i - 1) sdiv d) * d + 1"

definition range_high :: "int \<Rightarrow> int \<Rightarrow> int" where
  "range_high d i = range_low d i + d - 1"

definition cluster_of_node :: "int \<Rightarrow> int \<Rightarrow> int" where
  "cluster_of_node d i = (i - 1) sdiv d + 1"

definition max_faulty :: "int \<Rightarrow> int" where
  "max_faulty d = (d - 1) sdiv 2"

definition initial_leader :: "int \<Rightarrow> int \<Rightarrow> int" where
  "initial_leader d c = d * (c - 1) + 1"

definition is_initial_leader :: "int \<Rightarrow> int \<Rightarrow> bool" where
  "is_initial_leader d i \<longleftrightarrow> i smod d = 1"

lemma sdiv_nonneg [simp]: "0 \<le> a \<Longrightarrow> 0 < b \<Longrightarrow> (a::int) sdiv b = a div b"
  by (cases "a = 0") (simp_all add: signed_divide_int_def)

lemma smod_nonneg [simp]: "0 \<le> a \<Longrightarrow> 0 < b \<Longrightarrow> (a::int) smod b = a mod b"
  by (cases "a = 0") (simp_all add: signed_modulo_int_def)

lemma div_eq_iff_between:
  "0 < (d::int) \<Longrightarrow> x div d = q \<longleftrightarrow> q * d \<le> x \<and> x < (q + 1) * d"
proof -
  assume d: "0 < d"
  have split: "x = d * (x div d) + x mod d" by simp
  have rem: "0 \<le> x mod d" "x mod d < d" using d by simp_all
  show ?thesis
  proof
    assume "x div d = q"
    with split rem show "q * d \<le> x \<and> x < (q + 1) * d"
      by (simp add: algebra_simps)
  next
    assume "q * d \<le> x \<and> x < (q + 1) * d"
    then show "x div d = q"
      by (intro int_div_pos_eq [where r = "x - d * q"]) (auto simp: algebra_simps)
  qed
qed

lemma range_contains:
  assumes "0 < d" and "1 \<le> i"
  shows "range_low d i \<le> i" and "i \<le> range_high d i"
proof -
  have "(i - 1) div d * d \<le> i - 1 \<and> i - 1 < ((i - 1) div d + 1) * d"
    using assms(1) div_eq_iff_between by blast
  with assms show "range_low d i \<le> i" and "i \<le> range_high d i"
    by (auto simp: range_low_def range_high_def algebra_simps)
qed

lemma range_low_cluster:
  assumes "0 < d" and "1 \<le> i"
  shows "range_low d i = initial_leader d (cluster_of_node d i)"
  using assms by (simp add: range_low_def initial_leader_def cluster_of_node_def mult.commute)

lemma in_range_same_cluster:
  assumes d: "0 < d" and i: "1 \<le> i" and j: "1 \<le> j"
  shows "range_low d i \<le> j \<and> j \<le> range_high d i \<longleftrightarrow> cluster_of_node d j = cluster_of_node d i"
proof
  assume "range_low d i \<le> j \<and> j \<le> range_high d i"
  then have "(i - 1) div d * d \<le> j - 1 \<and> j - 1 < ((i - 1) div d + 1) * d"
    using d i by (auto simp: range_low_def range_high_def algebra_simps)
  then have "(j - 1) div d = (i - 1) div d"
    using d by (simp add: div_eq_iff_between)
  then show "cluster_of_node d j = cluster_of_node d i"
    using d i j by (simp add: cluster_of_node_def)
next
  assume "cluster_of_node d j = cluster_of_node d i"
  then have "range_low d j = range_low d i"
    using assms by (simp add: range_low_cluster)
  with range_contains [OF d j] show "range_low d i \<le> j \<and> j \<le> range_high d i"
    by (simp add: range_high_def)
qed

section \<open>Quorums\<close>

text \<open>What an election or a commit relies on: any two quorums share a member.\<close>

locale quorum_system =
  fixes members :: "int set" and quorum :: "int set \<Rightarrow> bool"
  assumes quorum_sub: "quorum Q \<Longrightarrow> Q \<subseteq> members"
    and quorum_meet: "quorum Q \<Longrightarrow> quorum R \<Longrightarrow> Q \<inter> R \<noteq> {}"
begin

lemma quorum_nonempty: "quorum Q \<Longrightarrow> Q \<noteq> {}"
  using quorum_meet [of Q Q] by auto

text \<open>With one vote per member, two quorums cannot choose different values.\<close>

lemma chosen_unique:
  assumes "quorum Q" "\<forall>a\<in>Q. vote a = Some v"
    and "quorum R" "\<forall>a\<in>R. vote a = Some w"
  shows "v = w"
  using quorum_meet [OF assms(1,3)] assms(2,4) by fastforce

text \<open>A quorum of promises contains a member of any quorum that accepted.\<close>

lemma promise_meets_accept:
  assumes "quorum Q" "quorum R"
  obtains a where "a \<in> Q" "a \<in> R" "a \<in> members"
  using quorum_meet [OF assms] quorum_sub [OF assms(1)] by blast

end

definition cluster_members :: "int \<Rightarrow> int \<Rightarrow> int set" where
  "cluster_members d c = {initial_leader d c .. initial_leader d c + d - 1}"

definition quorum_size :: "int \<Rightarrow> int" where
  "quorum_size d = max_faulty d + 1"

definition is_quorum :: "int \<Rightarrow> int \<Rightarrow> int set \<Rightarrow> bool" where
  "is_quorum d c Q \<longleftrightarrow> Q \<subseteq> cluster_members d c \<and> int (card Q) \<ge> quorum_size d"

lemma card_cluster_members: "0 \<le> d \<Longrightarrow> int (card (cluster_members d c)) = d"
  by (simp add: cluster_members_def)

lemma finite_cluster_members [simp]: "finite (cluster_members d c)"
  by (simp add: cluster_members_def)

lemma card_disjoint_members:
  assumes "Q \<subseteq> cluster_members d c" "R \<subseteq> cluster_members d c" "Q \<inter> R = {}" "0 \<le> d"
  shows "int (card Q) + int (card R) \<le> d"
proof -
  have fin: "finite Q" "finite R"
    using assms(1,2) finite_cluster_members finite_subset by blast+
  have "card Q + card R = card (Q \<union> R)"
    using fin assms(3) by (simp add: card_Un_disjoint)
  also have "\<dots> \<le> card (cluster_members d c)"
    using assms(1,2) by (intro card_mono) auto
  finally show ?thesis using card_cluster_members [OF assms(4), of c] by linarith
qed

lemma odd_quorums_meet:
  assumes "odd d" "1 \<le> d" "is_quorum d c Q" "is_quorum d c R"
  shows "Q \<inter> R \<noteq> {}"
proof
  assume "Q \<inter> R = {}"
  then have "int (card Q) + int (card R) \<le> d"
    using assms by (intro card_disjoint_members) (auto simp: is_quorum_def)
  moreover have "2 * quorum_size d > d"
    using assms(1,2) by (auto simp: quorum_size_def max_faulty_def elim!: oddE)
  ultimately show False using assms(3,4) by (simp add: is_quorum_def)
qed

interpretation oddq: quorum_system "cluster_members (2 * int k + 1) c" "is_quorum (2 * int k + 1) c"
  for k c
proof unfold_locales
  fix Q assume "is_quorum (2 * int k + 1) c Q"
  then show "Q \<subseteq> cluster_members (2 * int k + 1) c" by (simp add: is_quorum_def)
next
  fix Q R assume "is_quorum (2 * int k + 1) c Q" "is_quorum (2 * int k + 1) c R"
  then show "Q \<inter> R \<noteq> {}" by (intro odd_quorums_meet) auto
qed

lemma even_quorums_disjoint:
  fixes m c :: int
  assumes "1 \<le> m"
  defines "Q \<equiv> {initial_leader (2 * m) c .. initial_leader (2 * m) c + m - 1}"
    and "R \<equiv> {initial_leader (2 * m) c + m .. initial_leader (2 * m) c + 2 * m - 1}"
  shows "is_quorum (2 * m) c Q" and "is_quorum (2 * m) c R" and "Q \<inter> R = {}"
proof -
  have "(2 * m - 1) div 2 = m - 1" by presburger
  then show "is_quorum (2 * m) c Q" and "is_quorum (2 * m) c R" and "Q \<inter> R = {}"
    using assms(1)
    by (auto simp: Q_def R_def is_quorum_def cluster_members_def quorum_size_def max_faulty_def)
qed

text \<open>
  C19: any two quorums of \<^verbatim>\<open>f_ + 1\<close> members of a cluster share a member exactly when the
  cluster has an odd number of nodes. With an even number, two disjoint quorums exist, so the
  quorum size of the code is not a majority.
\<close>

theorem quorums_intersect_iff_odd:
  assumes "1 \<le> d"
  shows "(\<forall>Q R. is_quorum d c Q \<longrightarrow> is_quorum d c R \<longrightarrow> Q \<inter> R \<noteq> {}) \<longleftrightarrow> odd d"
proof
  assume meet: "\<forall>Q R. is_quorum d c Q \<longrightarrow> is_quorum d c R \<longrightarrow> Q \<inter> R \<noteq> {}"
  show "odd d"
  proof
    assume "even d"
    then obtain m where "d = 2 * m" by (rule evenE)
    with assms have m: "1 \<le> m" by simp
    show False
      using meet even_quorums_disjoint [OF m, of c] unfolding \<open>d = 2 * m\<close> by metis
  qed
next
  assume "odd d"
  then obtain j where d: "d = 2 * j + 1" by (rule oddE)
  with assms have "d = 2 * int (nat j) + 1" by simp
  then obtain k where k: "d = 2 * int k + 1" by blast
  show "\<forall>Q R. is_quorum d c Q \<longrightarrow> is_quorum d c R \<longrightarrow> Q \<inter> R \<noteq> {}"
    unfolding k using oddq.quorum_meet by blast
qed

theorem quorums_intersect_iff_odd_witness:
  "\<not> (\<exists>Q R. is_quorum 3 1 Q \<and> is_quorum 3 1 R \<and> Q \<inter> R = {}) \<and>
   (\<exists>Q R. is_quorum 4 1 Q \<and> is_quorum 4 1 R \<and> Q \<inter> R = {})"
  using quorums_intersect_iff_odd [of 3 1] quorums_intersect_iff_odd [of 4 1] by auto

end
