(* ===== verification/NodeState.thy ===== *)
theory NodeState
  imports Messages Topology
begin

text \<open>
  The state of a node: the data members of \<^verbatim>\<open>class PaxosNode\<close>
  (\<^verbatim>\<open>src/paxos_node.h\<close>) under their names without the trailing underscore, the constructor,
  and the accesses the handlers share. Locks that only serialise threads are left out: a handler is
  one atomic step. The per-account mutexes \<^verbatim>\<open>balance_locks_\<close> are state. Time is a
  number of milliseconds.

  A map that the code reads only through \<^verbatim>\<open>operator[]\<close> is a total function with the
  default value outside its keys; the ordered maps are sorted association lists. The field
  \<open>outbox\<close> records the RPCs the node issues and answers, in order.
\<close>

section \<open>The state\<close>

datatype role = LEADER | BACKUP

datatype wal_entry = WalEntry (before_value: int) (after_value: int)

record in_flight =
  if_msg :: twopc_msg
  if_last_send :: int
  if_completed :: bool
  if_sent :: bool
  if_retries :: int

definition no_in_flight :: in_flight where
  "no_in_flight = \<lparr>if_msg = no_twopc, if_last_send = 0, if_completed = False, if_sent = False,
     if_retries = 0\<rparr>"

record node =
  node_id :: int
  role :: role
  alive :: bool
  client_ids :: "string list"
  peers :: "int list"
  k_print_log :: bool
  divisor :: int
  range_lo :: int
  range_hi :: int
  cluster_id :: int
  f_max :: int
  num_clusters :: int
  shard_map :: "int \<Rightarrow> int"
  cluster_leaders :: "int \<Rightarrow> int"
  current_ballot :: ballot
  highest_promised_ballot :: ballot
  leader_id :: int
  in_election :: bool
  waiting_for_promises :: bool
  promises_received :: "int set"
  received_promise_logs :: "(int \<times> accepted_entry list) list"
  pending_promise_call :: "nat option"
  timer_running :: bool
  election_reset :: bool
  heartbeat_running :: bool
  last_prepare_received :: int
  last_leader_msg_received :: int
  accept_log :: "(int, accepted_entry) omap"
  accepted_count :: "int \<Rightarrow> int \<Rightarrow> int set"
  accepted_count_two_pc_commit :: "int \<Rightarrow> int \<Rightarrow> int set"
  pending_entries :: "int \<rightharpoonup> accepted_entry"
  entries_to_commit :: "(int, commit_entry) omap"
  executed_entries :: "int set"
  last_executed_seq :: int
  last_seqnum :: int
  accounts :: "int cvec"
  modified_accounts :: "int set"
  balance_locks :: "bool cvec"
  wal :: "(int, wal_entry) omap"
  digest_to_seqnum :: "int \<Rightarrow> int"
  in_flight_prepares :: "in_flight cvec"
  in_flight_txns :: "in_flight cvec"
  prepare_and_aborted_queue :: "int \<rightharpoonup> twopc_msg"
  pending_client_calls :: "(int, client_call) omap"
  queued_client_requests :: "(client_request \<times> client_call) list"
  last_reply_per_client :: "string \<rightharpoonup> client_reply"
  handled_ro_requests :: "int set"
  pending_or_completed_ts :: "int set"
  first_txn_received :: bool
  newview_call_data :: "nat option"
  in_new_view :: bool
  max_seqnum_in_new_view :: int
  new_view_logs :: "new_view_request list"
  alive_before_prompt :: bool
  print_log :: string
  outbox :: "action list"

section \<open>The constructor\<close>

definition num_items :: int where "num_items = 9000"
definition in_flight_slots :: int where "in_flight_slots = 5000"

text \<open>\<^verbatim>\<open>accounts_\<close> has 9001 slots; slots 1 to 9000 start at 10.\<close>

definition initial_accounts :: "int cvec" where
  "initial_accounts = CVec (num_items + 1) (\<lambda>i. if 1 \<le> i \<and> i \<le> num_items then 10 else 0)"

definition PaxosNode_init ::
  "int \<Rightarrow> role \<Rightarrow> int list \<Rightarrow> string list \<Rightarrow> (int \<Rightarrow> int) \<Rightarrow> int \<Rightarrow> int \<Rightarrow> bool \<Rightarrow> node" where
  "PaxosNode_init i r node_addrs clients smap nclusters now kprint =
     (let d = cluster_divisor (int (length node_addrs)) nclusters in
      \<lparr>node_id = i, role = r, alive = True, client_ids = clients, peers = node_addrs,
       k_print_log = kprint, divisor = d, range_lo = range_low d i, range_hi = range_high d i,
       cluster_id = cluster_of_node d i, f_max = max_faulty d, num_clusters = nclusters,
       shard_map = smap,
       cluster_leaders = (\<lambda>c. if 1 \<le> c \<and> c \<le> nclusters then initial_leader d c else 0),
       current_ballot = Ballot 0 i, highest_promised_ballot = Ballot 0 0, leader_id = - 1,
       in_election = True, waiting_for_promises = False, promises_received = {},
       received_promise_logs = [], pending_promise_call = None, timer_running = False,
       election_reset = False, heartbeat_running = False, last_prepare_received = now - 1000,
       last_leader_msg_received = now - 1000, accept_log = [], accepted_count = (\<lambda>_ _. {}),
       accepted_count_two_pc_commit = (\<lambda>_ _. {}), pending_entries = Map.empty,
       entries_to_commit = [], executed_entries = {}, last_executed_seq = 0, last_seqnum = 0,
       accounts = initial_accounts, modified_accounts = {},
       balance_locks = vec_fill (num_items + 1) False, wal = [], digest_to_seqnum = (\<lambda>_. 0),
       in_flight_prepares = vec_fill in_flight_slots no_in_flight,
       in_flight_txns = vec_fill in_flight_slots no_in_flight,
       prepare_and_aborted_queue = Map.empty, pending_client_calls = [],
       queued_client_requests = [], last_reply_per_client = Map.empty, handled_ro_requests = {},
       pending_or_completed_ts = {}, first_txn_received = True, newview_call_data = None,
       in_new_view = False, max_seqnum_in_new_view = 0, new_view_logs = [],
       alive_before_prompt = True, print_log = [], outbox = []\<rparr>)"

section \<open>Shared accesses\<close>

definition emit :: "action \<Rightarrow> node \<Rightarrow> node" where
  "emit a n = n\<lparr>outbox := outbox n @ [a]\<rparr>"

definition emits :: "action list \<Rightarrow> node \<Rightarrow> node" where
  "emits as n = n\<lparr>outbox := outbox n @ as\<rparr>"

text \<open>\<^verbatim>\<open>print_log_ += ...\<close>, compiled in unless \<^verbatim>\<open>PAXOS_BENCHMARK\<close> is set.\<close>

definition plog :: "string \<Rightarrow> node \<Rightarrow> node" where
  "plog s n =
     n\<lparr>print_log := (if k_print_log n then print_log n @ s else print_log n)\<rparr>"

text \<open>A call through \<^verbatim>\<open>peer_stubs_[p]\<close>: a missing key gives a null stub.\<close>

definition call_peer :: "int \<Rightarrow> action \<Rightarrow> node \<Rightarrow> exn + node" where
  "call_peer p a n = (if p \<in> set (peers n) then Inr (emit a n) else Inl NullStub)"

definition call_client :: "string \<Rightarrow> client_reply \<Rightarrow> node \<Rightarrow> exn + node" where
  "call_client c r n =
     (if c \<in> set (client_ids n) then Inr (emit (CallClientReply c r) n) else Inl NullStub)"

text \<open>The loop over \<^verbatim>\<open>peer_stubs_\<close> that skips the node itself and other clusters.\<close>

definition in_my_range :: "node \<Rightarrow> int \<Rightarrow> bool" where
  "in_my_range n p \<longleftrightarrow> \<not> (p < range_lo n \<or> p > range_hi n)"

definition cluster_peers :: "node \<Rightarrow> int list" where
  "cluster_peers n = filter (\<lambda>p. p \<noteq> node_id n \<and> in_my_range n p) (peers n)"

definition broadcast_cluster :: "(int \<Rightarrow> action) \<Rightarrow> node \<Rightarrow> node" where
  "broadcast_cluster mk n = emits (map mk (cluster_peers n)) n"

definition get_account :: "int \<Rightarrow> node \<Rightarrow> exn + int" where
  "get_account i n = vec_get (accounts n) i"

definition set_account :: "int \<Rightarrow> int \<Rightarrow> node \<Rightarrow> exn + node" where
  "set_account i v n = bindE (vec_set (accounts n) i v) (\<lambda>a. Inr (n\<lparr>accounts := a\<rparr>))"

text \<open>\<^verbatim>\<open>balance_locks_[i].try_lock()\<close> and \<^verbatim>\<open>unlock()\<close>. Unlocking a free mutex
  leaves it free, as on the platform the program targets.\<close>

definition try_lock :: "int \<Rightarrow> node \<Rightarrow> exn + (bool \<times> node)" where
  "try_lock i n =
     bindE (vec_get (balance_locks n) i) (\<lambda>held.
       if held then Inr (False, n)
       else bindE (vec_set (balance_locks n) i True) (\<lambda>l. Inr (True, n\<lparr>balance_locks := l\<rparr>)))"

definition unlock :: "int \<Rightarrow> node \<Rightarrow> exn + node" where
  "unlock i n =
     bindE (vec_set (balance_locks n) i False) (\<lambda>l. Inr (n\<lparr>balance_locks := l\<rparr>))"

text \<open>\<^verbatim>\<open>accept_log_[k]\<close> inserts a default entry when the key is missing.\<close>

definition accept_log_at :: "int \<Rightarrow> node \<Rightarrow> accepted_entry \<times> node" where
  "accept_log_at k n =
     (case map_of (accept_log n) k of
        Some e \<Rightarrow> (e, n)
      | None \<Rightarrow> (no_entry, n\<lparr>accept_log := omap_put k no_entry (accept_log n)\<rparr>))"

definition log_put :: "int \<Rightarrow> accepted_entry \<Rightarrow> node \<Rightarrow> node" where
  "log_put k e n = n\<lparr>accept_log := omap_put k e (accept_log n)\<rparr>"

text \<open>\<^verbatim>\<open>count[seq][counter].insert(id)\<close>.\<close>

definition count_insert ::
  "int \<Rightarrow> int \<Rightarrow> int \<Rightarrow> (int \<Rightarrow> int \<Rightarrow> int set) \<Rightarrow> (int \<Rightarrow> int \<Rightarrow> int set)" where
  "count_insert s c i m = m(s := (m s)(c := insert i (m s c)))"

lemma count_insert_apply [simp]:
  "count_insert s c i m s' c' = (if s' = s \<and> c' = c then insert i (m s c) else m s' c')"
  by (simp add: count_insert_def)

definition respond_client :: "client_call \<Rightarrow> node \<Rightarrow> node" where
  "respond_client c n = emit (RespondClientRequest (call_id c)) n"

section \<open>What no handler changes\<close>

text \<open>
  The members set once by the constructor: identity, cluster layout, fault bound and addresses.
\<close>

definition same_config :: "node \<Rightarrow> node \<Rightarrow> bool" where
  "same_config n m \<longleftrightarrow>
     node_id m = node_id n \<and> client_ids m = client_ids n \<and> peers m = peers n \<and>
     k_print_log m = k_print_log n \<and> divisor m = divisor n \<and> range_lo m = range_lo n \<and>
     range_hi m = range_hi n \<and> cluster_id m = cluster_id n \<and> f_max m = f_max n \<and>
     num_clusters m = num_clusters n"

lemmas node_access_defs =
  emit_def emits_def plog_def call_peer_def call_client_def broadcast_cluster_def
  get_account_def set_account_def try_lock_def unlock_def log_put_def respond_client_def

lemma same_config_refl [simp]: "same_config n n"
  by (simp add: same_config_def)

lemma same_config_trans: "same_config a b \<Longrightarrow> same_config b c \<Longrightarrow> same_config a c"
  by (simp add: same_config_def)

lemma same_config_plog [simp]: "same_config n (plog s n)"
  by (simp add: plog_def same_config_def)

section \<open>A sample deployment\<close>

text \<open>Three clusters of three nodes over 9000 items, the configuration of the README; the
  witnesses of the properties evaluate the handlers on it.\<close>

definition demo_shards :: "int \<Rightarrow> int" where
  "demo_shards i =
     (if i < 1 \<or> 9000 < i then 0 else if i \<le> 3000 then 1 else if i \<le> 6000 then 2 else 3)"

definition demo_node :: "int \<Rightarrow> node" where
  "demo_node i = PaxosNode_init i BACKUP [1, 2, 3, 4, 5, 6, 7, 8, 9] [''A''] demo_shards 3 1000 True"

definition demo_request :: "string \<Rightarrow> string \<Rightarrow> int \<Rightarrow> int \<Rightarrow> client_request" where
  "demo_request s r amt ts =
     no_request\<lparr>cr_from_account := s, cr_to_account := r, cr_amount := amt, cr_timestamp := ts\<rparr>"

lemma demo_request_sel [simp]:
  "cr_from_account (demo_request s r amt ts) = s" "cr_to_account (demo_request s r amt ts) = r"
  "cr_amount (demo_request s r amt ts) = amt" "cr_timestamp (demo_request s r amt ts) = ts"
  "cr_client_id (demo_request s r amt ts) = []" "cr_two_pc_msg (demo_request s r amt ts) = []"
  "cr_read_only (demo_request s r amt ts) = False"
  by (simp_all add: demo_request_def no_request_def)

lemma initial_accounts_sel [simp]:
  "vsize initial_accounts = 9001"
  "vat initial_accounts i = (if 1 \<le> i \<and> i \<le> 9000 then 10 else 0)"
  by (simp_all add: initial_accounts_def num_items_def)

lemma demo_node_sel [simp]:
  "node_id (demo_node i) = i" "role (demo_node i) = BACKUP" "alive (demo_node i)"
  "client_ids (demo_node i) = [''A'']" "peers (demo_node i) = [1, 2, 3, 4, 5, 6, 7, 8, 9]"
  "divisor (demo_node i) = 3" "f_max (demo_node i) = 1" "num_clusters (demo_node i) = 3"
  "range_lo (demo_node i) = range_low 3 i" "range_hi (demo_node i) = range_high 3 i"
  "cluster_id (demo_node i) = cluster_of_node 3 i" "shard_map (demo_node i) = demo_shards"
  "current_ballot (demo_node i) = Ballot 0 i" "highest_promised_ballot (demo_node i) = Ballot 0 0"
  "leader_id (demo_node i) = - 1" "accept_log (demo_node i) = []" "wal (demo_node i) = []"
  "accounts (demo_node i) = initial_accounts" "outbox (demo_node i) = []"
  "balance_locks (demo_node i) = vec_fill 9001 False" "executed_entries (demo_node i) = {}"
  "in_flight_prepares (demo_node i) = vec_fill 5000 no_in_flight"
  "in_flight_txns (demo_node i) = vec_fill 5000 no_in_flight"
  "cluster_leaders (demo_node i) c = (if 1 \<le> c \<and> c \<le> 3 then 3 * (c - 1) + 1 else 0)"
  "last_executed_seq (demo_node i) = 0" "last_seqnum (demo_node i) = 0"
  "entries_to_commit (demo_node i) = []" "accepted_count (demo_node i) = (\<lambda>_ _. {})"
  "accepted_count_two_pc_commit (demo_node i) = (\<lambda>_ _. {})"
  "max_seqnum_in_new_view (demo_node i) = 0" "pending_or_completed_ts (demo_node i) = {}"
  "digest_to_seqnum (demo_node i) = (\<lambda>_. 0)" "promises_received (demo_node i) = {}"
  "received_promise_logs (demo_node i) = []" "waiting_for_promises (demo_node i) = False"
  "last_reply_per_client (demo_node i) = Map.empty" "pending_client_calls (demo_node i) = []"
  "in_election (demo_node i)" "first_txn_received (demo_node i)"
  "queued_client_requests (demo_node i) = []" "timer_running (demo_node i) = False"
  "pending_promise_call (demo_node i) = None" "newview_call_data (demo_node i) = None"
  "alive_before_prompt (demo_node i)" "handled_ro_requests (demo_node i) = {}"
  "last_prepare_received (demo_node i) = 0" "last_leader_msg_received (demo_node i) = 0"
  "prepare_and_aborted_queue (demo_node i) = Map.empty" "pending_entries (demo_node i) = Map.empty"
  by (simp_all add: demo_node_def PaxosNode_init_def Let_def cluster_divisor_def num_items_def
      in_flight_slots_def max_faulty_def initial_leader_def)

lemma demo_shards_simps [simp]:
  "demo_shards 1 = 1" "demo_shards 2 = 1" "demo_shards 3 = 1" "demo_shards 4 = 1"
  "demo_shards 3001 = 2" "demo_shards 6001 = 3"
  by (simp_all add: demo_shards_def)

lemma demo_layout [simp]:
  "range_low 3 1 = 1" "range_high 3 1 = 3" "cluster_of_node 3 1 = 1"
  "range_low 3 2 = 1" "range_high 3 2 = 3" "cluster_of_node 3 2 = 1"
  "range_low 3 3 = 1" "range_high 3 3 = 3" "cluster_of_node 3 3 = 1"
  "range_low 3 4 = 4" "range_high 3 4 = 6" "cluster_of_node 3 4 = 2"
  "range_low 3 5 = 4" "range_high 3 5 = 6" "cluster_of_node 3 5 = 2"
  by (simp_all add: range_low_def range_high_def cluster_of_node_def)

end
