(* ===== verification/Execution.thy ===== *)
theory Execution
  imports NodeState
begin

text \<open>
  \<^verbatim>\<open>PaxosNode::ExecuteTransaction\<close> (\<^verbatim>\<open>src/paxos_node.cpp\<close>): how a committed
  entry changes the balances, the write-ahead log and the account locks of one replica. The lemmas
  give its behaviour on every branch; the properties are conservation of money by intra-shard
  transfers, non-negative balances, and the failure on a NO-OP entry.
\<close>

section \<open>The operation\<close>

definition mark_executed :: "int \<Rightarrow> node \<Rightarrow> node" where
  "mark_executed seq n = n\<lparr>executed_entries := insert seq (executed_entries n)\<rparr>"

definition mark_modified :: "int list \<Rightarrow> node \<Rightarrow> node" where
  "mark_modified is n = n\<lparr>modified_accounts := modified_accounts n \<union> set is\<rparr>"

definition unlock_both :: "int \<Rightarrow> int \<Rightarrow> node \<Rightarrow> exn + node" where
  "unlock_both a b n = bindE (unlock a n) (unlock b)"

definition move_balance :: "int \<Rightarrow> int \<Rightarrow> int \<Rightarrow> node \<Rightarrow> exn + node" where
  "move_balance from to amt n =
     bindE (get_account from n) (\<lambda>x.
     bindE (set_account from (x - amt) n) (\<lambda>n1.
     bindE (get_account to n1) (\<lambda>y.
     set_account to (y + amt) n1)))"

definition wal_put :: "int \<Rightarrow> wal_entry \<Rightarrow> node \<Rightarrow> node" where
  "wal_put seq w n = n\<lparr>wal := omap_put seq w (wal n)\<rparr>"

text \<open>A phase-1 entry changes one account and remembers its values before and after.\<close>

definition logged_change :: "int \<Rightarrow> int \<Rightarrow> int \<Rightarrow> node \<Rightarrow> exn + node" where
  "logged_change seq acct delta n =
     bindE (get_account acct n) (\<lambda>x.
     bindE (set_account acct (x + delta) (wal_put seq (WalEntry x (x + delta)) n)) (\<lambda>n1.
     Inr (mark_modified [acct] n1)))"

definition ExecuteTransaction ::
  "client_request \<Rightarrow> int \<Rightarrow> string \<Rightarrow> node \<Rightarrow> exn + (bool \<times> node)" where
  "ExecuteTransaction request seqnum two_pc_status n =
     bindE (stoi (cr_from_account request)) (\<lambda>from.
     bindE (stoi (cr_to_account request)) (\<lambda>to.
       let amt = cr_amount request;
           intra_shard = (shard_map n to = shard_map n from)
       in
       if cr_client_id request = ''NO-OP'' then Inr (True, n)
       else bindE (get_account from n) (\<lambda>balance.
         if balance < amt then
           bindE (if intra_shard then unlock_both from to (mark_executed seqnum n)
                  else Inr (mark_executed seqnum n)) (\<lambda>n1. Inr (False, n1))
         else if two_pc_status = ''A'' then Inr (False, mark_executed seqnum n)
         else bindE
           (if intra_shard then
              bindE (move_balance from to amt n) (\<lambda>n1.
                unlock_both from to (mark_modified [from, to] n1))
            else if two_pc_status = ''P'' then logged_change seqnum to amt n
            else if two_pc_status = ''COORD'' then logged_change seqnum from (- amt) n
            else Inr n)
           (\<lambda>n2. Inr (True, mark_executed seqnum n2)))))"

section \<open>Behaviour on each branch\<close>

text \<open>The request names two accounts of the table.\<close>

definition valid_accounts :: "client_request \<Rightarrow> int \<Rightarrow> int \<Rightarrow> node \<Rightarrow> bool" where
  "valid_accounts req from to n \<longleftrightarrow>
     stoi (cr_from_account req) = Inr from \<and> stoi (cr_to_account req) = Inr to \<and>
     cr_client_id req \<noteq> ''NO-OP'' \<and>
     0 \<le> from \<and> from < vsize (accounts n) \<and> 0 \<le> to \<and> to < vsize (accounts n) \<and>
     vsize (balance_locks n) = vsize (accounts n)"

abbreviation balance :: "node \<Rightarrow> int \<Rightarrow> int" where
  "balance n i \<equiv> vat (accounts n) i"

abbreviation locked :: "node \<Rightarrow> int \<Rightarrow> bool" where
  "locked n i \<equiv> vat (balance_locks n) i"

named_theorems exec_simps \<open>unfolding of the execution helpers\<close>

lemmas exec_defs [exec_simps] =
  mark_executed_def mark_modified_def unlock_both_def move_balance_def wal_put_def
  logged_change_def

text \<open>The node after a successful intra-shard transfer.\<close>

definition transferred :: "int \<Rightarrow> int \<Rightarrow> int \<Rightarrow> int \<Rightarrow> node \<Rightarrow> node" where
  "transferred seq from to amt n =
     n\<lparr>accounts := CVec (vsize (accounts n))
         (((vat (accounts n))(from := balance n from - amt))
            (to := (if to = from then balance n from else balance n to + amt))),
       modified_accounts := modified_accounts n \<union> {from, to},
       balance_locks := CVec (vsize (balance_locks n))
         ((vat (balance_locks n))(from := False, to := False)),
       executed_entries := insert seq (executed_entries n)\<rparr>"

lemma exec_intra:
  assumes "valid_accounts req from to n" and "shard_map n to = shard_map n from"
    and "cr_amount req \<le> balance n from" and "status \<noteq> ''A''"
  shows "ExecuteTransaction req seq status n =
           Inr (True, transferred seq from to (cr_amount req) n)"
  using assms
  by (auto simp: valid_accounts_def ExecuteTransaction_def node_access_defs exec_simps
      transferred_def Let_def fun_eq_iff)

text \<open>The node after an unaffordable transfer: recorded as executed, nothing moves.\<close>

lemma exec_insufficient:
  assumes "valid_accounts req from to n" and "balance n from < cr_amount req"
  shows "ExecuteTransaction req seq status n =
    Inr (False, (mark_executed seq n)\<lparr>balance_locks :=
      (if shard_map n to = shard_map n from
       then CVec (vsize (balance_locks n)) ((vat (balance_locks n))(from := False, to := False))
       else balance_locks n)\<rparr>)"
  using assms
  by (auto simp: valid_accounts_def ExecuteTransaction_def node_access_defs exec_simps Let_def)

lemma exec_refused:
  assumes "valid_accounts req from to n" and "cr_amount req \<le> balance n from"
  shows "ExecuteTransaction req seq ''A'' n = Inr (False, mark_executed seq n)"
  using assms
  by (auto simp: valid_accounts_def ExecuteTransaction_def node_access_defs exec_simps Let_def)

text \<open>The node after a phase-1 change of one account.\<close>

definition prepared :: "int \<Rightarrow> int \<Rightarrow> int \<Rightarrow> node \<Rightarrow> node" where
  "prepared seq acct delta n =
     n\<lparr>accounts := CVec (vsize (accounts n)) ((vat (accounts n))(acct := balance n acct + delta)),
       wal := omap_put seq (WalEntry (balance n acct) (balance n acct + delta)) (wal n),
       modified_accounts := insert acct (modified_accounts n),
       executed_entries := insert seq (executed_entries n)\<rparr>"

lemma exec_coord:
  assumes "valid_accounts req from to n" and "shard_map n to \<noteq> shard_map n from"
    and "cr_amount req \<le> balance n from"
  shows "ExecuteTransaction req seq ''COORD'' n =
           Inr (True, prepared seq from (- cr_amount req) n)"
  using assms
  by (auto simp: valid_accounts_def ExecuteTransaction_def node_access_defs exec_simps
      prepared_def Let_def)

lemma exec_participant:
  assumes "valid_accounts req from to n" and "shard_map n to \<noteq> shard_map n from"
    and "cr_amount req \<le> balance n from"
  shows "ExecuteTransaction req seq ''P'' n = Inr (True, prepared seq to (cr_amount req) n)"
  using assms
  by (auto simp: valid_accounts_def ExecuteTransaction_def node_access_defs exec_simps
      prepared_def Let_def)

lemma exec_other:
  assumes "valid_accounts req from to n" and "shard_map n to \<noteq> shard_map n from"
    and "cr_amount req \<le> balance n from" and "\<not> is_phase1 status"
  shows "ExecuteTransaction req seq status n = Inr (True, mark_executed seq n)"
  using assms
  by (auto simp: valid_accounts_def ExecuteTransaction_def node_access_defs exec_simps
      is_phase1_def Let_def)

section \<open>Frame\<close>

text \<open>Execution touches only the balances, the modified set, the locks, the WAL and the executed
  set.\<close>

definition exec_frame :: "node \<Rightarrow> node \<Rightarrow> bool" where
  "exec_frame n m \<longleftrightarrow>
     m = n\<lparr>accounts := accounts m, modified_accounts := modified_accounts m,
           balance_locks := balance_locks m, wal := wal m,
           executed_entries := executed_entries m\<rparr>"

lemma exec_frame_refl [simp]: "exec_frame n n"
  by (simp add: exec_frame_def)

lemma exec_frameI:
  "m = n\<lparr>accounts := a, modified_accounts := b, balance_locks := c, wal := d,
        executed_entries := e\<rparr> \<Longrightarrow> exec_frame n m"
  by (simp add: exec_frame_def)

lemma exec_frame_trans: "exec_frame a b \<Longrightarrow> exec_frame b c \<Longrightarrow> exec_frame a c"
  unfolding exec_frame_def by (elim ssubst [where t = c] ssubst [where t = b]) simp

lemma exec_frame_same_config: "exec_frame n m \<Longrightarrow> same_config n m"
  unfolding exec_frame_def by (elim ssubst [where t = m]) (simp add: same_config_def)

text \<open>The helpers, inverted.\<close>

abbreviation (input) in_vec :: "int \<Rightarrow> 'a cvec \<Rightarrow> bool" where
  "in_vec i v \<equiv> 0 \<le> i \<and> i < vsize v"

lemma unlock_both_Inr:
  "unlock_both a b n = Inr m \<longleftrightarrow>
     in_vec a (balance_locks n) \<and> in_vec b (balance_locks n) \<and>
     m = n\<lparr>balance_locks := CVec (vsize (balance_locks n))
             ((vat (balance_locks n))(a := False, b := False))\<rparr>"
  by (auto simp: unlock_both_def unlock_def exn_simps)

lemma move_balance_Inr:
  "move_balance from to amt n = Inr m \<longleftrightarrow>
     in_vec from (accounts n) \<and> in_vec to (accounts n) \<and>
     m = n\<lparr>accounts := CVec (vsize (accounts n))
         (((vat (accounts n))(from := balance n from - amt))
            (to := (if to = from then balance n from else balance n to + amt)))\<rparr>"
  by (auto simp: move_balance_def get_account_def set_account_def exn_simps)

lemma logged_change_Inr:
  "logged_change seq acct delta n = Inr m \<longleftrightarrow>
     in_vec acct (accounts n) \<and>
     m = n\<lparr>accounts := CVec (vsize (accounts n))
              ((vat (accounts n))(acct := balance n acct + delta)),
           wal := omap_put seq (WalEntry (balance n acct) (balance n acct + delta)) (wal n),
           modified_accounts := insert acct (modified_accounts n)\<rparr>"
  by (auto simp: logged_change_def get_account_def set_account_def wal_put_def mark_modified_def
      exn_simps)

lemma mark_executed_prepared:
  "logged_change seq acct delta n = Inr m \<Longrightarrow>
   in_vec acct (accounts n) \<and> mark_executed seq m = prepared seq acct delta n"
  by (simp add: logged_change_Inr mark_executed_def prepared_def)

lemma ExecuteTransaction_cases:
  assumes run: "ExecuteTransaction req seq status n = Inr (b, m)"
  obtains
    (noop) "cr_client_id req = ''NO-OP''" "b" "m = n"
  | (insufficient) "from" "to" where "cr_client_id req \<noteq> ''NO-OP''" "\<not> b"
      "stoi (cr_from_account req) = Inr from" "stoi (cr_to_account req) = Inr to"
      "balance n from < cr_amount req"
      "m = (mark_executed seq n)\<lparr>balance_locks :=
         (if shard_map n to = shard_map n from
          then CVec (vsize (balance_locks n)) ((vat (balance_locks n))(from := False, to := False))
          else balance_locks n)\<rparr>"
  | (refused) "from" "to" where "cr_client_id req \<noteq> ''NO-OP''" "status = ''A''" "\<not> b"
      "stoi (cr_from_account req) = Inr from" "stoi (cr_to_account req) = Inr to"
      "cr_amount req \<le> balance n from" "m = mark_executed seq n"
  | (transfer) "from" "to" where "cr_client_id req \<noteq> ''NO-OP''" "status \<noteq> ''A''" "b"
      "stoi (cr_from_account req) = Inr from" "stoi (cr_to_account req) = Inr to"
      "shard_map n to = shard_map n from" "cr_amount req \<le> balance n from"
      "in_vec from (accounts n)" "in_vec to (accounts n)"
      "m = transferred seq from to (cr_amount req) n"
  | (participant) "from" "to" where "cr_client_id req \<noteq> ''NO-OP''" "status = ''P''" "b"
      "stoi (cr_from_account req) = Inr from" "stoi (cr_to_account req) = Inr to"
      "shard_map n to \<noteq> shard_map n from" "cr_amount req \<le> balance n from"
      "in_vec to (accounts n)" "m = prepared seq to (cr_amount req) n"
  | (coordinator) "from" "to" where "cr_client_id req \<noteq> ''NO-OP''" "status = ''COORD''" "b"
      "stoi (cr_from_account req) = Inr from" "stoi (cr_to_account req) = Inr to"
      "shard_map n to \<noteq> shard_map n from" "cr_amount req \<le> balance n from"
      "in_vec from (accounts n)" "m = prepared seq from (- cr_amount req) n"
  | (other) "from" "to" where "cr_client_id req \<noteq> ''NO-OP''" "\<not> is_phase1 status" "b"
      "stoi (cr_from_account req) = Inr from" "stoi (cr_to_account req) = Inr to"
      "shard_map n to \<noteq> shard_map n from" "cr_amount req \<le> balance n from"
      "m = mark_executed seq n"
proof -
  obtain "from" "to" where st: "stoi (cr_from_account req) = Inr from"
      "stoi (cr_to_account req) = Inr to"
    using run by (auto simp: ExecuteTransaction_def elim!: bindE_InrE)
  show thesis
  proof (cases "cr_client_id req = ''NO-OP''")
    case True
    with run st show thesis by (intro noop) (auto simp: ExecuteTransaction_def)
  next
    case False
    note ok = False
    from run st ok have inb: "in_vec from (accounts n)"
      by (auto simp: ExecuteTransaction_def get_account_def Let_def exn_simps)
    show thesis
    proof (cases "balance n from < cr_amount req")
      case True
      with run st ok inb show thesis
        by (intro insufficient [of "from" "to"])
          (auto simp: ExecuteTransaction_def get_account_def exn_simps unlock_both_Inr
            mark_executed_def split: if_splits)
    next
      case False
      note funds = False
      show thesis
      proof (cases "status = ''A''")
        case True
        with run st ok inb funds show thesis
          by (intro refused [of "from" "to"]) (auto simp: ExecuteTransaction_def get_account_def)
      next
        case False
        note body = run [unfolded ExecuteTransaction_def get_account_def Let_def]
        show thesis
        proof (cases "shard_map n to = shard_map n from")
          case True
          with body st ok inb funds False show thesis
            by (intro transfer [of "from" "to"])
              (auto simp: exn_simps unlock_both_Inr move_balance_Inr
                mark_modified_def mark_executed_def transferred_def)
        next
          case cross: False
          consider "status = ''P''" | "status = ''COORD''" | "\<not> is_phase1 status"
            using False by (auto simp: is_phase1_def)
          then show thesis
          proof cases
            case 1
            with body st ok inb funds cross show thesis
              by (intro participant [of "from" "to"])
                (auto simp: exn_simps dest!: mark_executed_prepared)
          next
            case 2
            with body st ok inb funds cross show thesis
              by (intro coordinator [of "from" "to"])
                (auto simp: exn_simps dest!: mark_executed_prepared)
          next
            case 3
            with body st ok inb funds cross show thesis
              by (intro other [of "from" "to"]) (auto simp: is_phase1_def)
          qed
        qed
      qed
    qed
  qed
qed

lemma ExecuteTransaction_frame:
  assumes "ExecuteTransaction req seq status n = Inr (b, m)"
  shows "exec_frame n m"
  using assms
  by (cases rule: ExecuteTransaction_cases)
    (simp_all add: exec_frame_def mark_executed_def transferred_def prepared_def)

lemma ExecuteTransaction_executed:
  assumes "ExecuteTransaction req seq status n = Inr (b, m)" and "cr_client_id req \<noteq> ''NO-OP''"
  shows "executed_entries m = insert seq (executed_entries n)"
  using assms
  by (cases rule: ExecuteTransaction_cases)
    (simp_all add: mark_executed_def transferred_def prepared_def)

lemma ExecuteTransaction_sizes:
  assumes "ExecuteTransaction req seq status n = Inr (b, m)"
  shows "vsize (accounts m) = vsize (accounts n) \<and> vsize (balance_locks m) = vsize (balance_locks n)"
  using assms
  by (cases rule: ExecuteTransaction_cases)
    (simp_all add: mark_executed_def transferred_def prepared_def)

section \<open>Money\<close>

text \<open>The total of a replica's table.\<close>

definition total_balance :: "node \<Rightarrow> int" where
  "total_balance n = (\<Sum>i\<in>{0..<vsize (accounts n)}. balance n i)"

lemma sum_add_at:
  fixes g :: "int \<Rightarrow> int"
  assumes "finite A" and "a \<in> A"
  shows "sum (g(a := g a + c)) A = sum g A + c"
proof -
  have "g(a := g a + c) = (\<lambda>i. g i + (if i = a then c else 0))" by auto
  then show ?thesis using assms by (simp add: sum.distrib)
qed

lemma sum_move:
  fixes g :: "int \<Rightarrow> int"
  assumes "finite A" "a \<in> A" "b \<in> A"
  shows "sum ((g(a := g a - c))(b := (g(a := g a - c)) b + c)) A = sum g A"
  using sum_add_at [OF assms(1,3), of "g(a := g a - c)" c] sum_add_at [OF assms(1,2), of g "- c"]
  by simp

lemma transferred_total:
  assumes "in_vec from (accounts n)" and "in_vec to (accounts n)"
  shows "total_balance (transferred seq from to amt n) = total_balance n"
  using assms sum_move [of "{0..<vsize (accounts n)}" "from" "to" "vat (accounts n)" amt]
  by (auto simp: total_balance_def transferred_def cong: if_cong)

lemma total_balance_same_accounts: "accounts m = accounts n \<Longrightarrow> total_balance m = total_balance n"
  by (simp add: total_balance_def)

text \<open>
  C10: executing an intra-shard entry, whatever its status and whether or not it succeeds, keeps
  the total of the replica's balances. A transfer from an account to itself is included.
\<close>

theorem intra_shard_conserves:
  assumes "ExecuteTransaction req seq status n = Inr (b, m)"
    and "stoi (cr_from_account req) = Inr from" and "stoi (cr_to_account req) = Inr to"
    and "shard_map n to = shard_map n from"
  shows "total_balance m = total_balance n"
  using assms(1)
proof (cases rule: ExecuteTransaction_cases)
  case (transfer a c)
  then show ?thesis by (simp add: transferred_total)
qed (use assms in \<open>simp_all add: total_balance_def mark_executed_def\<close>)

lemma demo_valid:
  "valid_accounts (demo_request ''1'' ''2'' amt ts) 1 2 (demo_node 1)"
  by (simp add: valid_accounts_def)

theorem intra_shard_conserves_witness:
  "\<exists>m. ExecuteTransaction (demo_request ''1'' ''2'' 4 7) 1 [] (demo_node 1) = Inr (True, m) \<and>
     balance m 1 = 6 \<and> balance m 2 = 14 \<and> total_balance m = total_balance (demo_node 1)"
proof -
  have run: "ExecuteTransaction (demo_request ''1'' ''2'' 4 7) 1 [] (demo_node 1) =
      Inr (True, transferred 1 1 2 4 (demo_node 1))"
    by (simp add: exec_intra [OF demo_valid])
  have "total_balance (transferred 1 1 2 4 (demo_node 1)) = total_balance (demo_node 1)"
    by (rule intra_shard_conserves [OF run, of 1 2]) simp_all
  with run show ?thesis by (simp add: transferred_def)
qed

text \<open>
  C23: no entry with a non-negative amount drives a balance below zero. From non-negative balances,
  the execution of such an entry under any two-phase-commit status leaves every balance non-negative. The
  amount matters: nothing in the program refuses a negative one, and \<open>negative_amount_overdraws\<close>.
\<close>

theorem execution_keeps_nonneg:
  assumes "ExecuteTransaction req seq status n = Inr (b, m)"
    and "0 \<le> cr_amount req" and "\<forall>i. 0 \<le> balance n i"
  shows "\<forall>i. 0 \<le> balance m i"
  using assms(1)
  by (cases rule: ExecuteTransaction_cases)
    (use assms(2,3) in \<open>simp_all add: mark_executed_def transferred_def prepared_def\<close>)

theorem execution_keeps_nonneg_witness:
  "\<exists>m. ExecuteTransaction (demo_request ''1'' ''2'' 11 7) 1 [] (demo_node 1) = Inr (False, m) \<and>
     (\<forall>i. 0 \<le> balance m i)"
proof -
  obtain m where run: "ExecuteTransaction (demo_request ''1'' ''2'' 11 7) 1 [] (demo_node 1) = Inr (False, m)"
    by (simp add: exec_insufficient [OF demo_valid])
  have "\<forall>i. 0 \<le> balance m i"
    by (rule execution_keeps_nonneg [OF run]) simp_all
  with run show ?thesis by blast
qed

text \<open>Only the sender's balance is compared with the amount, so a negative one empties the receiver.\<close>

lemma negative_amount_overdraws:
  "ExecuteTransaction (demo_request ''1'' ''2'' (- 20) 7) 1 [] (demo_node 1) =
     Inr (True, transferred 1 1 2 (- 20) (demo_node 1)) \<and>
   balance (demo_node 1) 2 = 10 \<and> balance (transferred 1 1 2 (- 20) (demo_node 1)) 2 = - 10"
  by (simp add: exec_intra [OF demo_valid] transferred_def)

end
