(* ===== verification/TwoPhase.thy ===== *)
theory TwoPhase
  imports Execution
begin

text \<open>
  The two-phase-commit layer of \<^verbatim>\<open>src/paxos_node.cpp\<close>: starting the second phase,
  applying its outcome against the write-ahead log, the replies to the client and to the other
  cluster, and the retry loop with its timeout. None of these handlers tests whether the node is
  alive or is the leader, except where the definitions say so.
\<close>

section \<open>Replies\<close>

definition client_name :: string where "client_name = ''A''"

definition SendClientReplyTwoPC :: "commit_entry \<Rightarrow> int \<Rightarrow> bool \<Rightarrow> node \<Rightarrow> exn + node" where
  "SendClientReplyTwoPC entry seq_num success n =
     (let request = ce_m entry;
          reply = \<lparr>rp_ballot = Ballot (- 1) (b_node (current_ballot n)),
                   rp_timestamp = cr_timestamp request, rp_client_id = cr_from_account request,
                   rp_success = success, rp_from_this_term = (seq_num > max_seqnum_in_new_view n),
                   rp_read_only_balance = 0\<rparr>
      in
      if \<not> alive n then Inr n
      else if cr_client_id request = ''NO-OP'' then Inr n
      else call_client client_name reply
             (n\<lparr>last_reply_per_client := (last_reply_per_client n)(cr_from_account request \<mapsto> reply)\<rparr>))"

definition coord_reply_type :: "string \<Rightarrow> string" where
  "coord_reply_type two_pc_status =
     (if two_pc_status = ''A'' then ''ABORT''
      else if two_pc_status = ''P'' then ''PREPARED''
      else if two_pc_status = ''C'' then ''COMMITTED''
      else if two_pc_status = ''A_PART_COMMIT'' then ''A_PART_COMMIT''
      else [])"

definition SendReplyToCoordLeader ::
  "client_call option \<Rightarrow> client_request \<Rightarrow> int \<Rightarrow> string \<Rightarrow> node \<Rightarrow> exn + node" where
  "SendReplyToCoordLeader call_data fallback_request seq_num two_pc_status n =
     (let request = (case call_data of Some c \<Rightarrow> call_request c | None \<Rightarrow> fallback_request) in
      if \<not> alive n then Inr n
      else if cr_client_id request = ''NO-OP'' then Inr n
      else bindE (stoi (cr_from_account request)) (\<lambda>s.
        let reply = \<lparr>tm_type = coord_reply_type two_pc_status, tm_s = cr_from_account request,
                     tm_r = cr_to_account request, tm_amt = cr_amount request, tm_m = request\<rparr>;
            leader = cluster_leaders n (shard_map n s)
        in bindE (call_peer leader (CallTwoPC leader reply) n) (\<lambda>n1.
          Inr (case call_data of Some c \<Rightarrow> respond_client c n1 | None \<Rightarrow> n1))))"

section \<open>The second phase\<close>

definition set_in_flight ::
  "int \<Rightarrow> (in_flight \<Rightarrow> in_flight) \<Rightarrow> in_flight cvec \<Rightarrow> exn + in_flight cvec" where
  "set_in_flight ts upd v = bindE (vec_get v ts) (\<lambda>e. vec_set v ts (upd e))"

definition second_phase_status :: "bool \<Rightarrow> bool \<Rightarrow> string" where
  "second_phase_status is_abort participant =
     (if is_abort \<and> \<not> participant then ''A_COORD''
      else if \<not> is_abort \<and> \<not> participant then ''C_COORD''
      else if is_abort \<and> participant then ''A_PART_COMMIT''
      else ''C'')"

text \<open>The coordinator stops the PREPARE retries, tells the participant and remembers that it did.\<close>

definition forward_decision :: "int \<Rightarrow> twopc_msg \<Rightarrow> int \<Rightarrow> bool \<Rightarrow> node \<Rightarrow> exn + node" where
  "forward_decision now msg r is_abort n =
     (let ts = cr_timestamp (tm_m msg);
          twopc_request = msg\<lparr>tm_type := (if is_abort then ''ABORT'' else ''COMMIT'')\<rparr>;
          leader = cluster_leaders n (shard_map n r)
      in
      bindE (set_in_flight ts (\<lambda>e. e\<lparr>if_completed := True\<rparr>) (in_flight_prepares n)) (\<lambda>ps.
      bindE (set_in_flight ts (\<lambda>e. e\<lparr>if_last_send := now, if_msg := twopc_request\<rparr>)
               (in_flight_txns n)) (\<lambda>txs.
      call_peer leader (CallTwoPC leader twopc_request)
        (n\<lparr>in_flight_prepares := ps, in_flight_txns := txs\<rparr>))))"

definition old_accept_of :: "int \<Rightarrow> node \<Rightarrow> accepted_entry" where
  "old_accept_of ts n =
     (case map_of (accept_log n) (digest_to_seqnum n ts) of Some e \<Rightarrow> e | None \<Rightarrow> no_entry)"

definition second_phase_entry :: "twopc_msg \<Rightarrow> bool \<Rightarrow> bool \<Rightarrow> node \<Rightarrow> accepted_entry" where
  "second_phase_entry msg is_abort participant n =
     (let old_accept = old_accept_of (cr_timestamp (tm_m msg)) n in
      no_entry\<lparr>ae_request := tm_m msg, ae_ballot := ae_ballot old_accept, ae_node_id := node_id n,
        ae_m := tm_m msg, ae_seqnum := ae_seqnum old_accept,
        ae_two_pc_status := second_phase_status is_abort participant\<rparr>)"

text \<open>Log the entry, count the node's own acceptance, and send it to the cluster.\<close>

definition propose_second_phase :: "accepted_entry \<Rightarrow> node \<Rightarrow> node" where
  "propose_second_phase accept_msg n =
     (let n1 = log_put (ae_seqnum accept_msg) accept_msg n;
          n2 = n1\<lparr>accepted_count_two_pc_commit :=
                 count_insert (ae_seqnum accept_msg) (b_counter (ae_ballot accept_msg)) (node_id n)
                   (accepted_count_two_pc_commit n1)\<rparr>
      in broadcast_cluster (\<lambda>p. CallAccept p accept_msg) n2)"

definition StartSecondPhase :: "int \<Rightarrow> twopc_msg \<Rightarrow> node \<Rightarrow> exn + node" where
  "StartSecondPhase now msg n =
     bindE (stoi (cr_to_account (tm_m msg))) (\<lambda>r.
       let participant = (shard_map n r = cluster_id n);
           is_abort = (tm_type msg = ''ABORT'')
       in bindE (if \<not> participant then forward_decision now msg r is_abort n else Inr n) (\<lambda>n1.
          Inr (propose_second_phase (second_phase_entry msg is_abort participant n1) n1)))"

definition HandlePreparedAndAborted :: "int \<Rightarrow> twopc_msg \<Rightarrow> node \<Rightarrow> exn + node" where
  "HandlePreparedAndAborted now msg n =
     bindE (stoi (tm_s msg)) (\<lambda>s.
       let is_coord = (shard_map n s = cluster_id n);
           ts = cr_timestamp (tm_m msg)
       in if is_coord then
            (if digest_to_seqnum n ts \<in> executed_entries n then StartSecondPhase now msg n
             else Inr (n\<lparr>prepare_and_aborted_queue := (prepare_and_aborted_queue n)(ts \<mapsto> msg)\<rparr>))
          else StartSecondPhase now msg n)"

definition HandleCommittedAndAborted :: "twopc_msg \<Rightarrow> node \<Rightarrow> exn + node" where
  "HandleCommittedAndAborted msg n =
     bindE (set_in_flight (cr_timestamp (tm_m msg)) (\<lambda>e. e\<lparr>if_completed := True\<rparr>)
              (in_flight_txns n))
       (\<lambda>txs. Inr (n\<lparr>in_flight_txns := txs\<rparr>))"

text \<open>\<^verbatim>\<open>TwoPCCallData::Proceed\<close> routes a message by its type.\<close>

definition TwoPC_dispatch :: "int \<Rightarrow> twopc_msg \<Rightarrow> node \<Rightarrow> exn + node" where
  "TwoPC_dispatch now msg n =
     (if tm_type msg = ''PREPARED'' \<or> tm_type msg = ''ABORT'' \<or> tm_type msg = ''COMMIT''
      then HandlePreparedAndAborted now msg n
      else if tm_type msg = ''COMMITTED'' \<or> tm_type msg = ''A_PART_COMMIT''
      then HandleCommittedAndAborted msg n
      else Inr n)"

section \<open>Applying the outcome\<close>

text \<open>The outcome is written onto the log entry once.\<close>

definition record_outcome :: "int \<Rightarrow> string \<Rightarrow> node \<Rightarrow> node" where
  "record_outcome seq status n =
     (if is_phase2 status then
        (case map_of (accept_log n) seq of
           Some e \<Rightarrow> if ae_phase2_result e = [] then log_put seq (e\<lparr>ae_phase2_result := status\<rparr>) n
                     else n
         | None \<Rightarrow> n)
      else n)"

definition wal_erase :: "int \<Rightarrow> node \<Rightarrow> node" where
  "wal_erase seq n = n\<lparr>wal := omap_erase seq (wal n)\<rparr>"

text \<open>\<^verbatim>\<open>wal_[seqnum]\<close> of a missing key is a zero entry.\<close>

definition wal_at :: "int \<Rightarrow> node \<Rightarrow> wal_entry" where
  "wal_at seq n = (case map_of (wal n) seq of Some w \<Rightarrow> w | None \<Rightarrow> WalEntry 0 0)"

definition resolve_two_pc :: "string \<Rightarrow> int \<Rightarrow> int \<Rightarrow> int \<Rightarrow> node \<Rightarrow> exn + node" where
  "resolve_two_pc status seq from to n =
     (if status = ''A_COORD'' then
        bindE (set_account from (before_value (wal_at seq n)) (wal_erase seq n)) (unlock from)
      else if status = ''C_COORD'' then
        bindE (unlock from n) (\<lambda>n1. Inr (wal_erase seq n1))
      else if status = ''C'' then
        bindE (unlock to n) (\<lambda>n1. Inr (wal_erase seq n1))
      else if status = ''A_PART_COMMIT'' then
        bindE (case map_of (wal n) seq of
                 Some w \<Rightarrow> set_account to (before_value w) (wal_erase seq n)
               | None \<Rightarrow> Inr n) (unlock to)
      else Inr n)"

definition reply_two_pc :: "commit_entry \<Rightarrow> node \<Rightarrow> exn + node" where
  "reply_two_pc entry n =
     (if role n = LEADER then
        (if ce_two_pc_status entry = ''C_COORD'' then SendClientReplyTwoPC entry (ce_seqnum entry) True n
         else if ce_two_pc_status entry = ''C'' then
           SendReplyToCoordLeader None (ce_m entry) (ce_seqnum entry) ''C'' n
         else if ce_two_pc_status entry = ''A_COORD'' then
           SendClientReplyTwoPC entry (ce_seqnum entry) False n
         else if ce_two_pc_status entry = ''A_PART_COMMIT'' then
           SendReplyToCoordLeader None (ce_m entry) (ce_seqnum entry) ''A_PART_COMMIT'' n
         else Inr n)
      else Inr n)"

definition ExecuteRepeatedTwoPCEntry :: "commit_entry \<Rightarrow> node \<Rightarrow> exn + node" where
  "ExecuteRepeatedTwoPCEntry entry n =
     (let status = ce_two_pc_status entry; seq = ce_seqnum entry in
      bindE (stoi (cr_from_account (ce_m entry))) (\<lambda>from.
      bindE (stoi (cr_to_account (ce_m entry))) (\<lambda>to.
      bindE (resolve_two_pc status seq from to (record_outcome seq status n)) (\<lambda>n1.
      reply_two_pc entry n1))))"

section \<open>The retry loop\<close>

definition HandlePreparedTimeout :: "int \<Rightarrow> node \<Rightarrow> exn + node" where
  "HandlePreparedTimeout timestamp n =
     bindE (vec_get (in_flight_prepares n) timestamp) (\<lambda>slot.
       let seq_for_ts = digest_to_seqnum n timestamp;
           acc_entry = (old_accept_of timestamp n)
             \<lparr>ae_m := tm_m (if_msg slot), ae_two_pc_status := ''A_COORD'', ae_seqnum := seq_for_ts\<rparr>
       in Inr (propose_second_phase acc_entry n))"

definition prepare_timeout :: int where "prepare_timeout = 1000"

definition slot_due :: "int \<Rightarrow> in_flight \<Rightarrow> bool" where
  "slot_due now e \<longleftrightarrow>
     if_sent e \<and> if_last_send e \<noteq> 0 \<and> \<not> if_completed e \<and> now - if_last_send e \<ge> prepare_timeout"

text \<open>One turn of the loop over the PREPARE slots, for the slot \<open>i\<close>.\<close>

definition retry_slot :: "int \<Rightarrow> int \<Rightarrow> node \<Rightarrow> exn + node" where
  "retry_slot now i n =
     bindE (vec_get (in_flight_prepares n) i) (\<lambda>e.
       if slot_due now e then
         (if if_retries e = 0 then
            bindE (vec_set (in_flight_prepares n) i (e\<lparr>if_retries := 1, if_last_send := now\<rparr>)) (\<lambda>v.
            bindE (stoi (cr_to_account (tm_m (if_msg e)))) (\<lambda>r.
              let leader = cluster_leaders n (shard_map n r) in
              call_peer leader (CallClientRequest leader (tm_m (if_msg e)))
                (n\<lparr>in_flight_prepares := v\<rparr>)))
          else
            bindE (vec_set (in_flight_prepares n) i (e\<lparr>if_completed := True\<rparr>)) (\<lambda>v.
              HandlePreparedTimeout (cr_timestamp (tm_m (if_msg e))) (n\<lparr>in_flight_prepares := v\<rparr>)))
       else Inr n)"

definition TransactionRetryLoop_pass :: "int \<Rightarrow> node \<Rightarrow> exn + node" where
  "TransactionRetryLoop_pass now n =
     foldE (retry_slot now) [0..vsize (in_flight_prepares n) - 1] n"

section \<open>Behaviour\<close>

lemma record_outcome_frame:
  "record_outcome seq status n = n\<lparr>accept_log := accept_log (record_outcome seq status n)\<rparr>"
  by (simp add: record_outcome_def log_put_def split: option.split)

lemma record_outcome_sel [simp]:
  "accounts (record_outcome seq status n) = accounts n"
  "balance_locks (record_outcome seq status n) = balance_locks n"
  "wal (record_outcome seq status n) = wal n" "role (record_outcome seq status n) = role n"
  "alive (record_outcome seq status n) = alive n" "outbox (record_outcome seq status n) = outbox n"
  by (subst record_outcome_frame; simp)+

lemma resolve_two_pc_frame: "resolve_two_pc status seq from to n = Inr m \<Longrightarrow> exec_frame n m"
  by (auto simp: resolve_two_pc_def set_account_def unlock_def wal_erase_def exn_simps
      exec_frame_def split: if_splits option.splits)

lemma reply_two_pc_frame:
  assumes "reply_two_pc entry n = Inr m"
  shows "m = n\<lparr>last_reply_per_client := last_reply_per_client m, outbox := outbox m\<rparr>"
  using assms
  by (auto simp: reply_two_pc_def SendClientReplyTwoPC_def SendReplyToCoordLeader_def
      call_client_def call_peer_def emit_def exn_simps Let_def split: if_splits)

lemma ExecuteRepeatedTwoPCEntry_cases:
  assumes "ExecuteRepeatedTwoPCEntry entry n = Inr m"
  obtains "from" "to" n1 where "stoi (cr_from_account (ce_m entry)) = Inr from"
    "stoi (cr_to_account (ce_m entry)) = Inr to"
    "resolve_two_pc (ce_two_pc_status entry) (ce_seqnum entry) from to
       (record_outcome (ce_seqnum entry) (ce_two_pc_status entry) n) = Inr n1"
    "reply_two_pc entry n1 = Inr m"
  using assms by (auto simp: ExecuteRepeatedTwoPCEntry_def Let_def elim!: bindE_InrE)

text \<open>Fields an outcome cannot change.\<close>

definition outcome_frame :: "node \<Rightarrow> node \<Rightarrow> bool" where
  "outcome_frame n m \<longleftrightarrow>
     m = n\<lparr>accept_log := accept_log m, accounts := accounts m, balance_locks := balance_locks m,
           wal := wal m, modified_accounts := modified_accounts m,
           executed_entries := executed_entries m,
           last_reply_per_client := last_reply_per_client m, outbox := outbox m\<rparr>"

lemma outcome_frame_refl [simp]: "outcome_frame n n"
  by (simp add: outcome_frame_def)

lemma outcome_frame_trans: "outcome_frame a b \<Longrightarrow> outcome_frame b c \<Longrightarrow> outcome_frame a c"
  unfolding outcome_frame_def by (elim ssubst [where t = c] ssubst [where t = b]) simp

lemma exec_outcome_frame: "exec_frame n m \<Longrightarrow> outcome_frame n m"
  unfolding exec_frame_def outcome_frame_def by (elim ssubst [where t = m]) simp

lemma ExecuteRepeatedTwoPCEntry_frame:
  assumes "ExecuteRepeatedTwoPCEntry entry n = Inr m"
  shows "outcome_frame n m"
  using assms
proof (cases rule: ExecuteRepeatedTwoPCEntry_cases)
  case (1 a b n1)
  have "outcome_frame n (record_outcome (ce_seqnum entry) (ce_two_pc_status entry) n)"
    by (subst record_outcome_frame) (simp add: outcome_frame_def)
  moreover have "outcome_frame (record_outcome (ce_seqnum entry) (ce_two_pc_status entry) n) n1"
    using 1(3) by (intro exec_outcome_frame resolve_two_pc_frame)
  moreover have "outcome_frame n1 m"
    using reply_two_pc_frame [OF 1(4)] unfolding outcome_frame_def
    by (elim ssubst [where t = m]) simp
  ultimately show ?thesis by (blast intro: outcome_frame_trans)
qed

lemma reply_two_pc_sel:
  assumes "reply_two_pc entry n = Inr m"
  shows "accounts m = accounts n" "balance_locks m = balance_locks n" "wal m = wal n"
    "accept_log m = accept_log n" "executed_entries m = executed_entries n"
  by (subst reply_two_pc_frame [OF assms], simp)+

text \<open>The four outcomes.\<close>

lemma resolve_abort_coord:
  "resolve_two_pc ''A_COORD'' seq from to n = Inr m \<longleftrightarrow>
     in_vec from (accounts n) \<and> in_vec from (balance_locks n) \<and>
     m = n\<lparr>wal := omap_erase seq (wal n),
           accounts := CVec (vsize (accounts n))
             ((vat (accounts n))(from := before_value (wal_at seq n))),
           balance_locks := CVec (vsize (balance_locks n)) ((vat (balance_locks n))(from := False))\<rparr>"
  by (auto simp: resolve_two_pc_def set_account_def unlock_def wal_erase_def exn_simps)

lemma resolve_commit_coord:
  "resolve_two_pc ''C_COORD'' seq from to n = Inr m \<longleftrightarrow>
     in_vec from (balance_locks n) \<and>
     m = n\<lparr>wal := omap_erase seq (wal n),
           balance_locks := CVec (vsize (balance_locks n)) ((vat (balance_locks n))(from := False))\<rparr>"
  by (auto simp: resolve_two_pc_def unlock_def wal_erase_def exn_simps)

lemma resolve_commit_part:
  "resolve_two_pc ''C'' seq from to n = Inr m \<longleftrightarrow>
     in_vec to (balance_locks n) \<and>
     m = n\<lparr>wal := omap_erase seq (wal n),
           balance_locks := CVec (vsize (balance_locks n)) ((vat (balance_locks n))(to := False))\<rparr>"
  by (auto simp: resolve_two_pc_def unlock_def wal_erase_def exn_simps)

lemma resolve_abort_part_some:
  "map_of (wal n) seq = Some w \<Longrightarrow>
   resolve_two_pc ''A_PART_COMMIT'' seq from to n = Inr m \<longleftrightarrow>
     in_vec to (accounts n) \<and> in_vec to (balance_locks n) \<and>
     m = n\<lparr>wal := omap_erase seq (wal n),
           accounts := CVec (vsize (accounts n)) ((vat (accounts n))(to := before_value w)),
           balance_locks := CVec (vsize (balance_locks n)) ((vat (balance_locks n))(to := False))\<rparr>"
  by (auto simp: resolve_two_pc_def set_account_def unlock_def wal_erase_def exn_simps)

lemma resolve_abort_part_none:
  "map_of (wal n) seq = None \<Longrightarrow>
   resolve_two_pc ''A_PART_COMMIT'' seq from to n = Inr m \<longleftrightarrow>
     in_vec to (balance_locks n) \<and>
     m = n\<lparr>balance_locks := CVec (vsize (balance_locks n)) ((vat (balance_locks n))(to := False))\<rparr>"
  by (auto simp: resolve_two_pc_def unlock_def exn_simps)

lemmas resolve_outcomes =
  resolve_abort_coord resolve_commit_coord resolve_commit_part
  resolve_abort_part_some resolve_abort_part_none

lemma resolve_other:
  "\<not> is_phase2 status \<Longrightarrow> resolve_two_pc status seq from to n = Inr n"
  by (auto simp: resolve_two_pc_def is_phase2_def)

text \<open>An outcome for another sequence number and other accounts leaves a saved entry alone.\<close>

lemma resolve_wal_other:
  "resolve_two_pc status seq from to n = Inr m \<Longrightarrow> sq \<noteq> seq \<Longrightarrow>
   map_of (wal m) sq = map_of (wal n) sq"
  by (auto simp: resolve_two_pc_def set_account_def unlock_def wal_erase_def exn_simps
      split: if_splits option.splits)

end
