(* ===== verification/Atomicity.thy ===== *)
theory Atomicity
  imports TwoPhase
begin

text \<open>
  What the write-ahead log guarantees. The contract of an undo log is the locale \<open>undo_log\<close>:
  phase 1 saves the old value of one account, unrelated work leaves the saved value and the account
  alone, an abort puts the saved value back, a commit keeps the table. It is interpreted on the
  coordinator's and on the participant's side of the code's model; the properties state atomicity of
  a cross-shard transfer, and the cases in which it is lost.
\<close>

section \<open>The contract\<close>

locale undo_log =
  fixes view :: "'s \<Rightarrow> int \<Rightarrow> int"
    and saved :: "'s \<Rightarrow> int \<Rightarrow> int option"
    and phase1 undo keep other :: "int \<Rightarrow> int \<Rightarrow> 's \<Rightarrow> 's \<Rightarrow> bool"
  assumes phase1_saves: "phase1 seq a s t \<Longrightarrow> saved t seq = Some (view s a)"
    and other_keeps: "other seq a s t \<Longrightarrow> saved t seq = saved s seq \<and> view t a = view s a"
    and undo_restores: "undo seq a s t \<Longrightarrow> saved s seq = Some x \<Longrightarrow> view t = (view s)(a := x)"
    and keep_keeps: "keep seq a s t \<Longrightarrow> view t = view s"
begin

lemma others_keep:
  "rtranclp (other seq a) s t \<Longrightarrow> saved t seq = saved s seq \<and> view t a = view s a"
  by (induction rule: rtranclp_induct) (auto dest: other_keeps)

lemma undone:
  assumes "phase1 seq a s t" "rtranclp (other seq a) t u" "undo seq a u v"
  shows "view v a = view s a" and "i \<noteq> a \<Longrightarrow> view v i = view u i"
proof -
  have "saved u seq = Some (view s a)"
    using phase1_saves [OF assms(1)] others_keep [OF assms(2)] by simp
  from undo_restores [OF assms(3) this]
  show "view v a = view s a" and "i \<noteq> a \<Longrightarrow> view v i = view u i" by simp_all
qed

lemma kept:
  assumes "phase1 seq a s t" "rtranclp (other seq a) t u" "keep seq a u v"
  shows "view v a = view t a" and "i \<noteq> a \<Longrightarrow> view v i = view u i"
  using others_keep [OF assms(2)] keep_keeps [OF assms(3)] by simp_all

end

section \<open>The two sides\<close>

definition saved_before :: "node \<Rightarrow> int \<Rightarrow> int option" where
  "saved_before n seq = map_option before_value (map_of (wal n) seq)"

definition cross_shard_request :: "client_request \<Rightarrow> int \<Rightarrow> int \<Rightarrow> node \<Rightarrow> bool" where
  "cross_shard_request req s r n \<longleftrightarrow>
     cr_client_id req \<noteq> ''NO-OP'' \<and> stoi (cr_from_account req) = Inr s \<and>
     stoi (cr_to_account req) = Inr r \<and> shard_map n r \<noteq> shard_map n s"

definition coord_prepares :: "int \<Rightarrow> int \<Rightarrow> node \<Rightarrow> node \<Rightarrow> bool" where
  "coord_prepares seq a n m \<longleftrightarrow>
     (\<exists>req r. cross_shard_request req a r n \<and> ExecuteTransaction req seq ''COORD'' n = Inr (True, m))"

definition part_prepares :: "int \<Rightarrow> int \<Rightarrow> node \<Rightarrow> node \<Rightarrow> bool" where
  "part_prepares seq a n m \<longleftrightarrow>
     (\<exists>req s. cross_shard_request req s a n \<and> ExecuteTransaction req seq ''P'' n = Inr (True, m))"

definition coord_outcome :: "string \<Rightarrow> int \<Rightarrow> int \<Rightarrow> node \<Rightarrow> node \<Rightarrow> bool" where
  "coord_outcome status seq a n m \<longleftrightarrow>
     (\<exists>e. ce_two_pc_status e = status \<and> ce_seqnum e = seq \<and>
          stoi (cr_from_account (ce_m e)) = Inr a \<and> ExecuteRepeatedTwoPCEntry e n = Inr m)"

definition part_outcome :: "string \<Rightarrow> int \<Rightarrow> int \<Rightarrow> node \<Rightarrow> node \<Rightarrow> bool" where
  "part_outcome status seq a n m \<longleftrightarrow>
     (\<exists>e. ce_two_pc_status e = status \<and> ce_seqnum e = seq \<and>
          stoi (cr_to_account (ce_m e)) = Inr a \<and> ExecuteRepeatedTwoPCEntry e n = Inr m)"

text \<open>Other work of the replica: entries and outcomes of other sequence numbers that do not
  name the account.\<close>

definition unrelated :: "int \<Rightarrow> int \<Rightarrow> node \<Rightarrow> node \<Rightarrow> bool" where
  "unrelated seq a n m \<longleftrightarrow>
     (\<exists>req sq status b. sq \<noteq> seq \<and> stoi (cr_from_account req) \<noteq> Inr a \<and>
        stoi (cr_to_account req) \<noteq> Inr a \<and> ExecuteTransaction req sq status n = Inr (b, m)) \<or>
     (\<exists>e. ce_seqnum e \<noteq> seq \<and> stoi (cr_from_account (ce_m e)) \<noteq> Inr a \<and>
        stoi (cr_to_account (ce_m e)) \<noteq> Inr a \<and> ExecuteRepeatedTwoPCEntry e n = Inr m)"

lemma ExecuteTransaction_unrelated:
  assumes "ExecuteTransaction req sq status n = Inr (b, m)" "sq \<noteq> seq"
    and "stoi (cr_from_account req) \<noteq> Inr a" "stoi (cr_to_account req) \<noteq> Inr a"
  shows "map_of (wal m) seq = map_of (wal n) seq \<and> balance m a = balance n a"
  using assms(1)
  by (cases rule: ExecuteTransaction_cases)
    (use assms(2-4) in \<open>auto simp: mark_executed_def transferred_def prepared_def\<close>)

lemma resolve_balance_other:
  "resolve_two_pc status seq from to n = Inr m \<Longrightarrow> from \<noteq> a \<Longrightarrow> to \<noteq> a \<Longrightarrow>
   balance m a = balance n a"
  by (auto simp: resolve_two_pc_def set_account_def unlock_def wal_erase_def exn_simps
      split: if_splits option.splits)

lemma unrelated_keeps:
  assumes "unrelated seq a n m"
  shows "saved_before m seq = saved_before n seq \<and> balance m a = balance n a"
  using assms unfolding unrelated_def
proof (elim disjE exE conjE)
  fix req sq status b
  assume "sq \<noteq> seq" "stoi (cr_from_account req) \<noteq> Inr a" "stoi (cr_to_account req) \<noteq> Inr a"
    "ExecuteTransaction req sq status n = Inr (b, m)"
  then show ?thesis
    using ExecuteTransaction_unrelated by (auto simp: saved_before_def)
next
  fix e
  assume e: "ce_seqnum e \<noteq> seq" "stoi (cr_from_account (ce_m e)) \<noteq> Inr a"
    "stoi (cr_to_account (ce_m e)) \<noteq> Inr a" "ExecuteRepeatedTwoPCEntry e n = Inr m"
  from e(4) show ?thesis
  proof (cases rule: ExecuteRepeatedTwoPCEntry_cases)
    case (1 s r n1)
    then show ?thesis
      using e(1-3) resolve_wal_other [OF 1(3)] resolve_balance_other [OF 1(3)]
        reply_two_pc_sel [OF 1(4)]
      by (auto simp: saved_before_def)
  qed
qed

lemma coord_outcome_abort:
  assumes "coord_outcome ''A_COORD'' seq a n m" "saved_before n seq = Some x"
  shows "vat (accounts m) = (vat (accounts n))(a := x)"
proof -
  obtain e where e: "ce_two_pc_status e = ''A_COORD''" "ce_seqnum e = seq"
      "stoi (cr_from_account (ce_m e)) = Inr a" "ExecuteRepeatedTwoPCEntry e n = Inr m"
    using assms(1) by (auto simp: coord_outcome_def)
  from e(4) show ?thesis
    by (cases rule: ExecuteRepeatedTwoPCEntry_cases)
      (use e(1-3) assms(2) in \<open>auto simp: resolve_abort_coord reply_two_pc_sel wal_at_def
        saved_before_def\<close>)
qed

lemma part_outcome_abort:
  assumes "part_outcome ''A_PART_COMMIT'' seq a n m" "saved_before n seq = Some x"
  shows "vat (accounts m) = (vat (accounts n))(a := x)"
proof -
  obtain e where e: "ce_two_pc_status e = ''A_PART_COMMIT''" "ce_seqnum e = seq"
      "stoi (cr_to_account (ce_m e)) = Inr a" "ExecuteRepeatedTwoPCEntry e n = Inr m"
    using assms(1) by (auto simp: part_outcome_def)
  from e(4) show ?thesis
    by (cases rule: ExecuteRepeatedTwoPCEntry_cases)
      (use e(1-3) assms(2) in \<open>auto simp: resolve_abort_part_some reply_two_pc_sel
        saved_before_def\<close>)
qed

lemma outcome_commit:
  assumes "ExecuteRepeatedTwoPCEntry e n = Inr m"
    and "ce_two_pc_status e = ''C_COORD'' \<or> ce_two_pc_status e = ''C''"
  shows "accounts m = accounts n"
  using assms(1)
  by (cases rule: ExecuteRepeatedTwoPCEntry_cases)
    (use assms(2) in \<open>auto simp: resolve_commit_coord resolve_commit_part reply_two_pc_sel\<close>)

interpretation coordl: undo_log "\<lambda>n. vat (accounts n)" saved_before coord_prepares
  "coord_outcome ''A_COORD''" "coord_outcome ''C_COORD''" unrelated
proof unfold_locales
  fix seq a n m
  assume "coord_prepares seq a n m"
  then obtain req r where "cross_shard_request req a r n"
      and "ExecuteTransaction req seq ''COORD'' n = Inr (True, m)"
    by (auto simp: coord_prepares_def)
  from this(2) show "saved_before m seq = Some (balance n a)"
    by (cases rule: ExecuteTransaction_cases)
      (use \<open>cross_shard_request req a r n\<close> in
        \<open>auto simp: cross_shard_request_def prepared_def saved_before_def\<close>)
next
  fix seq a n m assume "coord_outcome ''C_COORD'' seq a n m"
  then show "vat (accounts m) = vat (accounts n)"
    by (auto simp: coord_outcome_def outcome_commit)
qed (simp_all add: unrelated_keeps coord_outcome_abort)

interpretation partl: undo_log "\<lambda>n. vat (accounts n)" saved_before part_prepares
  "part_outcome ''A_PART_COMMIT''" "part_outcome ''C''" unrelated
proof unfold_locales
  fix seq a n m
  assume "part_prepares seq a n m"
  then obtain req s where "cross_shard_request req s a n"
      and "ExecuteTransaction req seq ''P'' n = Inr (True, m)"
    by (auto simp: part_prepares_def)
  from this(2) show "saved_before m seq = Some (balance n a)"
    by (cases rule: ExecuteTransaction_cases)
      (use \<open>cross_shard_request req s a n\<close> in
        \<open>auto simp: cross_shard_request_def prepared_def saved_before_def\<close>)
next
  fix seq a n m assume "part_outcome ''C'' seq a n m"
  then show "vat (accounts m) = vat (accounts n)"
    by (auto simp: part_outcome_def outcome_commit)
qed (simp_all add: unrelated_keeps part_outcome_abort)

section \<open>Atomicity of a cross-shard transfer\<close>

lemma coord_prepared_balance:
  assumes "cross_shard_request req s r n" "ExecuteTransaction req seq ''COORD'' n = Inr (True, m)"
  shows "coord_prepares seq s n m" and "balance m s = balance n s - cr_amount req"
proof -
  show "coord_prepares seq s n m" using assms by (auto simp: coord_prepares_def)
  from assms(2) show "balance m s = balance n s - cr_amount req"
    by (cases rule: ExecuteTransaction_cases)
      (use assms(1) in \<open>auto simp: cross_shard_request_def prepared_def\<close>)
qed

lemma part_prepared_balance:
  assumes "cross_shard_request req s r n" "ExecuteTransaction req seq ''P'' n = Inr (True, m)"
  shows "part_prepares seq r n m" and "balance m r = balance n r + cr_amount req"
proof -
  show "part_prepares seq r n m" using assms by (auto simp: part_prepares_def)
  from assms(2) show "balance m r = balance n r + cr_amount req"
    by (cases rule: ExecuteTransaction_cases)
      (use assms(1) in \<open>auto simp: cross_shard_request_def prepared_def\<close>)
qed

text \<open>
  C1: a cross-shard transfer whose two first phases both took effect is all or nothing. Let a replica
  \<open>c\<close> of the sender's cluster execute the phase 1 of the coordinator and a replica \<open>p\<close> of the
  receiver's cluster that of the participant, both with success, which each of them has only when the
  balance it holds for the sender covers the amount; let both do unrelated work, and then
  apply the same decision. On commit the sender lost and the receiver gained exactly the amount; on abort
  both have their old balances; in both cases every other account is as the unrelated work left it and
  the two balances keep their sum. When the first phase of the coordinator was refused this fails:
  \<open>overdraft_creates_money\<close>.
\<close>

theorem cross_shard_all_or_nothing:
  assumes "cross_shard_request req s r c" and "cross_shard_request req s r p"
    and "ExecuteTransaction req seqc ''COORD'' c = Inr (True, c1)"
    and "ExecuteTransaction req seqp ''P'' p = Inr (True, p1)"
    and "rtranclp (unrelated seqc s) c1 c2" and "rtranclp (unrelated seqp r) p1 p2"
    and "if committed then coord_outcome ''C_COORD'' seqc s c2 c3 \<and> part_outcome ''C'' seqp r p2 p3
         else coord_outcome ''A_COORD'' seqc s c2 c3 \<and> part_outcome ''A_PART_COMMIT'' seqp r p2 p3"
  shows "balance c3 s = balance c s - (if committed then cr_amount req else 0) \<and>
         balance p3 r = balance p r + (if committed then cr_amount req else 0) \<and>
         balance c3 s + balance p3 r = balance c s + balance p r \<and>
         (\<forall>i. i \<noteq> s \<longrightarrow> balance c3 i = balance c2 i) \<and>
         (\<forall>i. i \<noteq> r \<longrightarrow> balance p3 i = balance p2 i)"
proof (cases committed)
  case True
  with assms(7) coordl.kept [OF coord_prepared_balance(1) [OF assms(1,3)] assms(5)]
    partl.kept [OF part_prepared_balance(1) [OF assms(2,4)] assms(6)]
  show ?thesis
    using coord_prepared_balance(2) [OF assms(1,3)] part_prepared_balance(2) [OF assms(2,4)]
    by auto
next
  case False
  with assms(7) coordl.undone [OF coord_prepared_balance(1) [OF assms(1,3)] assms(5)]
    partl.undone [OF part_prepared_balance(1) [OF assms(2,4)] assms(6)]
  show ?thesis by auto
qed

text \<open>A concrete run: 4 units from item 1 (cluster 1) to item 3001 (cluster 2).\<close>

definition demo_outcome :: "string \<Rightarrow> int \<Rightarrow> commit_entry" where
  "demo_outcome status seq =
     no_commit\<lparr>ce_seqnum := seq, ce_two_pc_status := status,
       ce_m := demo_request ''1'' ''3001'' 4 7\<rparr>"

definition demo_prepared :: "int \<Rightarrow> string \<Rightarrow> node" where
  "demo_prepared i status =
     (case ExecuteTransaction (demo_request ''1'' ''3001'' 4 7) 1 status (demo_node i) of
        Inr (b, m) \<Rightarrow> m | Inl e \<Rightarrow> demo_node i)"

definition demo_resolved :: "int \<Rightarrow> string \<Rightarrow> string \<Rightarrow> node" where
  "demo_resolved i status outcome =
     (case ExecuteRepeatedTwoPCEntry (demo_outcome outcome 1) (demo_prepared i status) of
        Inr m \<Rightarrow> m | Inl e \<Rightarrow> demo_node i)"

lemma demo_cross: "cross_shard_request (demo_request ''1'' ''3001'' 4 7) 1 3001 (demo_node i)"
  by (simp add: cross_shard_request_def)

lemma demo_exec:
  "ExecuteTransaction (demo_request ''1'' ''3001'' 4 7) 1 ''COORD'' (demo_node i) =
     Inr (True, demo_prepared i ''COORD'')"
  "ExecuteTransaction (demo_request ''1'' ''3001'' 4 7) 1 ''P'' (demo_node i) =
     Inr (True, demo_prepared i ''P'')"
  by (simp_all add: demo_prepared_def exec_coord [of _ 1 3001] exec_participant [of _ 1 3001]
      valid_accounts_def)

lemma demo_resolve:
  assumes "(status, outcome) \<in> {(''COORD'', ''C_COORD''), (''COORD'', ''A_COORD''),
     (''P'', ''C''), (''P'', ''A_PART_COMMIT'')}"
  shows "ExecuteRepeatedTwoPCEntry (demo_outcome outcome 1) (demo_prepared i status) =
    Inr (demo_resolved i status outcome)"
  using assms
  by (auto simp: demo_resolved_def demo_prepared_def demo_outcome_def no_commit_def
      exec_coord [of _ 1 3001] exec_participant [of _ 1 3001] valid_accounts_def
      ExecuteRepeatedTwoPCEntry_def record_outcome_def prepared_def resolve_two_pc_def
      set_account_def unlock_def wal_erase_def reply_two_pc_def)

lemma demo_outcome_sel [simp]:
  "ce_two_pc_status (demo_outcome st seq) = st" "ce_seqnum (demo_outcome st seq) = seq"
  "ce_m (demo_outcome st seq) = demo_request ''1'' ''3001'' 4 7"
  by (simp_all add: demo_outcome_def no_commit_def)

lemma coord_outcomeI:
  "ExecuteRepeatedTwoPCEntry e n = Inr m \<Longrightarrow> ce_two_pc_status e = st \<Longrightarrow> ce_seqnum e = seq \<Longrightarrow>
   stoi (cr_from_account (ce_m e)) = Inr a \<Longrightarrow> coord_outcome st seq a n m"
  unfolding coord_outcome_def by blast

lemma part_outcomeI:
  "ExecuteRepeatedTwoPCEntry e n = Inr m \<Longrightarrow> ce_two_pc_status e = st \<Longrightarrow> ce_seqnum e = seq \<Longrightarrow>
   stoi (cr_to_account (ce_m e)) = Inr a \<Longrightarrow> part_outcome st seq a n m"
  unfolding part_outcome_def by blast

theorem cross_shard_all_or_nothing_witness:
  "balance (demo_resolved 1 ''COORD'' ''C_COORD'') 1 = 6 \<and>
   balance (demo_resolved 4 ''P'' ''C'') 3001 = 14 \<and>
   balance (demo_resolved 1 ''COORD'' ''A_COORD'') 1 = 10 \<and>
   balance (demo_resolved 4 ''P'' ''A_PART_COMMIT'') 3001 = 10"
proof -
  have out: "coord_outcome ''C_COORD'' 1 1 (demo_prepared 1 ''COORD'') (demo_resolved 1 ''COORD'' ''C_COORD'')"
    "coord_outcome ''A_COORD'' 1 1 (demo_prepared 1 ''COORD'') (demo_resolved 1 ''COORD'' ''A_COORD'')"
    "part_outcome ''C'' 1 3001 (demo_prepared 4 ''P'') (demo_resolved 4 ''P'' ''C'')"
    "part_outcome ''A_PART_COMMIT'' 1 3001 (demo_prepared 4 ''P'') (demo_resolved 4 ''P'' ''A_PART_COMMIT'')"
    by (rule coord_outcomeI part_outcomeI, rule demo_resolve, simp_all)+
  note run = cross_shard_all_or_nothing [where c = "demo_node 1" and p = "demo_node 4"
      and req = "demo_request ''1'' ''3001'' 4 7" and s = 1 and r = 3001 and seqc = 1 and seqp = 1,
      OF demo_cross demo_cross demo_exec(1) demo_exec(2)
        rtranclp.rtrancl_refl rtranclp.rtrancl_refl]
  have "balance (demo_resolved 1 ''COORD'' ''C_COORD'') 1 = 6"
    "balance (demo_resolved 4 ''P'' ''C'') 3001 = 14"
    using run [where committed = True] out(1,3) by fastforce+
  moreover have "balance (demo_resolved 1 ''COORD'' ''A_COORD'') 1 = 10"
    "balance (demo_resolved 4 ''P'' ''A_PART_COMMIT'') 3001 = 10"
    using run [where committed = False] out(2,4) by fastforce+
  ultimately show ?thesis by blast
qed

section \<open>Where atomicity is lost\<close>

lemma resolve_removes_wal:
  "resolve_two_pc status seq from to n = Inr m \<Longrightarrow> is_phase2 status \<Longrightarrow> map_of (wal m) seq = None"
  by (auto simp: resolve_two_pc_def is_phase2_def set_account_def unlock_def wal_erase_def exn_simps
      split: if_splits option.splits)

lemma outcome_removes_wal:
  assumes "ExecuteRepeatedTwoPCEntry e n = Inr m" and "is_phase2 (ce_two_pc_status e)"
  shows "map_of (wal m) (ce_seqnum e) = None"
  using assms(1)
  by (cases rule: ExecuteRepeatedTwoPCEntry_cases)
    (use assms(2) in \<open>auto simp: reply_two_pc_sel dest: resolve_removes_wal\<close>)

lemma abort_coord_without_wal:
  assumes "ExecuteRepeatedTwoPCEntry e n = Inr m" and "ce_two_pc_status e = ''A_COORD''"
    and "map_of (wal n) (ce_seqnum e) = None" and "stoi (cr_from_account (ce_m e)) = Inr a"
  shows "balance m a = 0"
  using assms(1)
  by (cases rule: ExecuteRepeatedTwoPCEntry_cases)
    (use assms(2-4) in \<open>auto simp: reply_two_pc_sel resolve_abort_coord wal_at_def\<close>)

lemma abort_part_without_wal:
  assumes "ExecuteRepeatedTwoPCEntry e n = Inr m" and "ce_two_pc_status e = ''A_PART_COMMIT''"
    and "map_of (wal n) (ce_seqnum e) = None"
  shows "balance m = balance n"
  using assms(1)
  by (cases rule: ExecuteRepeatedTwoPCEntry_cases)
    (use assms(2,3) in \<open>auto simp: reply_two_pc_sel resolve_abort_part_none\<close>)

text \<open>
  C26: applying an abort twice is harmless at the participant and destroys the sender's balance at
  the coordinator. The second \<^verbatim>\<open>A_COORD\<close> finds no write-ahead entry, reads a zero one
  and sets the account to 0.
\<close>

theorem repeated_abort:
  assumes "coord_outcome ''A_COORD'' seqc a c c1" and "coord_outcome ''A_COORD'' seqc a c1 c2"
    and "part_outcome ''A_PART_COMMIT'' seqp b p p1" and "part_outcome ''A_PART_COMMIT'' seqp b p1 p2"
  shows "balance c2 a = 0 \<and> balance p2 = balance p1"
proof
  have "map_of (wal c1) seqc = None"
    using assms(1) outcome_removes_wal by (fastforce simp: coord_outcome_def)
  then show "balance c2 a = 0"
    using assms(2) abort_coord_without_wal by (fastforce simp: coord_outcome_def)
  have "map_of (wal p1) seqp = None"
    using assms(3) outcome_removes_wal by (fastforce simp: part_outcome_def)
  then show "balance p2 = balance p1"
    using assms(4) abort_part_without_wal by (fastforce simp: part_outcome_def)
qed

lemma demo_abort_again:
  "\<exists>m. ExecuteRepeatedTwoPCEntry (demo_outcome ''A_COORD'' 1) (demo_resolved 1 ''COORD'' ''A_COORD'') = Inr m"
  "\<exists>m. ExecuteRepeatedTwoPCEntry (demo_outcome ''A_PART_COMMIT'' 1) (demo_resolved 4 ''P'' ''A_PART_COMMIT'') = Inr m"
  by (simp_all add: demo_resolved_def demo_prepared_def
      exec_coord [of _ 1 3001] exec_participant [of _ 1 3001] valid_accounts_def
      ExecuteRepeatedTwoPCEntry_def record_outcome_def prepared_def resolve_two_pc_def
      set_account_def unlock_def wal_erase_def reply_two_pc_def)

theorem repeated_abort_witness:
  "\<exists>c2 p2. ExecuteRepeatedTwoPCEntry (demo_outcome ''A_COORD'' 1) (demo_resolved 1 ''COORD'' ''A_COORD'') = Inr c2 \<and>
     balance (demo_prepared 1 ''COORD'') 1 = 6 \<and> balance c2 1 = 0 \<and>
     ExecuteRepeatedTwoPCEntry (demo_outcome ''A_PART_COMMIT'' 1) (demo_resolved 4 ''P'' ''A_PART_COMMIT'') = Inr p2 \<and>
     balance p2 = balance (demo_resolved 4 ''P'' ''A_PART_COMMIT'')"
proof -
  obtain c2 p2 where
    c: "ExecuteRepeatedTwoPCEntry (demo_outcome ''A_COORD'' 1) (demo_resolved 1 ''COORD'' ''A_COORD'') = Inr c2"
    and p: "ExecuteRepeatedTwoPCEntry (demo_outcome ''A_PART_COMMIT'' 1) (demo_resolved 4 ''P'' ''A_PART_COMMIT'') = Inr p2"
    using demo_abort_again by blast
  have "balance c2 1 = 0 \<and> balance p2 = balance (demo_resolved 4 ''P'' ''A_PART_COMMIT'')"
    by (rule repeated_abort [of 1 1 "demo_prepared 1 ''COORD''" _ _ 1 3001 "demo_prepared 4 ''P''"];
      rule coord_outcomeI part_outcomeI, rule demo_resolve c p; simp)
  moreover have "balance (demo_prepared 1 ''COORD'') 1 = 6"
    by (simp add: demo_prepared_def exec_coord [of _ 1 3001] valid_accounts_def prepared_def)
  ultimately show ?thesis using c p by blast
qed


definition demo_overdraft :: node where
  "demo_overdraft = (demo_node 1)\<lparr>role := LEADER, accounts := CVec 9001 ((\<lambda>_. 10)(1 := 3))\<rparr>"

lemma demo_overdraft_run:
  "\<exists>c1 c2. ExecuteTransaction (demo_request ''1'' ''3001'' 4 7) 1 ''COORD'' demo_overdraft = Inr (False, c1) \<and>
     ExecuteRepeatedTwoPCEntry (demo_outcome ''C_COORD'' 1) c1 = Inr c2"
  by (simp add: demo_overdraft_def exec_insufficient [of _ 1 3001] valid_accounts_def mark_executed_def
      ExecuteRepeatedTwoPCEntry_def record_outcome_def resolve_two_pc_def unlock_def wal_erase_def
      reply_two_pc_def SendClientReplyTwoPC_def call_client_def client_name_def Let_def)


end
