(* ===== verification/Election.thy ===== *)
theory Election
  imports TwoPhase
begin

text \<open>
  Leader election in \<^verbatim>\<open>src/paxos_node.cpp\<close>: the election timer, heartbeats, PREPARE and
  PROMISE, taking and losing leadership, and the control messages that kill, revive and reset a
  node. The timer thread is the turn of its loop (\<open>timer_turn\<close>); the random part of the timeout
  is an argument. \<^verbatim>\<open>newview_acks_\<close>, \<^verbatim>\<open>newview_quorum_reached_\<close> and
  \<^verbatim>\<open>executed_two_pc_\<close> are written but never read, so they are left out.
\<close>

section \<open>Printing the log\<close>

definition newline :: string where "newline = [CHR 0x0A]"

definition ballot_string_spaced :: "ballot \<Rightarrow> string" where
  "ballot_string_spaced b = ''('' @ to_string (b_counter b) @ '', '' @ to_string (b_node b) @ '')''"

definition accept_to_string :: "int \<times> accepted_entry \<Rightarrow> string" where
  "accept_to_string p =
     (let entry = snd p; req = ae_request entry in
      ''<ACCEPT, '' @ ballot_string_spaced (ae_ballot entry) @ '', '' @ to_string (fst p) @ '', ('' @
      cr_from_account req @ '', '' @ cr_to_account req @ '', '' @ to_string_real (cr_amount req) @
      '')>; '')"

definition AcceptLogToString :: "(int, accepted_entry) omap \<Rightarrow> string" where
  "AcceptLogToString m = ''{'' @ concat (map accept_to_string m) @ ''}''"

section \<open>Heartbeats and the timer\<close>

definition base_timeout :: int where "base_timeout = 1000"
definition jitter :: int where "jitter = 300"
definition prepare_cooldown :: int where "prepare_cooldown = 100"

definition StartHeartbeat :: "node \<Rightarrow> node" where
  "StartHeartbeat n = n\<lparr>heartbeat_running := True\<rparr>"

definition StopHeartbeat :: "node \<Rightarrow> node" where
  "StopHeartbeat n = n\<lparr>heartbeat_running := False\<rparr>"

text \<open>One turn of the heartbeat loop.\<close>

definition HeartbeatLoop_turn :: "node \<Rightarrow> node" where
  "HeartbeatLoop_turn n =
     (if heartbeat_running n \<and> alive n \<and> role n = LEADER then
        broadcast_cluster
          (\<lambda>p. CallHeartbeat p \<lparr>hb_ballot = current_ballot n, hb_node_id = node_id n\<rparr>) n
      else n)"

text \<open>The first node of a cluster that has never seen a ballot bootstraps the cluster.\<close>

definition bootstraps :: "node \<Rightarrow> bool" where
  "bootstraps n \<longleftrightarrow>
     is_initial_leader (divisor n) (b_node (current_ballot n)) \<and> b_counter (current_ballot n) = 0"

definition GetRandomizedTimeout :: "int \<Rightarrow> int" where
  "GetRandomizedTimeout draw = base_timeout + draw"

definition turn_timeout :: "int \<Rightarrow> node \<Rightarrow> int" where
  "turn_timeout draw n = (if bootstraps n then 70 else GetRandomizedTimeout draw)"

definition StartElectionTimer :: "node \<Rightarrow> node" where
  "StartElectionTimer n =
     (if role n \<noteq> BACKUP \<or> \<not> alive n then n
      else if timer_running n then n
      else n\<lparr>timer_running := True, election_reset := False\<rparr>)"

definition StopElectionTimer :: "node \<Rightarrow> node" where
  "StopElectionTimer n =
     (if timer_running n = False then n
      else n\<lparr>timer_running := False, election_reset := True\<rparr>)"

definition ResetElectionTimer :: "int \<Rightarrow> node \<Rightarrow> node" where
  "ResetElectionTimer now n =
     (let n1 = n\<lparr>last_leader_msg_received := now, election_reset := True\<rparr> in
      if timer_running n1 = False then StartElectionTimer n1 else n1)"

definition HandleHeartbeat :: "int \<Rightarrow> node \<Rightarrow> node" where
  "HandleHeartbeat now n =
     (if \<not> alive n \<or> role n \<noteq> BACKUP then n else ResetElectionTimer now n)"

section \<open>PREPARE and PROMISE, the acceptor's side\<close>

definition promise_reply :: "node \<Rightarrow> promise_response" where
  "promise_reply n =
     \<lparr>pr_ballot = highest_promised_ballot n, pr_node_id = node_id n, pr_promised = True,
      pr_accept_log = map snd (accept_log n)\<rparr>"

definition SendPromise :: "node \<Rightarrow> node" where
  "SendPromise n =
     (if \<not> alive n then n
      else case pending_promise_call n of
        None \<Rightarrow> n
      | Some c \<Rightarrow> (emit (RespondPrepare c (promise_reply n)) n)\<lparr>pending_promise_call := None\<rparr>)"

section \<open>Losing leadership\<close>

definition reset_in_flight :: "in_flight \<Rightarrow> in_flight" where
  "reset_in_flight e = e\<lparr>if_completed := False, if_sent := False, if_last_send := 0, if_msg := no_twopc\<rparr>"

definition reset_in_flights :: "node \<Rightarrow> node" where
  "reset_in_flights n =
     n\<lparr>in_flight_prepares := CVec (vsize (in_flight_prepares n))
         (\<lambda>i. reset_in_flight (vat (in_flight_prepares n) i)),
       in_flight_txns := vec_clear (in_flight_txns n)\<rparr>"

definition respond_pending_calls :: "node \<Rightarrow> node" where
  "respond_pending_calls n =
     (emits (map (\<lambda>c. RespondClientRequest (call_id (snd c))) (pending_client_calls n)) n)
       \<lparr>pending_client_calls := []\<rparr>"

text \<open>
  The loop over the write-ahead log that demotion and the end of an election share: a committed
  entry is dropped, an aborted one is undone by its difference, and an undecided one is treated
  as \<open>undecided\<close> says.
\<close>

definition wal_account :: "client_request \<Rightarrow> node \<Rightarrow> exn + int" where
  "wal_account req n =
     bindE (stoi (cr_from_account req)) (\<lambda>from.
       if cluster_id n = shard_map n from then Inr from else stoi (cr_to_account req))"

definition reconcile_wal_entry ::
  "(int \<Rightarrow> int \<Rightarrow> wal_entry \<Rightarrow> node \<Rightarrow> exn + node) \<Rightarrow> int \<times> wal_entry \<Rightarrow> node \<Rightarrow> exn + node" where
  "reconcile_wal_entry undecided sw n =
     (let seqnum = fst sw; w = snd sw; (entry, n1) = accept_log_at seqnum n;
          p2 = ae_phase2_result entry
      in
      if p2 = ''C_COORD'' \<or> p2 = ''C'' then Inr (wal_erase seqnum n1)
      else bindE (wal_account (ae_request entry) n1) (\<lambda>acct.
        if p2 = ''A_COORD'' \<or> p2 = ''A_PART_COMMIT'' then
          bindE (get_account acct n1) (\<lambda>x.
          bindE (set_account acct (x + (before_value w - after_value w)) n1) (\<lambda>n2.
          bindE (unlock acct n2) (\<lambda>n3. Inr (wal_erase seqnum n3))))
        else undecided seqnum acct w n1))"

definition keep_undecided :: "int \<Rightarrow> int \<Rightarrow> wal_entry \<Rightarrow> node \<Rightarrow> exn + node" where
  "keep_undecided seqnum acct w n = unlock acct n"

definition step_down :: "node \<Rightarrow> node" where
  "step_down n =
     reset_in_flights (respond_pending_calls
       ((StopHeartbeat n)\<lparr>role := BACKUP, leader_id := - 1, waiting_for_promises := False,
          accepted_count := (\<lambda>_ _. {}), entries_to_commit := [],
          pending_entries := Map.empty\<rparr>))"

definition DemoteToBackup :: "node \<Rightarrow> exn + node" where
  "DemoteToBackup n =
     (let n1 = step_down n in foldE (reconcile_wal_entry keep_undecided) (wal n1) n1)"

definition SetNewLeader :: "int \<Rightarrow> int \<Rightarrow> node \<Rightarrow> node" where
  "SetNewLeader new_leader_id new_leader_counter n =
     n\<lparr>leader_id := new_leader_id,
       cluster_leaders := (cluster_leaders n)(shard_map n (node_id n) := new_leader_id),
       current_ballot := Ballot new_leader_counter new_leader_id,
       highest_promised_ballot := Ballot new_leader_counter new_leader_id\<rparr>"

definition BecomeLeader :: "ballot \<Rightarrow> node \<Rightarrow> node" where
  "BecomeLeader b n =
     (let n1 = StopElectionTimer n in
      StartHeartbeat (n1\<lparr>role := LEADER, current_ballot := b, leader_id := node_id n\<rparr>))"

section \<open>Elections\<close>

definition HandlePrepare :: "int \<Rightarrow> prepare_request \<Rightarrow> nat \<Rightarrow> node \<Rightarrow> exn + node" where
  "HandlePrepare now request call n =
     (if \<not> alive n then Inr n
      else
        let n1 = plog (''<PREPARE, '' @ ballot_ToString (pq_ballot request) @ ''> '' @ newline) n;
            incoming = pq_ballot request;
            n2 = n1\<lparr>last_prepare_received := now\<rparr>;
            timer_expired = (now - last_leader_msg_received n2 \<ge> prepare_cooldown);
            should_demote = (role n2 = LEADER)
        in
        if ballot_gt incoming (highest_promised_ballot n2) then
          bindE (if should_demote then DemoteToBackup (n2\<lparr>in_election := True\<rparr>)
                 else Inr (n2\<lparr>in_election := True\<rparr>)) (\<lambda>n3.
            let n4 = n3\<lparr>highest_promised_ballot := incoming, pending_promise_call := Some call\<rparr>;
                n5 = (if timer_expired then SendPromise n4 else n4)
            in Inr (if should_demote then StartElectionTimer n5 else n5))
        else
          Inr ((emit (RespondPrepare call \<lparr>pr_ballot = current_ballot n2, pr_node_id = node_id n2,
                 pr_promised = False, pr_accept_log = []\<rparr>) n2)\<lparr>pending_promise_call := None\<rparr>))"

definition SendPrepare :: "int \<Rightarrow> ballot \<Rightarrow> node \<Rightarrow> node" where
  "SendPrepare now new_ballot n =
     (let n1 = n\<lparr>current_ballot := new_ballot,
                 highest_promised_ballot :=
                   (if ballot_gt new_ballot (highest_promised_ballot n) then new_ballot
                    else highest_promised_ballot n),
                 last_prepare_received := now, in_election := True\<rparr>;
          n2 = plog (''<ACK, '' @ ballot_ToString new_ballot @ '', '' @
                     AcceptLogToString (accept_log n1) @ ''> '' @ newline) n1
      in broadcast_cluster
           (\<lambda>p. CallPrepare p \<lparr>pq_ballot = new_ballot, pq_node_id = node_id n2\<rparr>) n2)"

definition OnElectionTimeout :: "int \<Rightarrow> node \<Rightarrow> node" where
  "OnElectionTimeout now n =
     (if role n = LEADER \<or> \<not> alive n then n
      else
        let should_send = (now - last_prepare_received n \<ge> prepare_cooldown);
            new_ballot = Ballot (b_counter (current_ballot n) + 1) (node_id n);
            n1 = (if should_send
                  then n\<lparr>waiting_for_promises := True, promises_received := {node_id n}\<rparr> else n);
            n2 = (if pending_promise_call n1 \<noteq> None then SendPromise n1 else n1)
        in if should_send then SendPrepare now new_ballot n2 else n2)"

definition RespondAndClearNewViewCallData :: "node \<Rightarrow> node" where
  "RespondAndClearNewViewCallData n =
     (case newview_call_data n of
        None \<Rightarrow> n
      | Some c \<Rightarrow> emit (RespondNewView c) (n\<lparr>newview_call_data := None\<rparr>))"

definition OnNewViewCallFinished :: "nat \<Rightarrow> node \<Rightarrow> node" where
  "OnNewViewCallFinished c n =
     (if newview_call_data n = Some c then n\<lparr>newview_call_data := None\<rparr> else n)"

text \<open>One turn of the timer thread after its wait has ended, by a reset or by the timeout.\<close>

definition timer_turn :: "int \<Rightarrow> node \<Rightarrow> node" where
  "timer_turn now n =
     (if timer_running n \<and> alive n then
        let woke_by_reset = election_reset n;
            timed_out = (\<not> woke_by_reset \<or> (woke_by_reset \<and> bootstraps n));
            n1 = n\<lparr>election_reset := False\<rparr>
        in if timed_out then OnElectionTimeout now (RespondAndClearNewViewCallData n1) else n1
      else n)"

section \<open>Killing, reviving and resetting a node\<close>

definition kill :: "node \<Rightarrow> exn + node" where
  "kill n =
     (let n1 = n\<lparr>alive := False\<rparr> in
      if role n1 = BACKUP then Inr (StopElectionTimer n1) else DemoteToBackup n1)"

definition revive :: "node \<Rightarrow> node" where
  "revive n = n\<lparr>alive := True\<rparr>"

definition ResetNode :: "node \<Rightarrow> node" where
  "ResetNode n =
     (let n1 = (StopHeartbeat n)\<lparr>role := BACKUP, current_ballot := Ballot 0 (node_id n),
                  highest_promised_ballot := Ballot 0 0, leader_id := - 1,
                  waiting_for_promises := False, promises_received := {}, new_view_logs := [],
                  in_election := True, accept_log := [], last_seqnum := 0, last_executed_seq := 0,
                  max_seqnum_in_new_view := 0, accepted_count := (\<lambda>_ _. {}),
                  entries_to_commit := [], pending_entries := Map.empty\<rparr>;
          n2 = respond_pending_calls n1;
          n3 = n2\<lparr>print_log := (if k_print_log n2 then [] else print_log n2),
                 handled_ro_requests := {}, first_txn_received := True, executed_entries := {},
                 modified_accounts := {}, accepted_count_two_pc_commit := (\<lambda>_ _. {}),
                 digest_to_seqnum := (\<lambda>_. 0), wal := []\<rparr>;
          n4 = reset_in_flights n3
      in n4\<lparr>cluster_leaders := (\<lambda>c. if 1 \<le> c \<and> c \<le> num_clusters n4
                                     then initial_leader (divisor n4) c else cluster_leaders n4 c),
            accounts := CVec (vsize (accounts n4))
              (\<lambda>i. if 1 \<le> i \<and> i \<le> num_items then 10 else vat (accounts n4) i)\<rparr>)"

definition apply_reshard :: "(int \<times> int) list \<Rightarrow> node \<Rightarrow> node" where
  "apply_reshard es n = n\<lparr>shard_map := fold (\<lambda>e m. m(fst e := snd e)) es (shard_map n)\<rparr>"

definition HandleSetAlive :: "alive_update_request \<Rightarrow> node \<Rightarrow> exn + node" where
  "HandleSetAlive request n =
     (let was_alive = alive n;
          n1 = (if au_prompt_pause request then n\<lparr>alive_before_prompt := alive n\<rparr> else n)
      in
      if au_reshard request then Inr (apply_reshard (au_shard_map request) n1)
      else
        let n2 = (if au_reset_state request then ResetNode n1 else n1) in
        if au_kill_leader request then
          (let was_leader = (role n2 = LEADER) in
           bindE (kill n2) (\<lambda>n3.
             Inr ((if was_leader then n3\<lparr>leader_id := - 1\<rparr> else n3)\<lparr>alive_before_prompt := False\<rparr>)))
        else if au_recover request then Inr (revive n2)
        else if \<not> au_prompt_pause request \<and> au_is_alive request \<and> \<not> alive_before_prompt n2 then
          bindE (DemoteToBackup n2) (\<lambda>n3. Inr (revive (n3\<lparr>leader_id := - 1\<rparr>)))
        else if au_is_alive request \<and> \<not> was_alive then Inr (revive n2)
        else if \<not> au_is_alive request \<and> was_alive then kill (RespondAndClearNewViewCallData n2)
        else Inr n2)"

section \<open>Frames\<close>

lemma accept_log_at_frame:
  "accept_log_at k n = (e, m) \<Longrightarrow> m = n\<lparr>accept_log := accept_log m\<rparr>"
  by (auto simp: accept_log_at_def split: option.splits)

text \<open>The entry a lookup of the log yields, the default one when it is missing.\<close>

definition log_lookup :: "int \<Rightarrow> node \<Rightarrow> accepted_entry" where
  "log_lookup k n = (case map_of (accept_log n) k of Some e \<Rightarrow> e | None \<Rightarrow> no_entry)"

lemma accept_log_at_lookup:
  assumes "accept_log_at k n = (e, m)"
  shows "e = log_lookup k n" and "log_lookup j m = log_lookup j n"
  using assms by (auto simp: accept_log_at_def log_lookup_def split: option.splits if_splits)

definition recon_frame :: "node \<Rightarrow> node \<Rightarrow> bool" where
  "recon_frame n m \<longleftrightarrow>
     m = n\<lparr>accept_log := accept_log m, accounts := accounts m, balance_locks := balance_locks m,
           wal := wal m\<rparr>"

lemma recon_frame_refl [simp]: "recon_frame n n"
  by (simp add: recon_frame_def)

lemma recon_frame_trans: "recon_frame a b \<Longrightarrow> recon_frame b c \<Longrightarrow> recon_frame a c"
  unfolding recon_frame_def by (elim ssubst [where t = c] ssubst [where t = b]) simp

lemma recon_frame_sel:
  assumes "recon_frame n m"
  shows "role m = role n" "alive m = alive n" "leader_id m = leader_id n" "outbox m = outbox n"
    "cluster_id m = cluster_id n" "shard_map m = shard_map n"
    "highest_promised_ballot m = highest_promised_ballot n" "current_ballot m = current_ballot n"
    "node_id m = node_id n" "in_election m = in_election n" "timer_running m = timer_running n"
    "in_flight_prepares m = in_flight_prepares n" "in_flight_txns m = in_flight_txns n"
    "entries_to_commit m = entries_to_commit n" "pending_entries m = pending_entries n"
    "pending_client_calls m = pending_client_calls n" "accepted_count m = accepted_count n"
    "waiting_for_promises m = waiting_for_promises n" "heartbeat_running m = heartbeat_running n"
    "last_leader_msg_received m = last_leader_msg_received n"
    "pending_promise_call m = pending_promise_call n"
    "last_executed_seq m = last_executed_seq n" "executed_entries m = executed_entries n"
    "queued_client_requests m = queued_client_requests n" "cluster_leaders m = cluster_leaders n"
    "in_new_view m = in_new_view n" "digest_to_seqnum m = digest_to_seqnum n"
    "pending_or_completed_ts m = pending_or_completed_ts n" "last_seqnum m = last_seqnum n"
    "last_reply_per_client m = last_reply_per_client n" "peers m = peers n"
    "client_ids m = client_ids n" "max_seqnum_in_new_view m = max_seqnum_in_new_view n"
proof -
  from assms obtain a b c d where m: "m = n\<lparr>accept_log := a, accounts := b, balance_locks := c,
      wal := d\<rparr>"
    unfolding recon_frame_def by blast
  show "role m = role n" "alive m = alive n" "leader_id m = leader_id n" "outbox m = outbox n"
    "cluster_id m = cluster_id n" "shard_map m = shard_map n"
    "highest_promised_ballot m = highest_promised_ballot n" "current_ballot m = current_ballot n"
    "node_id m = node_id n" "in_election m = in_election n" "timer_running m = timer_running n"
    "in_flight_prepares m = in_flight_prepares n" "in_flight_txns m = in_flight_txns n"
    "entries_to_commit m = entries_to_commit n" "pending_entries m = pending_entries n"
    "pending_client_calls m = pending_client_calls n" "accepted_count m = accepted_count n"
    "waiting_for_promises m = waiting_for_promises n" "heartbeat_running m = heartbeat_running n"
    "last_leader_msg_received m = last_leader_msg_received n"
    "pending_promise_call m = pending_promise_call n"
    "last_executed_seq m = last_executed_seq n" "executed_entries m = executed_entries n"
    "queued_client_requests m = queued_client_requests n" "cluster_leaders m = cluster_leaders n"
    "in_new_view m = in_new_view n" "digest_to_seqnum m = digest_to_seqnum n"
    "pending_or_completed_ts m = pending_or_completed_ts n" "last_seqnum m = last_seqnum n"
    "last_reply_per_client m = last_reply_per_client n" "peers m = peers n"
    "client_ids m = client_ids n" "max_seqnum_in_new_view m = max_seqnum_in_new_view n"
    by (simp_all add: m)
qed

lemma set_account_frame: "set_account a x n = Inr m \<Longrightarrow> recon_frame n m"
  by (auto simp: set_account_def exn_simps recon_frame_def)

lemma unlock_frame: "unlock a n = Inr m \<Longrightarrow> recon_frame n m"
  by (auto simp: unlock_def exn_simps recon_frame_def)

lemma wal_erase_frame: "recon_frame n (wal_erase s n)"
  by (simp add: wal_erase_def recon_frame_def)

text \<open>What one turn of the loop does, for either treatment of the undecided entries.\<close>

definition outcome_known :: "int \<Rightarrow> node \<Rightarrow> bool" where
  "outcome_known s n \<longleftrightarrow> is_phase2 (ae_phase2_result (log_lookup s n))"

definition outcome_aborted :: "int \<Rightarrow> node \<Rightarrow> bool" where
  "outcome_aborted s n \<longleftrightarrow>
     ae_phase2_result (log_lookup s n) \<in> {''A_COORD'', ''A_PART_COMMIT''}"

text \<open>What undoing an aborted entry adds to the account \<open>a\<close>.\<close>

definition undo_amount :: "node \<Rightarrow> int \<Rightarrow> int \<times> wal_entry \<Rightarrow> int" where
  "undo_amount n a sw =
     (if outcome_aborted (fst sw) n \<and> wal_account (ae_request (log_lookup (fst sw) n)) n = Inr a
      then before_value (snd sw) - after_value (snd sw) else 0)"

definition recon_view :: "node \<Rightarrow> node \<Rightarrow> bool" where
  "recon_view n m \<longleftrightarrow> recon_frame n m \<and> (\<forall>j. log_lookup j m = log_lookup j n)"

lemma recon_view_refl [simp]: "recon_view n n"
  by (simp add: recon_view_def)

lemma recon_view_trans: "recon_view a b \<Longrightarrow> recon_view b c \<Longrightarrow> recon_view a c"
  by (auto simp: recon_view_def intro: recon_frame_trans)

lemma recon_viewD:
  assumes "recon_view n m"
  shows "log_lookup j m = log_lookup j n" "cluster_id m = cluster_id n" "shard_map m = shard_map n"
  using assms recon_frame_sel by (auto simp: recon_view_def)

lemma wal_account_view: "recon_view n m \<Longrightarrow> wal_account r m = wal_account r n"
  by (simp add: wal_account_def recon_viewD)

lemma undo_amount_view: "recon_view n m \<Longrightarrow> undo_amount m a sw = undo_amount n a sw"
  by (simp add: undo_amount_def outcome_aborted_def wal_account_view recon_viewD)

lemma outcome_known_view: "recon_view n m \<Longrightarrow> outcome_known s m = outcome_known s n"
  by (simp add: outcome_known_def recon_viewD)

lemma accept_log_at_view:
  assumes "accept_log_at k n = (e, m)"
  shows "recon_view n m" and "e = log_lookup k n" and "balance m = balance n" "wal m = wal n"
    "balance_locks m = balance_locks n"
proof -
  have f: "m = n\<lparr>accept_log := accept_log m\<rparr>" by (rule accept_log_at_frame [OF assms])
  show "balance m = balance n" "wal m = wal n" "balance_locks m = balance_locks n"
    by (subst f, simp)+
  have "recon_frame n (n\<lparr>accept_log := accept_log m\<rparr>)" by (simp add: recon_frame_def)
  then have "recon_frame n m" using f by simp
  with accept_log_at_lookup [OF assms] show "recon_view n m" "e = log_lookup k n"
    by (simp_all add: recon_view_def)
qed

lemma reconcile_step:
  assumes run: "reconcile_wal_entry undecided sw n = Inr m"
    and und: "\<And>s a w u v. undecided s a w u = Inr v \<Longrightarrow> recon_view u v"
    and fresh: "\<And>s a w u v. undecided s a w u = Inr v \<Longrightarrow> balance v = balance u"
  shows "recon_view n m \<and> balance m a = balance n a + undo_amount n a sw"
proof -
  obtain entry n1 where at: "accept_log_at (fst sw) n = (entry, n1)" by fastforce
  note v = accept_log_at_view [OF at]
  have view: "recon_view n k" if "recon_frame n1 k" "accept_log k = accept_log n1" for k
    using that v(1) recon_frame_trans by (auto simp: recon_view_def log_lookup_def)
  show ?thesis
  proof (cases "ae_phase2_result entry = ''C_COORD'' \<or> ae_phase2_result entry = ''C''")
    case True
    with run at have m: "m = wal_erase (fst sw) n1"
      by (auto simp: reconcile_wal_entry_def Let_def)
    have "recon_view n m"
      by (rule view) (simp_all add: m wal_erase_frame, simp add: wal_erase_def)
    with True v m show ?thesis
      by (auto simp: undo_amount_def outcome_aborted_def wal_erase_def)
  next
    case False
    with run at obtain acct where acct: "wal_account (ae_request entry) n1 = Inr acct"
      by (auto simp: reconcile_wal_entry_def Let_def exn_simps)
    then have acct': "wal_account (ae_request (log_lookup (fst sw) n)) n = Inr acct"
      using v wal_account_view by metis
    show ?thesis
    proof (cases "ae_phase2_result entry \<in> {''A_COORD'', ''A_PART_COMMIT''}")
      case True
      with run at False acct obtain n2 n3 where
        n2: "set_account acct (vat (accounts n1) acct + (before_value (snd sw) - after_value (snd sw))) n1
               = Inr n2" and n3: "unlock acct n2 = Inr n3" and m: "m = wal_erase (fst sw) n3"
        by (auto simp: reconcile_wal_entry_def Let_def exn_simps get_account_def)
      have "recon_frame n1 m"
        using set_account_frame [OF n2] unlock_frame [OF n3] wal_erase_frame m
        by (metis recon_frame_trans)
      moreover have "accept_log m = accept_log n1"
        using n2 n3 m by (auto simp: set_account_def unlock_def wal_erase_def exn_simps)
      ultimately have "recon_view n m" by (rule view)
      moreover have "balance m a = balance n a + undo_amount n a sw"
        using n2 n3 m True v(2,3) acct'
        by (auto simp: set_account_def unlock_def wal_erase_def exn_simps undo_amount_def
            outcome_aborted_def)
      ultimately show ?thesis by simp
    next
      case und': False
      with run at False acct have u: "undecided (fst sw) acct (snd sw) n1 = Inr m"
        by (auto simp: reconcile_wal_entry_def Let_def)
      have "undo_amount n a sw = 0"
        using und' v(2) by (simp add: undo_amount_def outcome_aborted_def)
      with und [OF u] fresh [OF u] v(1,3) show ?thesis by (auto intro: recon_view_trans)
    qed
  qed
qed

lemma reconcile_wal:
  assumes run: "reconcile_wal_entry undecided sw n = Inr m"
    and und: "\<And>s a w u v. undecided s a w u = Inr v \<Longrightarrow>
      map_of (wal v) = (if keep then map_of (wal u) else (map_of (wal u))(s := None))"
  shows "map_of (wal m) =
    (if keep \<and> \<not> outcome_known (fst sw) n then map_of (wal n) else (map_of (wal n))(fst sw := None))"
proof -
  obtain entry n1 where at: "accept_log_at (fst sw) n = (entry, n1)" by fastforce
  note v = accept_log_at_view [OF at]
  note body = run [unfolded reconcile_wal_entry_def Let_def at prod.case]
  consider (commit) "ae_phase2_result entry = ''C_COORD'' \<or> ae_phase2_result entry = ''C''"
    | (abort) "ae_phase2_result entry = ''A_COORD'' \<or> ae_phase2_result entry = ''A_PART_COMMIT''"
    | (undecided) "\<not> is_phase2 (ae_phase2_result entry)"
    by (auto simp: is_phase2_def)
  then show ?thesis
  proof cases
    case commit
    with body v show ?thesis by (auto simp: outcome_known_def wal_erase_def)
  next
    case abort
    with body v show ?thesis
      by (auto simp: outcome_known_def wal_erase_def set_account_def unlock_def exn_simps)
  next
    case undecided
    then have "\<not> outcome_known (fst sw) n" by (simp add: outcome_known_def v(2))
    moreover from undecided body obtain acct where "undecided (fst sw) acct (snd sw) n1 = Inr m"
      by (auto simp: exn_simps is_phase2_def)
    ultimately show ?thesis using und v(4) by auto
  qed
qed

lemma keep_undecided_view:
  assumes "keep_undecided s a w u = Inr v"
  shows "recon_view u v" "balance v = balance u" "map_of (wal v) = map_of (wal u)"
  using assms unlock_frame [of a u v]
  by (auto simp: keep_undecided_def recon_view_def log_lookup_def unlock_def exn_simps)

lemma demote_loop:
  assumes "foldE (reconcile_wal_entry keep_undecided) es n = Inr m"
  shows "recon_view n m \<and> balance m a = balance n a + (\<Sum>sw\<leftarrow>es. undo_amount n a sw) \<and>
    map_of (wal m) s =
      (if s \<in> fst ` set es \<and> outcome_known s n then None else map_of (wal n) s)"
  using assms
proof (induction es arbitrary: n)
  case Nil
  then show ?case by simp
next
  case (Cons sw es)
  then obtain k where k: "reconcile_wal_entry keep_undecided sw n = Inr k"
      "foldE (reconcile_wal_entry keep_undecided) es k = Inr m"
    by (auto elim: bindE_InrE)
  have kv: "recon_view n k \<and> balance k a = balance n a + undo_amount n a sw"
    by (rule reconcile_step [OF k(1)]) (auto dest: keep_undecided_view)
  have kw: "map_of (wal k) =
      (if True \<and> \<not> outcome_known (fst sw) n then map_of (wal n) else (map_of (wal n))(fst sw := None))"
    by (rule reconcile_wal [OF k(1)]) (auto dest: keep_undecided_view)
  have same: "(\<Sum>sw\<leftarrow>es. undo_amount k a sw) = (\<Sum>sw\<leftarrow>es. undo_amount n a sw)"
    using kv by (intro arg_cong [where f = sum_list] map_cong) (auto simp: undo_amount_view)
  have ok: "outcome_known s k = outcome_known s n"
    using kv by (intro outcome_known_view) simp
  note ih = Cons.IH [OF k(2)]
  have "recon_view n m" using kv ih by (blast intro: recon_view_trans)
  moreover have "balance m a = balance n a + (\<Sum>sw\<leftarrow>sw # es. undo_amount n a sw)"
    using ih kv same by simp
  moreover have "map_of (wal m) s =
      (if s \<in> fst ` set (sw # es) \<and> outcome_known s n then None else map_of (wal n) s)"
    using ih kw ok by (cases "s = fst sw") auto
  ultimately show ?case by blast
qed

section \<open>Demotion\<close>

lemma step_down_frame:
  "step_down n = n\<lparr>role := BACKUP, leader_id := - 1, heartbeat_running := False,
     waiting_for_promises := False, accepted_count := (\<lambda>_ _. {}), entries_to_commit := [],
     pending_entries := Map.empty, pending_client_calls := [],
     outbox := outbox n @ map (\<lambda>c. RespondClientRequest (call_id (snd c))) (pending_client_calls n),
     in_flight_prepares := CVec (vsize (in_flight_prepares n))
       (\<lambda>i. reset_in_flight (vat (in_flight_prepares n) i)),
     in_flight_txns := vec_clear (in_flight_txns n)\<rparr>"
  by (simp add: step_down_def StopHeartbeat_def respond_pending_calls_def reset_in_flights_def
      emits_def)

lemma step_down_sel [simp]:
  "wal (step_down n) = wal n" "accounts (step_down n) = accounts n"
  "accept_log (step_down n) = accept_log n" "cluster_id (step_down n) = cluster_id n"
  "shard_map (step_down n) = shard_map n" "role (step_down n) = BACKUP"
  "alive (step_down n) = alive n" "leader_id (step_down n) = - 1"
  "balance_locks (step_down n) = balance_locks n"
  "highest_promised_ballot (step_down n) = highest_promised_ballot n"
  "current_ballot (step_down n) = current_ballot n" "node_id (step_down n) = node_id n"
  "last_leader_msg_received (step_down n) = last_leader_msg_received n"
  "timer_running (step_down n) = timer_running n" "peers (step_down n) = peers n"
  by (simp_all add: step_down_frame)

lemma log_lookup_step_down [simp]: "log_lookup s (step_down n) = log_lookup s n"
  by (simp add: log_lookup_def)

lemma undo_amount_step_down: "undo_amount (step_down n) a sw = undo_amount n a sw"
  by (simp add: undo_amount_def outcome_aborted_def wal_account_def)

lemma DemoteToBackup_loop:
  assumes "DemoteToBackup n = Inr m"
  shows "recon_view (step_down n) m"
    and "balance m a = balance n a + (\<Sum>sw\<leftarrow>wal n. undo_amount n a sw)"
    and "map_of (wal m) s = (if outcome_known s n then None else map_of (wal n) s)"
proof -
  have run: "foldE (reconcile_wal_entry keep_undecided) (wal n) (step_down n) = Inr m"
    using assms by (simp add: DemoteToBackup_def)
  note loop = demote_loop [OF run, of a s]
  have "undo_amount (step_down n) a = undo_amount n a"
    by (rule ext) (rule undo_amount_step_down)
  then show "recon_view (step_down n) m"
    and "balance m a = balance n a + (\<Sum>sw\<leftarrow>wal n. undo_amount n a sw)"
    using loop by simp_all
  show "map_of (wal m) s = (if outcome_known s n then None else map_of (wal n) s)"
    using loop map_of_eq_None_keys [of "wal n" s] by (auto simp: outcome_known_def)
qed

lemma DemoteToBackup_sel:
  assumes "DemoteToBackup n = Inr m"
  shows "role m = BACKUP" "leader_id m = - 1" "alive m = alive n" "node_id m = node_id n"
    "highest_promised_ballot m = highest_promised_ballot n" "current_ballot m = current_ballot n"
    "in_election m = in_election n" "pending_client_calls m = []" "entries_to_commit m = []"
    "pending_entries m = Map.empty" "heartbeat_running m = False" "timer_running m = timer_running n"
    "outbox m = outbox n @ map (\<lambda>c. RespondClientRequest (call_id (snd c))) (pending_client_calls n)"
    "in_flight_txns m = vec_clear (in_flight_txns n)"
    "in_flight_prepares m = CVec (vsize (in_flight_prepares n))
       (\<lambda>i. reset_in_flight (vat (in_flight_prepares n) i))"
    "pending_promise_call m = pending_promise_call n" "shard_map m = shard_map n"
    "cluster_leaders m = cluster_leaders n" "last_executed_seq m = last_executed_seq n"
    "digest_to_seqnum m = digest_to_seqnum n" "cluster_id m = cluster_id n"
    "waiting_for_promises m = False" "executed_entries m = executed_entries n"
proof -
  have f: "recon_frame (step_down n) m"
    using DemoteToBackup_loop(1) [OF assms] by (simp add: recon_view_def)
  show "role m = BACKUP" "leader_id m = - 1" "alive m = alive n" "node_id m = node_id n"
    "highest_promised_ballot m = highest_promised_ballot n" "current_ballot m = current_ballot n"
    "in_election m = in_election n" "pending_client_calls m = []" "entries_to_commit m = []"
    "pending_entries m = Map.empty" "heartbeat_running m = False" "timer_running m = timer_running n"
    "outbox m = outbox n @ map (\<lambda>c. RespondClientRequest (call_id (snd c))) (pending_client_calls n)"
    "in_flight_txns m = vec_clear (in_flight_txns n)"
    "in_flight_prepares m = CVec (vsize (in_flight_prepares n))
       (\<lambda>i. reset_in_flight (vat (in_flight_prepares n) i))"
    "pending_promise_call m = pending_promise_call n" "shard_map m = shard_map n"
    "cluster_leaders m = cluster_leaders n" "last_executed_seq m = last_executed_seq n"
    "digest_to_seqnum m = digest_to_seqnum n" "cluster_id m = cluster_id n"
    "waiting_for_promises m = False" "executed_entries m = executed_entries n"
    using f by (simp_all add: recon_frame_sel, simp_all add: step_down_frame)
qed

text \<open>
  C11: demotion settles the write-ahead log by the recorded outcomes. Every entry whose outcome is
  known leaves the log; a committed one keeps its balance change, an aborted one is undone by the
  difference it made, on the account of this cluster's side; entries without an outcome keep both
  their balance change and their place in the log.
\<close>

theorem demotion_reconciles_wal:
  assumes "DemoteToBackup n = Inr m"
  shows "(\<forall>a. balance m a = balance n a +
      (\<Sum>sw\<leftarrow>wal n. if outcome_aborted (fst sw) n \<and>
                        wal_account (ae_request (log_lookup (fst sw) n)) n = Inr a
                     then before_value (snd sw) - after_value (snd sw) else 0)) \<and>
    (\<forall>s. map_of (wal m) s = (if outcome_known s n then None else map_of (wal n) s))"
  using DemoteToBackup_loop(2,3) [OF assms] by (simp add: undo_amount_def [abs_def])

text \<open>A replica with a committed, an aborted and an undecided entry.\<close>

definition demo_entry :: "int \<Rightarrow> string \<Rightarrow> string \<Rightarrow> client_request \<Rightarrow> accepted_entry" where
  "demo_entry seq status outcome req =
     no_entry\<lparr>ae_ballot := Ballot 1 1, ae_seqnum := seq, ae_request := req,
       ae_two_pc_status := status, ae_phase2_result := outcome\<rparr>"

lemma demo_entry_sel [simp]:
  "ae_phase2_result (demo_entry seq status outcome req) = outcome"
  "ae_request (demo_entry seq status outcome req) = req"
  "ae_seqnum (demo_entry seq status outcome req) = seq"
  "ae_two_pc_status (demo_entry seq status outcome req) = status"
  "ae_ballot (demo_entry seq status outcome req) = Ballot 1 1"
  by (simp_all add: demo_entry_def no_entry_def)

definition demo_replica :: node where
  "demo_replica = (demo_node 2)\<lparr>
     wal := [(1, WalEntry 10 6), (2, WalEntry 10 7), (3, WalEntry 10 9)],
     accept_log := [(1, demo_entry 1 ''COORD'' ''C_COORD'' (demo_request ''1'' ''3001'' 4 7)),
       (2, demo_entry 2 ''COORD'' ''A_COORD'' (demo_request ''2'' ''3001'' 3 8)),
       (3, demo_entry 3 ''COORD'' [] (demo_request ''3'' ''3001'' 1 9))],
     accounts := CVec 9001 ((\<lambda>_. 10)(1 := 6, 2 := 7, 3 := 9))\<rparr>"

lemma demo_replica_demotes:
  "\<exists>m. DemoteToBackup demo_replica = Inr m"
  by (simp add: DemoteToBackup_def step_down_frame demo_replica_def reconcile_wal_entry_def
      accept_log_at_def wal_account_def keep_undecided_def get_account_def set_account_def
      unlock_def wal_erase_def)

theorem demotion_reconciles_wal_witness:
  "\<exists>m. DemoteToBackup demo_replica = Inr m \<and> balance m 1 = 6 \<and> balance m 2 = 10 \<and>
       balance m 3 = 9 \<and> map_of (wal m) 1 = None \<and> map_of (wal m) 2 = None \<and>
       map_of (wal m) 3 = Some (WalEntry 10 9)"
proof -
  obtain m where m: "DemoteToBackup demo_replica = Inr m" using demo_replica_demotes by blast
  from demotion_reconciles_wal [OF m] m show ?thesis
    by (auto simp: demo_replica_def outcome_aborted_def outcome_known_def log_lookup_def
        wal_account_def)
qed

text \<open>
  Demotion forgets the volatile leadership state and answers everyone. The node is a backup
  without a known leader, sends no heartbeats, has no pending or committed entries left, every
  client call that waited is answered exactly once, and no PREPARE is due for a retry any more.
\<close>

theorem demotion_answers_calls:
  assumes "DemoteToBackup n = Inr m"
  shows "role m = BACKUP \<and> leader_id m = - 1 \<and> heartbeat_running m = False \<and>
    entries_to_commit m = [] \<and> pending_entries m = Map.empty \<and> pending_client_calls m = [] \<and>
    outbox m = outbox n @ map (\<lambda>c. RespondClientRequest (call_id (snd c))) (pending_client_calls n) \<and>
    (\<forall>now i. \<not> slot_due now (vat (in_flight_prepares m) i))"
  using DemoteToBackup_sel [OF assms] by (simp add: slot_due_def reset_in_flight_def)

theorem demotion_answers_calls_witness:
  "\<exists>m. DemoteToBackup demo_replica = Inr m \<and> leader_id m = - 1"
  using demo_replica_demotes demotion_answers_calls by blast

text \<open>
  After a demotion a coordinator cannot start the second phase of any transaction again. The
  decision slots were cleared to an empty vector, so writing one is out of bounds, whatever the
  message.
\<close>

theorem second_phase_after_demotion:
  assumes "DemoteToBackup n = Inr m" and "stoi (cr_to_account (tm_m msg)) = Inr r"
    and "shard_map m r \<noteq> cluster_id m"
  shows "StartSecondPhase now msg m = Inl OutOfBounds"
  using assms(2,3) DemoteToBackup_sel(14) [OF assms(1)]
  by (auto simp: StartSecondPhase_def forward_decision_def set_in_flight_def Let_def bindE_def
      vec_get_def vec_set_def split: sum.split if_splits)

theorem second_phase_after_demotion_witness:
  "\<exists>m. DemoteToBackup demo_replica = Inr m \<and>
     StartSecondPhase 5 (no_twopc\<lparr>tm_type := ''PREPARED'', tm_m := demo_request ''1'' ''3001'' 4 7\<rparr>) m
       = Inl OutOfBounds"
proof -
  obtain m where m: "DemoteToBackup demo_replica = Inr m" using demo_replica_demotes by blast
  have "StartSecondPhase 5 (no_twopc\<lparr>tm_type := ''PREPARED'', tm_m := demo_request ''1'' ''3001'' 4 7\<rparr>) m
      = Inl OutOfBounds"
    by (rule second_phase_after_demotion [OF m, where r = 3001])
      (simp_all add: DemoteToBackup_sel [OF m] demo_replica_def)
  with m show ?thesis by blast
qed

section \<open>Promises\<close>

lemma plog_sel [simp]:
  "role (plog s n) = role n" "alive (plog s n) = alive n" "outbox (plog s n) = outbox n"
  "highest_promised_ballot (plog s n) = highest_promised_ballot n"
  "current_ballot (plog s n) = current_ballot n" "node_id (plog s n) = node_id n"
  "last_leader_msg_received (plog s n) = last_leader_msg_received n"
  "accept_log (plog s n) = accept_log n" "accounts (plog s n) = accounts n"
  "pending_promise_call (plog s n) = pending_promise_call n" "peers (plog s n) = peers n"
  "range_lo (plog s n) = range_lo n" "range_hi (plog s n) = range_hi n"
  "promises_received (plog s n) = promises_received n" "wal (plog s n) = wal n"
  "waiting_for_promises (plog s n) = waiting_for_promises n"
  "cluster_leaders (plog s n) = cluster_leaders n" "shard_map (plog s n) = shard_map n"
  "leader_id (plog s n) = leader_id n" "accepted_count (plog s n) = accepted_count n"
  "last_executed_seq (plog s n) = last_executed_seq n" "cluster_id (plog s n) = cluster_id n"
  "entries_to_commit (plog s n) = entries_to_commit n" "f_max (plog s n) = f_max n"
  "executed_entries (plog s n) = executed_entries n" "pending_entries (plog s n) = pending_entries n"
  "balance_locks (plog s n) = balance_locks n" "divisor (plog s n) = divisor n"
  "in_election (plog s n) = in_election n" "timer_running (plog s n) = timer_running n"
  "first_txn_received (plog s n) = first_txn_received n"
  "queued_client_requests (plog s n) = queued_client_requests n"
  "new_view_logs (plog s n) = new_view_logs n" "last_seqnum (plog s n) = last_seqnum n"
  "accepted_count_two_pc_commit (plog s n) = accepted_count_two_pc_commit n"
  "max_seqnum_in_new_view (plog s n) = max_seqnum_in_new_view n"
  "digest_to_seqnum (plog s n) = digest_to_seqnum n"
  "pending_client_calls (plog s n) = pending_client_calls n" "client_ids (plog s n) = client_ids n"
  "last_reply_per_client (plog s n) = last_reply_per_client n"
  "in_flight_prepares (plog s n) = in_flight_prepares n"
  "in_flight_txns (plog s n) = in_flight_txns n"
  "received_promise_logs (plog s n) = received_promise_logs n"
  "pending_or_completed_ts (plog s n) = pending_or_completed_ts n"
  "prepare_and_aborted_queue (plog s n) = prepare_and_aborted_queue n"
  "modified_accounts (plog s n) = modified_accounts n"
  by (simp_all add: plog_def)

lemma StartElectionTimer_sel [simp]:
  "role (StartElectionTimer n) = role n" "outbox (StartElectionTimer n) = outbox n"
  "highest_promised_ballot (StartElectionTimer n) = highest_promised_ballot n"
  "pending_promise_call (StartElectionTimer n) = pending_promise_call n"
  "in_election (StartElectionTimer n) = in_election n" "alive (StartElectionTimer n) = alive n"
  "accept_log (StartElectionTimer n) = accept_log n" "accounts (StartElectionTimer n) = accounts n"
  "current_ballot (StartElectionTimer n) = current_ballot n" "wal (StartElectionTimer n) = wal n"
  "leader_id (StartElectionTimer n) = leader_id n" "node_id (StartElectionTimer n) = node_id n"
  "last_executed_seq (StartElectionTimer n) = last_executed_seq n"
  "entries_to_commit (StartElectionTimer n) = entries_to_commit n"
  "executed_entries (StartElectionTimer n) = executed_entries n"
  "balance_locks (StartElectionTimer n) = balance_locks n"
  "shard_map (StartElectionTimer n) = shard_map n"
  "pending_entries (StartElectionTimer n) = pending_entries n"
  "digest_to_seqnum (StartElectionTimer n) = digest_to_seqnum n"
  by (simp_all add: StartElectionTimer_def)

lemma SendPromise_sel [simp]:
  "role (SendPromise n) = role n" "alive (SendPromise n) = alive n"
  "highest_promised_ballot (SendPromise n) = highest_promised_ballot n"
  "current_ballot (SendPromise n) = current_ballot n" "accept_log (SendPromise n) = accept_log n"
  "in_election (SendPromise n) = in_election n" "node_id (SendPromise n) = node_id n"
  "promises_received (SendPromise n) = promises_received n"
  "waiting_for_promises (SendPromise n) = waiting_for_promises n"
  "peers (SendPromise n) = peers n" "range_lo (SendPromise n) = range_lo n"
  "range_hi (SendPromise n) = range_hi n"
  by (simp_all add: SendPromise_def emit_def split: option.splits)

lemma HandlePrepare_granted:
  assumes "alive n" "highest_promised_ballot n < pq_ballot request"
    and "HandlePrepare now request call n = Inr m"
  obtains n2 n3 where "n2 = (plog (''<PREPARE, '' @ ballot_ToString (pq_ballot request) @ ''> '' @ newline) n)
      \<lparr>last_prepare_received := now, in_election := True\<rparr>"
    and "(if role n = LEADER then DemoteToBackup n2 else Inr n2) = Inr n3"
    and "m = (let n4 = n3\<lparr>highest_promised_ballot := pq_ballot request, pending_promise_call := Some call\<rparr>;
        n5 = (if now - last_leader_msg_received n \<ge> prepare_cooldown then SendPromise n4 else n4)
      in if role n = LEADER then StartElectionTimer n5 else n5)"
proof -
  define n2 where "n2 = (plog (''<PREPARE, '' @ ballot_ToString (pq_ballot request) @ ''> '' @ newline) n)
    \<lparr>last_prepare_received := now, in_election := True\<rparr>"
  let ?finish = "\<lambda>n3. let n4 = n3\<lparr>highest_promised_ballot := pq_ballot request,
                                    pending_promise_call := Some call\<rparr>;
        n5 = (if now - last_leader_msg_received n \<ge> prepare_cooldown then SendPromise n4 else n4)
      in if role n = LEADER then StartElectionTimer n5 else n5"
  have "bindE (if role n = LEADER then DemoteToBackup n2 else Inr n2) (\<lambda>n3. Inr (?finish n3)) = Inr m"
    using assms by (simp add: HandlePrepare_def Let_def n2_def split del: if_split cong: if_cong)
  then obtain n3 where
    "(if role n = LEADER then DemoteToBackup n2 else Inr n2) = Inr n3"
    and "(Inr (?finish n3) :: exn + node) = Inr m"
    by (rule bindE_InrE) (rule that)
  with n2_def show thesis using that by simp
qed

text \<open>
  The acceptor's answer to PREPARE. A live node promises exactly the ballots above every
  promise it gave before: then it raises its promise to that ballot, is a backup, and, when its
  leader has been silent for the cooldown, answers with its whole accept log; otherwise it keeps
  the call pending. Any other PREPARE is refused at once with the current ballot and changes
  neither the promise nor the role.
\<close>

theorem prepare_answer:
  assumes "alive n" and "HandlePrepare now request call n = Inr m"
  shows "if highest_promised_ballot n < pq_ballot request then
      highest_promised_ballot m = pq_ballot request \<and> in_election m \<and> role m = BACKUP \<and>
      (if prepare_cooldown \<le> now - last_leader_msg_received n then
         pending_promise_call m = None \<and>
         last (outbox m) = RespondPrepare call
           \<lparr>pr_ballot = pq_ballot request, pr_node_id = node_id n, pr_promised = True,
            pr_accept_log = map snd (accept_log m)\<rparr>
       else pending_promise_call m = Some call)
    else
      highest_promised_ballot m = highest_promised_ballot n \<and> role m = role n \<and>
      outbox m = outbox n @ [RespondPrepare call
        \<lparr>pr_ballot = current_ballot n, pr_node_id = node_id n, pr_promised = False,
         pr_accept_log = []\<rparr>]"
proof (cases "highest_promised_ballot n < pq_ballot request")
  case False
  with assms show ?thesis by (auto simp: HandlePrepare_def Let_def emit_def)
next
  case True
  from HandlePrepare_granted [OF assms(1) True assms(2)] obtain n2 n3 where
    n2_def: "n2 = (plog (''<PREPARE, '' @ ballot_ToString (pq_ballot request) @ ''> '' @ newline) n)
      \<lparr>last_prepare_received := now, in_election := True\<rparr>"
    and n3: "(if role n = LEADER then DemoteToBackup n2 else Inr n2) = Inr n3"
    and m: "m = (let n4 = n3\<lparr>highest_promised_ballot := pq_ballot request, pending_promise_call := Some call\<rparr>;
        n5 = (if now - last_leader_msg_received n \<ge> prepare_cooldown then SendPromise n4 else n4)
      in if role n = LEADER then StartElectionTimer n5 else n5)" by metis
  have n2: "alive n2" "role n2 = role n" "in_election n2" "node_id n2 = node_id n"
    "last_leader_msg_received n2 = last_leader_msg_received n"
    using assms(1) by (simp_all add: n2_def)
  have "role n3 = BACKUP" "alive n3" "node_id n3 = node_id n" "in_election n3"
    using n3 n2 role.exhaust DemoteToBackup_sel [of n2 n3] by (auto split: if_splits)
  then show ?thesis
    using True by (auto simp: m Let_def SendPromise_def promise_reply_def emit_def)
qed

definition demo_prepare :: "int \<Rightarrow> int \<Rightarrow> prepare_request" where
  "demo_prepare c i = \<lparr>pq_ballot = Ballot c i, pq_node_id = i\<rparr>"

lemma demo_prepare_sel [simp]: "pq_ballot (demo_prepare c i) = Ballot c i"
  by (simp add: demo_prepare_def)

text \<open>The node that heard PREPARE for ballot (2, 3) while its leader was still fresh.\<close>

definition demo_waiting :: node where
  "demo_waiting = (case HandlePrepare 50 (demo_prepare 2 3) 77 (demo_node 1) of Inr m \<Rightarrow> m | Inl e \<Rightarrow> demo_node 1)"

lemma demo_waiting_prepare: "HandlePrepare 50 (demo_prepare 2 3) 77 (demo_node 1) = Inr demo_waiting"
  by (simp add: demo_waiting_def HandlePrepare_def Let_def ballot_less_iff)

theorem prepare_answer_witness:
  "highest_promised_ballot demo_waiting = Ballot 2 3 \<and> pending_promise_call demo_waiting = Some 77"
  using prepare_answer [OF _ demo_waiting_prepare]
  by (simp add: ballot_less_iff prepare_cooldown_def)

lemma demo_waiting_sel:
  "demo_waiting = (plog (''<PREPARE, '' @ ballot_ToString (Ballot 2 3) @ ''> '' @ newline) (demo_node 1))
    \<lparr>last_prepare_received := 50, in_election := True, highest_promised_ballot := Ballot 2 3,
     pending_promise_call := Some 77\<rparr>"
  by (simp add: demo_waiting_def HandlePrepare_def Let_def ballot_less_iff prepare_cooldown_def)

text \<open>
  A candidate may vote for itself below its own promise. When the cooldown has passed and the
  node's counter is more than one behind the ballot it has promised, its timeout starts an
  election with a smaller ballot, counts its own promise for it, and asks its cluster for promises.
\<close>

theorem self_promise_below_promise:
  assumes "alive n" and "role n = BACKUP"
    and "prepare_cooldown \<le> now - last_prepare_received n"
    and "b_counter (current_ballot n) + 1 < b_counter (highest_promised_ballot n)"
  shows "let m = OnElectionTimeout now n in
      promises_received m = {node_id n} \<and> waiting_for_promises m \<and>
      current_ballot m < highest_promised_ballot m \<and>
      (\<forall>p\<in>set (cluster_peers n).
         CallPrepare p \<lparr>pq_ballot = current_ballot m, pq_node_id = node_id n\<rparr> \<in> set (outbox m))"
proof -
  define n1 where "n1 = n\<lparr>waiting_for_promises := True, promises_received := {node_id n}\<rparr>"
  define n2 where "n2 = (if pending_promise_call n1 \<noteq> None then SendPromise n1 else n1)"
  have "OnElectionTimeout now n = SendPrepare now (Ballot (b_counter (current_ballot n) + 1) (node_id n)) n2"
    using assms by (simp add: OnElectionTimeout_def n1_def n2_def Let_def)
  moreover have "highest_promised_ballot n2 = highest_promised_ballot n" "node_id n2 = node_id n"
    "promises_received n2 = {node_id n}" "waiting_for_promises n2" "peers n2 = peers n"
    "range_lo n2 = range_lo n" "range_hi n2 = range_hi n"
    by (simp_all add: n2_def n1_def)
  ultimately show ?thesis
    using assms(4)
    by (simp add: SendPrepare_def Let_def broadcast_cluster_def emits_def ballot_less_iff
        cluster_peers_def in_my_range_def)
qed

theorem self_promise_below_promise_witness:
  "let m = OnElectionTimeout 1500 demo_waiting in
     promises_received m = {1} \<and> current_ballot m < highest_promised_ballot m"
  using self_promise_below_promise [of demo_waiting 1500]
  by (simp add: demo_waiting_sel prepare_cooldown_def Let_def)

section \<open>The promise never goes back\<close>

text \<open>A quantity that no step lowers, and an invariant relative to it.\<close>

locale monotone_state =
  fixes level :: "'s \<Rightarrow> 'b::linorder" and step :: "'s \<Rightarrow> 's \<Rightarrow> bool" and given :: "'s \<Rightarrow> 'b set"
  assumes step_mono: "step s t \<Longrightarrow> level s \<le> level t"
    and step_given: "step s t \<Longrightarrow> b \<in> given t \<Longrightarrow> b \<in> given s \<or> b \<le> level t"
begin

lemma reach_mono: "rtranclp step s t \<Longrightarrow> level s \<le> level t"
  by (induction rule: rtranclp_induct) (auto dest: step_mono)

lemma reach_given:
  assumes "rtranclp step s t" and "\<forall>b\<in>given s. b \<le> level s"
  shows "\<forall>b\<in>given t. b \<le> level t"
  using assms
proof (induction rule: rtranclp_induct)
  case (step u v)
  then show ?case using step_mono step_given by (meson order_trans)
qed

end

inductive election_step :: "node \<Rightarrow> node \<Rightarrow> bool" where
  prepare: "HandlePrepare now request call n = Inr m \<Longrightarrow> election_step n m"
| timer: "election_step n (timer_turn now n)"
| heartbeat: "election_step n (HandleHeartbeat now n)"
| beat: "election_step n (HeartbeatLoop_turn n)"
| lead: "election_step n (BecomeLeader b n)"
| killed: "kill n = Inr m \<Longrightarrow> election_step n m"
| revived: "election_step n (revive n)"

inductive_cases election_stepE: "election_step n m"

definition promises_given :: "node \<Rightarrow> ballot set" where
  "promises_given n = {pr_ballot r |c r. RespondPrepare c r \<in> set (outbox n) \<and> pr_promised r}"

lemma promises_given_append:
  "promises_given (n\<lparr>outbox := outbox n @ as\<rparr>) =
     promises_given n \<union> {pr_ballot r |c r. RespondPrepare c r \<in> set as \<and> pr_promised r}"
  by (auto simp: promises_given_def)

lemma promises_given_eq: "outbox m = outbox n \<Longrightarrow> promises_given m = promises_given n"
  by (simp add: promises_given_def)

lemma promises_given_grow:
  "outbox m = outbox n @ as \<Longrightarrow> (\<And>c r. RespondPrepare c r \<in> set as \<Longrightarrow> \<not> pr_promised r) \<Longrightarrow>
   promises_given m = promises_given n"
  by (auto simp: promises_given_def)

lemma promises_given_SendPromise:
  "promises_given (SendPromise n) \<subseteq> insert (highest_promised_ballot n) (promises_given n)"
  by (auto simp: SendPromise_def promises_given_def emit_def promise_reply_def split: option.splits)

lemma promises_given_DemoteToBackup:
  "DemoteToBackup n = Inr m \<Longrightarrow> promises_given m = promises_given n"
  by (erule promises_given_grow [OF DemoteToBackup_sel(13)]) auto

lemma SendPrepare_level:
  "highest_promised_ballot n \<le> highest_promised_ballot (SendPrepare now b n)"
  "promises_given (SendPrepare now b n) = promises_given n"
  by (auto simp: SendPrepare_def Let_def broadcast_cluster_def emits_def plog_def promises_given_def)

lemma OnElectionTimeout_level:
  "highest_promised_ballot n \<le> highest_promised_ballot (OnElectionTimeout now n) \<and>
   promises_given (OnElectionTimeout now n) \<subseteq>
     insert (highest_promised_ballot n) (promises_given n)"
proof -
  define n1 where "n1 = (if now - last_prepare_received n \<ge> prepare_cooldown
    then n\<lparr>waiting_for_promises := True, promises_received := {node_id n}\<rparr> else n)"
  define n2 where "n2 = (if pending_promise_call n1 \<noteq> None then SendPromise n1 else n1)"
  have eq: "OnElectionTimeout now n = (if role n = LEADER \<or> \<not> alive n then n
      else if now - last_prepare_received n \<ge> prepare_cooldown
      then SendPrepare now (Ballot (b_counter (current_ballot n) + 1) (node_id n)) n2 else n2)"
    by (simp add: OnElectionTimeout_def Let_def n1_def n2_def)
  have n1: "highest_promised_ballot n1 = highest_promised_ballot n" "outbox n1 = outbox n"
    by (simp_all add: n1_def)
  have n2: "highest_promised_ballot n2 = highest_promised_ballot n"
    by (simp add: n2_def n1)
  have p2: "promises_given n2 \<subseteq> insert (highest_promised_ballot n) (promises_given n)"
    using promises_given_SendPromise [of n1] n1 promises_given_eq [OF n1(2)] by (auto simp: n2_def)
  show ?thesis
    using SendPrepare_level(1) [of n2] n2 p2 by (auto simp: eq SendPrepare_level(2))
qed

lemma RespondAndClear_level:
  "highest_promised_ballot (RespondAndClearNewViewCallData n) = highest_promised_ballot n"
  "promises_given (RespondAndClearNewViewCallData n) = promises_given n"
  by (auto simp: RespondAndClearNewViewCallData_def emit_def promises_given_def split: option.splits)

lemma timer_turn_level:
  "highest_promised_ballot n \<le> highest_promised_ballot (timer_turn now n) \<and>
   promises_given (timer_turn now n) \<subseteq> insert (highest_promised_ballot n) (promises_given n)"
proof -
  let ?n1 = "n\<lparr>election_reset := False\<rparr>"
  have "promises_given ?n1 = promises_given n" by (rule promises_given_eq) simp
  then show ?thesis
    using OnElectionTimeout_level [of "RespondAndClearNewViewCallData ?n1" now]
    by (auto simp: timer_turn_def Let_def RespondAndClear_level)
qed

lemma HandlePrepare_level:
  assumes "HandlePrepare now request call n = Inr m"
  shows "highest_promised_ballot n \<le> highest_promised_ballot m \<and>
    promises_given m \<subseteq> insert (highest_promised_ballot m) (promises_given n)"
proof (cases "alive n \<and> highest_promised_ballot n < pq_ballot request")
  case False
  then have "m = n \<or> highest_promised_ballot m = highest_promised_ballot n \<and>
      (\<exists>r. outbox m = outbox n @ [RespondPrepare call r] \<and> \<not> pr_promised r)"
    using assms by (cases "alive n") (auto simp: HandlePrepare_def Let_def emit_def)
  then show ?thesis
    using promises_given_grow [of m n] by auto
next
  case True
  then have "alive n" "highest_promised_ballot n < pq_ballot request" by auto
  from HandlePrepare_granted [OF this assms] obtain n2 n3 where
    n2_def: "n2 = (plog (''<PREPARE, '' @ ballot_ToString (pq_ballot request) @ ''> '' @ newline) n)
      \<lparr>last_prepare_received := now, in_election := True\<rparr>"
    and n3: "(if role n = LEADER then DemoteToBackup n2 else Inr n2) = Inr n3"
    and m: "m = (let n4 = n3\<lparr>highest_promised_ballot := pq_ballot request, pending_promise_call := Some call\<rparr>;
        n5 = (if now - last_leader_msg_received n \<ge> prepare_cooldown then SendPromise n4 else n4)
      in if role n = LEADER then StartElectionTimer n5 else n5)" by metis
  define n4 where "n4 = n3\<lparr>highest_promised_ballot := pq_ballot request, pending_promise_call := Some call\<rparr>"
  have "promises_given n2 = promises_given n" by (rule promises_given_eq) (simp add: n2_def)
  then have "promises_given n3 = promises_given n"
    using n3 promises_given_DemoteToBackup [of n2 n3] by (simp split: if_splits)
  then have "promises_given n4 = promises_given n"
    using promises_given_eq [of n4 n3] by (simp add: n4_def)
  then have "promises_given (SendPromise n4) \<subseteq> insert (pq_ballot request) (promises_given n)"
    using promises_given_SendPromise [of n4] by (simp add: n4_def)
  moreover have "m = (let n5 = (if now - last_leader_msg_received n \<ge> prepare_cooldown
      then SendPromise n4 else n4) in if role n = LEADER then StartElectionTimer n5 else n5)"
    using m by (simp add: n4_def Let_def)
  moreover have "highest_promised_ballot n4 = pq_ballot request" by (simp add: n4_def)
  moreover have "promises_given (StartElectionTimer k) = promises_given k" for k
    by (rule promises_given_eq) simp
  ultimately show ?thesis
    using True \<open>promises_given n4 = promises_given n\<close> by (auto simp: Let_def)
qed

lemma ResetElectionTimer_sel [simp]:
  "role (ResetElectionTimer now n) = role n" "alive (ResetElectionTimer now n) = alive n"
  "outbox (ResetElectionTimer now n) = outbox n"
  "highest_promised_ballot (ResetElectionTimer now n) = highest_promised_ballot n"
  "accept_log (ResetElectionTimer now n) = accept_log n"
  "accounts (ResetElectionTimer now n) = accounts n" "wal (ResetElectionTimer now n) = wal n"
  "entries_to_commit (ResetElectionTimer now n) = entries_to_commit n"
  "executed_entries (ResetElectionTimer now n) = executed_entries n"
  "last_executed_seq (ResetElectionTimer now n) = last_executed_seq n"
  "balance_locks (ResetElectionTimer now n) = balance_locks n"
  "shard_map (ResetElectionTimer now n) = shard_map n"
  "pending_entries (ResetElectionTimer now n) = pending_entries n"
  "current_ballot (ResetElectionTimer now n) = current_ballot n"
  "leader_id (ResetElectionTimer now n) = leader_id n"
  by (simp_all add: ResetElectionTimer_def Let_def)

lemma quiet_level:
  "highest_promised_ballot m = highest_promised_ballot n \<Longrightarrow> outbox m = outbox n \<Longrightarrow>
   highest_promised_ballot n \<le> highest_promised_ballot m \<and>
   promises_given m \<subseteq> insert (highest_promised_ballot m) (promises_given n)"
  by (auto simp: promises_given_def)

lemma kill_level:
  assumes "kill n = Inr m"
  shows "highest_promised_ballot m = highest_promised_ballot n \<and> promises_given m = promises_given n"
proof (cases "role n = BACKUP")
  case True
  with assms have "highest_promised_ballot m = highest_promised_ballot n \<and> outbox m = outbox n"
    by (cases "timer_running n") (auto simp: kill_def Let_def StopElectionTimer_def)
  then show ?thesis using promises_given_eq [of m n] by simp
next
  case False
  with assms have d: "DemoteToBackup (n\<lparr>alive := False\<rparr>) = Inr m" by (simp add: kill_def Let_def)
  have "promises_given (n\<lparr>alive := False\<rparr>) = promises_given n" by (rule promises_given_eq) simp
  then show ?thesis
    using DemoteToBackup_sel(5) [OF d] promises_given_DemoteToBackup [OF d] by simp
qed

lemma election_step_level:
  assumes "election_step n m"
  shows "highest_promised_ballot n \<le> highest_promised_ballot m \<and>
    (\<forall>b\<in>promises_given m. b \<in> promises_given n \<or> b \<le> highest_promised_ballot m)"
  using assms
proof (cases rule: election_step.cases)
  case (prepare now request call)
  then show ?thesis using HandlePrepare_level by blast
next
  case (timer now)
  then show ?thesis using timer_turn_level [of n now] by auto
next
  case (heartbeat now)
  then show ?thesis
    using quiet_level [of m n] by (auto simp: HandleHeartbeat_def promises_given_def)
next
  case beat
  then show ?thesis
    by (auto simp: HeartbeatLoop_turn_def broadcast_cluster_def emits_def promises_given_def)
next
  case (lead b)
  then show ?thesis
    by (auto simp: BecomeLeader_def StartHeartbeat_def StopElectionTimer_def promises_given_def Let_def)
next
  case killed
  then show ?thesis using kill_level by auto
next
  case revived
  then show ?thesis by (auto simp: revive_def promises_given_def)
qed

interpretation promised: monotone_state highest_promised_ballot election_step promises_given
  using election_step_level by unfold_locales blast+

text \<open>
  C8: promises are kept through elections. Along any sequence of PREPARE messages, timer turns,
  heartbeats, elections won, kills and revivals, the highest promised ballot never decreases, and
  no promise the node ever sent exceeds it.
\<close>

theorem promises_kept:
  assumes "rtranclp election_step n m"
    and "\<forall>b\<in>promises_given n. b \<le> highest_promised_ballot n"
  shows "highest_promised_ballot n \<le> highest_promised_ballot m \<and>
    (\<forall>b\<in>promises_given m. b \<le> highest_promised_ballot m)"
  using promised.reach_mono [OF assms(1)] promised.reach_given [OF assms] by blast

theorem promises_kept_witness:
  "highest_promised_ballot (timer_turn 1500 demo_waiting) \<ge> Ballot 0 0 \<and>
   promises_given (timer_turn 1500 demo_waiting) \<subseteq>
     {..highest_promised_ballot (timer_turn 1500 demo_waiting)}"
proof -
  have "rtranclp election_step (demo_node 1) (timer_turn 1500 demo_waiting)"
    using election_step.prepare [OF demo_waiting_prepare] election_step.timer
    by (meson rtranclp.rtrancl_into_rtrancl rtranclp.rtrancl_refl)
  from promises_kept [OF this] show ?thesis by (auto simp: promises_given_def)
qed

section \<open>Who starts, who leads, what a reset forgets\<close>

lemma initial_leader_smod:
  assumes "2 \<le> d" "1 \<le> i"
  shows "is_initial_leader d i \<longleftrightarrow> i = range_low d i"
proof -
  have "(i - 1) mod d = 0 \<longleftrightarrow> i mod d = 1"
  proof -
    have "i mod d = 1 \<longleftrightarrow> d dvd i - 1"
      using assms(1) mod_eq_dvd_iff [of i d 1] by simp
    then show ?thesis by (simp add: dvd_eq_mod_eq_0)
  qed
  moreover have "(i - 1) mod d = 0 \<longleftrightarrow> i = (i - 1) div d * d + 1"
    using div_mult_mod_eq [of "i - 1" d] by linarith
  ultimately show ?thesis
    using assms by (simp add: is_initial_leader_def range_low_def)
qed

text \<open>
  A fresh node runs the short bootstrap timeout exactly when it is the first node of its
  cluster, and that is the node its peers take for the cluster's leader. In a cluster of a single
  node nobody bootstraps.
\<close>

theorem bootstrap_node:
  assumes "1 \<le> i" and "1 \<le> k" and "int (length addrs) sdiv k = d" and "1 \<le> d"
    and "cluster_of_node d i \<le> k"
  shows "let n = PaxosNode_init i BACKUP addrs clients smap k now kp in
    (turn_timeout draw n = 70 \<longleftrightarrow>
       2 \<le> d \<and> i = range_lo n \<and> i = cluster_leaders n (cluster_id n)) \<or> draw = 70 - base_timeout"
proof (cases "d = 1")
  case True
  then show ?thesis
    using assms(1-4) by (simp add: PaxosNode_init_def cluster_divisor_def turn_timeout_def
        bootstraps_def is_initial_leader_def Let_def GetRandomizedTimeout_def)
next
  case False
  with assms have d: "2 \<le> d" by simp
  have "range_low d i = initial_leader d (cluster_of_node d i)"
    using range_low_cluster d assms(1) by simp
  moreover have "1 \<le> cluster_of_node d i"
    using d assms(1) by (simp add: cluster_of_node_def pos_imp_zdiv_nonneg_iff)
  ultimately show ?thesis
    using assms initial_leader_smod [OF d assms(1)] d
    by (auto simp: PaxosNode_init_def cluster_divisor_def turn_timeout_def bootstraps_def Let_def
        GetRandomizedTimeout_def)
qed

theorem bootstrap_node_witness:
  "turn_timeout 0 (demo_node 4) = 70 \<and> turn_timeout 0 (demo_node 5) = 1000"
proof -
  have *: "turn_timeout 0 (demo_node i) = 70 \<longleftrightarrow> i = range_lo (demo_node i) \<and>
      i = cluster_leaders (demo_node i) (cluster_id (demo_node i))" if "i \<in> {4, 5}" for i
    using that bootstrap_node [of i 3 "[1, 2, 3, 4, 5, 6, 7, 8, 9]" 3 "[''A'']" demo_shards 1000 True 0]
    by (auto simp: demo_node_def [symmetric] base_timeout_def Let_def)
  have "turn_timeout 0 (demo_node 4) = 70" using * [of 4] by simp
  moreover have "turn_timeout 0 (demo_node 5) \<noteq> 70" using * [of 5] by simp
  ultimately show ?thesis
    by (simp add: turn_timeout_def GetRandomizedTimeout_def base_timeout_def split: if_splits)
qed

text \<open>
  A node that recognises a new leader looks itself up in the table of data items. When the
  item that has the node's number belongs to another cluster, the leader of its own cluster is
  not recorded, and the entry of the other cluster is overwritten by a node outside it.
\<close>

theorem new_leader_in_wrong_slot:
  assumes "shard_map n (node_id n) \<noteq> cluster_id n" and "1 \<le> divisor n"
    and "cluster_of_node (divisor n) leader = cluster_id n"
  shows "cluster_leaders (SetNewLeader leader counter n) (cluster_id n) = cluster_leaders n (cluster_id n) \<and>
    cluster_leaders (SetNewLeader leader counter n) (shard_map n (node_id n)) = leader \<and>
    cluster_of_node (divisor n) leader \<noteq> shard_map n (node_id n)"
  using assms by (simp add: SetNewLeader_def)

theorem new_leader_in_wrong_slot_witness:
  "cluster_leaders (SetNewLeader 5 1 (demo_node 4)) 2 = 4 \<and>
   cluster_leaders (SetNewLeader 5 1 (demo_node 4)) 1 = 5"
  using new_leader_in_wrong_slot [of "demo_node 4" 5 1] by simp

lemma reset_sel [simp]:
  "role (ResetNode n) = BACKUP" "accept_log (ResetNode n) = []" "wal (ResetNode n) = []"
  "leader_id (ResetNode n) = - 1" "executed_entries (ResetNode n) = {}"
  "current_ballot (ResetNode n) = Ballot 0 (node_id n)"
  "highest_promised_ballot (ResetNode n) = Ballot 0 0" "last_seqnum (ResetNode n) = 0"
  "last_executed_seq (ResetNode n) = 0" "max_seqnum_in_new_view (ResetNode n) = 0"
  "entries_to_commit (ResetNode n) = []" "pending_entries (ResetNode n) = Map.empty"
  "pending_client_calls (ResetNode n) = []" "digest_to_seqnum (ResetNode n) = (\<lambda>_. 0)"
  "accepted_count (ResetNode n) = (\<lambda>_ _. {})" "in_election (ResetNode n)"
  "accepted_count_two_pc_commit (ResetNode n) = (\<lambda>_ _. {})" "first_txn_received (ResetNode n)"
  "promises_received (ResetNode n) = {}" "heartbeat_running (ResetNode n) = False"
  "balance_locks (ResetNode n) = balance_locks n"
  "pending_or_completed_ts (ResetNode n) = pending_or_completed_ts n"
  "last_reply_per_client (ResetNode n) = last_reply_per_client n"
  "queued_client_requests (ResetNode n) = queued_client_requests n"
  "prepare_and_aborted_queue (ResetNode n) = prepare_and_aborted_queue n"
  "shard_map (ResetNode n) = shard_map n" "alive (ResetNode n) = alive n"
  "accounts (ResetNode n) = CVec (vsize (accounts n))
     (\<lambda>i. if 1 \<le> i \<and> i \<le> num_items then 10 else balance n i)"
  by (simp_all add: ResetNode_def Let_def StopHeartbeat_def respond_pending_calls_def emits_def
      reset_in_flights_def cong: if_cong)

text \<open>
  A reset returns the replicated state to its start: log, write-ahead log, executed set,
  ballots, counters and quorum counts are those of a new node and every balance is 10. The account
  locks, the table of known timestamps and the queue of undelivered answers survive it.
\<close>

theorem reset_restores_and_forgets:
  assumes "1 \<le> i" and "i \<le> num_items"
  shows "balance (ResetNode n) i = 10 \<and>
    accept_log (ResetNode n) = [] \<and> wal (ResetNode n) = [] \<and> executed_entries (ResetNode n) = {} \<and>
    current_ballot (ResetNode n) = Ballot 0 (node_id n) \<and>
    highest_promised_ballot (ResetNode n) = Ballot 0 0 \<and>
    last_seqnum (ResetNode n) = 0 \<and> last_executed_seq (ResetNode n) = 0 \<and>
    entries_to_commit (ResetNode n) = [] \<and> (\<forall>s c. accepted_count (ResetNode n) s c = {}) \<and>
    locked (ResetNode n) i = locked n i \<and>
    pending_or_completed_ts (ResetNode n) = pending_or_completed_ts n \<and>
    prepare_and_aborted_queue (ResetNode n) = prepare_and_aborted_queue n"
  using assms by simp

theorem reset_restores_and_forgets_witness:
  "balance (ResetNode demo_replica) 1 = 10 \<and> wal (ResetNode demo_replica) = []"
  using reset_restores_and_forgets [of 1 demo_replica] by (simp add: num_items_def)

end
