(* ===== verification/Commit.thy ===== *)
theory Commit
  imports Election Atomicity
begin

text \<open>
  From the acceptance of an entry to its execution (\<^verbatim>\<open>src/paxos_node.cpp\<close>): counting
  acceptances, committing at a quorum, broadcasting the commit, and executing committed entries
  strictly in sequence order. The loop of \<^verbatim>\<open>SequentiallyExecuteCommittedEntries\<close> is
  a recursive function; it ends because every turn executes one more of the finitely many
  committed entries.
\<close>

section \<open>Replies to the client\<close>

definition SendClientReply ::
  "client_call option \<Rightarrow> client_request \<Rightarrow> int \<Rightarrow> bool \<Rightarrow> node \<Rightarrow> exn + node" where
  "SendClientReply call_data fallback_request seq_num success n =
     (let request = (case call_data of Some c \<Rightarrow> call_request c | None \<Rightarrow> fallback_request);
          reply = \<lparr>rp_ballot = current_ballot n, rp_timestamp = cr_timestamp request,
                   rp_client_id = cr_from_account request, rp_success = success,
                   rp_from_this_term = (seq_num > max_seqnum_in_new_view n),
                   rp_read_only_balance = 0\<rparr>
      in
      if \<not> alive n then Inr n
      else if cr_client_id request = ''NO-OP'' then Inr n
      else bindE (call_client client_name reply
             (n\<lparr>last_reply_per_client := (last_reply_per_client n)(cr_from_account request \<mapsto> reply)\<rparr>))
        (\<lambda>n1. Inr (case call_data of
             Some c \<Rightarrow> if seq_num > max_seqnum_in_new_view n1 then respond_client c n1 else n1
           | None \<Rightarrow> n1)))"

definition BroadcastCommit :: "commit_entry \<Rightarrow> node \<Rightarrow> node" where
  "BroadcastCommit entry n = broadcast_cluster (\<lambda>p. CallCommit p entry) n"

section \<open>Executing one committed entry\<close>

text \<open>An outcome already known for the entry is applied right after it.\<close>

definition apply_known_outcome :: "commit_entry \<Rightarrow> node \<Rightarrow> exn + node" where
  "apply_known_outcome entry n =
     (let p2 = (case map_of (accept_log n) (ce_seqnum entry) of
                  Some e \<Rightarrow> ae_phase2_result e | None \<Rightarrow> [])
      in if is_phase2 p2 then
           ExecuteRepeatedTwoPCEntry
             (no_commit\<lparr>ce_seqnum := ce_seqnum entry, ce_two_pc_status := p2,
                        ce_m := ce_request entry\<rparr>) n
         else Inr n)"

text \<open>The leader looks for the waiting client call, except for entries of the new-view log.\<close>

definition take_client_call :: "int \<Rightarrow> node \<Rightarrow> client_call option \<times> node" where
  "take_client_call seqnum n =
     (if max_seqnum_in_new_view n < seqnum then
        (case map_of (pending_client_calls n) seqnum of
           Some c \<Rightarrow> (Some c, n\<lparr>pending_client_calls := omap_erase seqnum (pending_client_calls n),
                               pending_entries := (pending_entries n)(seqnum := None)\<rparr>)
         | None \<Rightarrow> (None, n))
      else (None, n))"

text \<open>The coordinator's leader has executed phase 1: it starts phase 2 if the participant's answer
  is already there.\<close>

definition coordinator_executed :: "int \<Rightarrow> commit_entry \<Rightarrow> client_call option \<Rightarrow> node \<Rightarrow> exn + node" where
  "coordinator_executed now entry call_data n =
     (let n1 = (case call_data of Some c \<Rightarrow> respond_client c n | None \<Rightarrow> n);
          ts = cr_timestamp (ce_request entry)
      in case prepare_and_aborted_queue n1 ts of
           Some msg \<Rightarrow> StartSecondPhase now msg
             (n1\<lparr>prepare_and_aborted_queue := (prepare_and_aborted_queue n1)(ts := None)\<rparr>)
         | None \<Rightarrow> Inr n1)"

definition finish_as_leader :: "int \<Rightarrow> commit_entry \<Rightarrow> string \<Rightarrow> bool \<Rightarrow> node \<Rightarrow> exn + node" where
  "finish_as_leader now entry two_pc_status success n =
     (let (call_data, n1) = take_client_call (ce_seqnum entry) n;
          request = ce_request entry; seqnum = ce_seqnum entry
      in
      if call_data \<noteq> None \<and> two_pc_status \<noteq> ''A'' \<and> two_pc_status \<noteq> ''P'' \<and> two_pc_status \<noteq> ''COORD''
      then SendClientReply call_data request seqnum success n1
      else if two_pc_status = ''A'' \<or> two_pc_status = ''P''
      then SendReplyToCoordLeader call_data request seqnum two_pc_status n1
      else if two_pc_status = ''COORD'' then coordinator_executed now entry call_data n1
      else if cr_client_id request \<noteq> ''NO-OP''
      then SendClientReply None request seqnum success n1
      else if call_data \<noteq> None then SendClientReply call_data request seqnum success n1
      else Inr n1)"

definition finish_as_backup :: "commit_entry \<Rightarrow> node \<Rightarrow> node" where
  "finish_as_backup entry n =
     n\<lparr>pending_entries := (pending_entries n)(ce_seqnum entry := None)\<rparr>"

text \<open>The body of the loop, for the entry found under the next sequence number. The copy it works
  on has no \<^verbatim>\<open>m\<close>.\<close>

definition execute_committed :: "int \<Rightarrow> commit_entry \<Rightarrow> node \<Rightarrow> exn + node" where
  "execute_committed now found n =
     (let entry = no_commit\<lparr>ce_ballot := ce_ballot found, ce_seqnum := ce_seqnum found,
                            ce_request := ce_request found\<rparr>;
          two_pc_status = ce_two_pc_status found
      in
      bindE (ExecuteTransaction (ce_request entry) (ce_seqnum entry) two_pc_status n) (\<lambda>(success, n1).
      bindE (apply_known_outcome entry n1) (\<lambda>n2.
        if role n2 = LEADER then finish_as_leader now entry two_pc_status success n2
        else Inr (finish_as_backup entry n2))))"

section \<open>Frames\<close>

text \<open>Execution keeps the committed entries and the position of the loop.\<close>

definition loop_frame :: "node \<Rightarrow> node \<Rightarrow> bool" where
  "loop_frame n m \<longleftrightarrow>
     entries_to_commit m = entries_to_commit n \<and> last_executed_seq m = last_executed_seq n \<and>
     role m = role n \<and> shard_map m = shard_map n \<and> alive m = alive n \<and>
     accepted_count m = accepted_count n \<and> f_max m = f_max n \<and>
     pending_or_completed_ts m = pending_or_completed_ts n"

lemma loop_frame_refl [simp]: "loop_frame n n"
  by (simp add: loop_frame_def)

lemma loop_frame_trans: "loop_frame a b \<Longrightarrow> loop_frame b c \<Longrightarrow> loop_frame a c"
  by (simp add: loop_frame_def)

lemma exec_frame_loop: "exec_frame n m \<Longrightarrow> loop_frame n m"
proof -
  assume "exec_frame n m"
  then obtain a b c d e where m: "m = n\<lparr>accounts := a, modified_accounts := b, balance_locks := c,
      wal := d, executed_entries := e\<rparr>"
    unfolding exec_frame_def by blast
  show ?thesis by (simp add: loop_frame_def m)
qed

lemma outcome_frame_loop: "outcome_frame n m \<Longrightarrow> loop_frame n m"
proof -
  assume "outcome_frame n m"
  then obtain a b c d e f g h where m: "m = n\<lparr>accept_log := a, accounts := b, balance_locks := c,
      wal := d, modified_accounts := e, executed_entries := f, last_reply_per_client := g,
      outbox := h\<rparr>"
    unfolding outcome_frame_def by blast
  show ?thesis by (simp add: loop_frame_def m)
qed

lemma apply_known_outcome_loop: "apply_known_outcome e n = Inr m \<Longrightarrow> loop_frame n m"
  by (auto simp: apply_known_outcome_def Let_def intro: outcome_frame_loop
      ExecuteRepeatedTwoPCEntry_frame split: if_splits)

lemma SendClientReply_loop: "SendClientReply c r s b n = Inr m \<Longrightarrow> loop_frame n m"
  by (auto simp: SendClientReply_def Let_def call_client_def emit_def respond_client_def
      loop_frame_def exn_simps split: if_splits option.splits)

lemma SendReplyToCoordLeader_loop: "SendReplyToCoordLeader c r s st n = Inr m \<Longrightarrow> loop_frame n m"
  by (auto simp: SendReplyToCoordLeader_def Let_def call_peer_def emit_def respond_client_def
      loop_frame_def exn_simps split: if_splits option.splits)

lemma propose_second_phase_loop: "loop_frame n (propose_second_phase a n)"
  by (simp add: propose_second_phase_def Let_def broadcast_cluster_def emits_def log_put_def
      loop_frame_def)

lemma forward_decision_loop: "forward_decision now msg r b n = Inr m \<Longrightarrow> loop_frame n m"
  by (auto simp: forward_decision_def Let_def call_peer_def emit_def loop_frame_def exn_simps)

lemma StartSecondPhase_loop: "StartSecondPhase now msg n = Inr m \<Longrightarrow> loop_frame n m"
  by (auto simp: StartSecondPhase_def Let_def exn_simps split: if_splits
      dest!: forward_decision_loop intro: loop_frame_trans propose_second_phase_loop)

lemma take_client_call_loop: "take_client_call s n = (c, m) \<Longrightarrow> loop_frame n m"
  by (auto simp: take_client_call_def loop_frame_def split: if_splits option.splits)

lemma coordinator_executed_loop:
  assumes "coordinator_executed now e c n = Inr m" shows "loop_frame n m"
proof -
  define n1 where "n1 = (case c of Some d \<Rightarrow> respond_client d n | None \<Rightarrow> n)"
  have "loop_frame n n1"
    by (auto simp: n1_def respond_client_def emit_def loop_frame_def split: option.split)
  moreover have "loop_frame n1 (n1\<lparr>prepare_and_aborted_queue := q\<rparr>)" for q
    by (simp add: loop_frame_def)
  ultimately show ?thesis
    using assms
    by (auto simp: coordinator_executed_def Let_def n1_def [symmetric] split: option.splits
        dest!: StartSecondPhase_loop intro: loop_frame_trans)
qed

lemma finish_as_leader_loop:
  assumes "finish_as_leader now e st b n = Inr m" shows "loop_frame n m"
proof -
  obtain c n1 where t: "take_client_call (ce_seqnum e) n = (c, n1)" by fastforce
  then have "loop_frame n1 m"
    using assms by (auto simp: finish_as_leader_def Let_def split: if_splits
        dest: SendClientReply_loop SendReplyToCoordLeader_loop coordinator_executed_loop)
  with take_client_call_loop [OF t] show ?thesis by (rule loop_frame_trans)
qed

lemma execute_committed_loop:
  assumes "execute_committed now f n = Inr m" shows "loop_frame n m"
  using assms
  by (auto simp: execute_committed_def Let_def exn_simps finish_as_backup_def split: if_splits
      dest!: ExecuteTransaction_frame exec_frame_loop apply_known_outcome_loop finish_as_leader_loop
      intro: loop_frame_trans) (auto simp: loop_frame_def)

section \<open>The loop\<close>

lemma bindE_cong [fundef_cong]:
  "m = m' \<Longrightarrow> (\<And>a. m' = Inr a \<Longrightarrow> f a = g a) \<Longrightarrow> bindE m f = bindE m' g"
  by (cases m') auto

definition left_to_execute :: "node \<Rightarrow> int set" where
  "left_to_execute n = {k \<in> fst ` set (entries_to_commit n). last_executed_seq n < k}"

lemma finite_left [simp]: "finite (left_to_execute n)"
  by (simp add: left_to_execute_def)

lemma left_to_execute_step:
  assumes "map_of (entries_to_commit n) (last_executed_seq n + 1) = Some e"
    and "loop_frame (n\<lparr>last_executed_seq := last_executed_seq n + 1\<rparr>) m"
  shows "left_to_execute m \<subset> left_to_execute n"
proof -
  have "last_executed_seq n + 1 \<in> left_to_execute n"
    using assms(1) by (force simp: left_to_execute_def dest: map_of_SomeD)
  moreover have "last_executed_seq n + 1 \<notin> left_to_execute m" "left_to_execute m \<subseteq> left_to_execute n"
    using assms(2) by (auto simp: left_to_execute_def loop_frame_def)
  ultimately show ?thesis by blast
qed

function SequentiallyExecuteCommittedEntries :: "int \<Rightarrow> node \<Rightarrow> exn + node" where
  "SequentiallyExecuteCommittedEntries now n =
     (case map_of (entries_to_commit n) (last_executed_seq n + 1) of
        None \<Rightarrow> Inr n
      | Some found \<Rightarrow>
          bindE (execute_committed now found (n\<lparr>last_executed_seq := last_executed_seq n + 1\<rparr>))
            (SequentiallyExecuteCommittedEntries now))"
  by pat_completeness auto

termination
proof (relation "measure (\<lambda>(now, n). card (left_to_execute n))")
  fix now :: int and n found m
  assume "map_of (entries_to_commit n) (last_executed_seq n + 1) = Some found"
    and "execute_committed now found (n\<lparr>last_executed_seq := last_executed_seq n + 1\<rparr>) = Inr m"
  then have "left_to_execute m \<subset> left_to_execute n"
    by (intro left_to_execute_step execute_committed_loop)
  then show "((now, m), now, n) \<in> measure (\<lambda>(now, n). card (left_to_execute n))"
    by (simp add: psubset_card_mono)
qed simp

declare SequentiallyExecuteCommittedEntries.simps [simp del]

lemmas exec_loop_step = SequentiallyExecuteCommittedEntries.simps

section \<open>Committing\<close>

text \<open>What \<^verbatim>\<open>CommitEntry\<close> builds from the pending entry, or from the log when there is
  none.\<close>

definition entry_for_commit :: "ack \<Rightarrow> accepted_entry \<Rightarrow> commit_entry" where
  "entry_for_commit a src =
     no_commit\<lparr>ce_ballot := ae_ballot src, ce_seqnum := ae_seqnum src, ce_request := ae_request src,
       ce_two_pc_status := ak_status a, ce_m := ae_m src\<rparr>"

definition remember_commit :: "int \<Rightarrow> commit_entry \<Rightarrow> node \<Rightarrow> node" where
  "remember_commit seqnum entry n =
     (if map_of (entries_to_commit n) seqnum = None
      then n\<lparr>entries_to_commit := omap_put seqnum entry (entries_to_commit n)\<rparr> else n)"

definition CommitEntry :: "int \<Rightarrow> ack \<Rightarrow> node \<Rightarrow> exn + node" where
  "CommitEntry now a n =
     (let seqnum = ak_seqnum a;
          (src, n1) = (case pending_entries n seqnum of
                         Some e \<Rightarrow> (e, n) | None \<Rightarrow> accept_log_at seqnum n);
          entry = entry_for_commit a src;
          n2 = BroadcastCommit entry (remember_commit seqnum entry n1)
      in
      if last_executed_seq n2 + 1 = seqnum then SequentiallyExecuteCommittedEntries now n2
      else if ak_phase a = 2 then ExecuteRepeatedTwoPCEntry entry n2
      else Inr n2)"

definition commit_line :: "commit_entry \<Rightarrow> string" where
  "commit_line request =
     ''<COMMIT, '' @ ballot_ToString (ce_ballot request) @ '', '' @ to_string (ce_seqnum request) @
     '' ('' @ cr_from_account (ce_request request) @ '', '' @ cr_to_account (ce_request request) @
     '', '' @ to_string_real (cr_amount (ce_request request)) @ '')> '' @ newline"

definition HandleCommit :: "int \<Rightarrow> commit_entry \<Rightarrow> node \<Rightarrow> exn + node" where
  "HandleCommit now request n =
     (if \<not> alive n then Inr n
      else
        let n1 = plog (commit_line request) n;
            n2 = (if role n1 = BACKUP then ResetElectionTimer now n1 else n1);
            n3 = remember_commit (ce_seqnum request) request n2
        in
        if is_phase2 (ce_two_pc_status request) then ExecuteRepeatedTwoPCEntry request n3
        else if last_executed_seq n3 + 1 = ce_seqnum request \<and>
                ce_seqnum request \<notin> executed_entries n3
        then SequentiallyExecuteCommittedEntries now n3
        else Inr n3)"

section \<open>Counting acceptances\<close>

definition accepted_line :: "ack \<Rightarrow> client_request \<Rightarrow> string" where
  "accepted_line a req =
     ''<ACCEPTED, '' @ ballot_string_spaced (ak_ballot a) @ '', '' @ to_string (ak_seqnum a) @
     '', ('' @ cr_from_account req @ '', '' @ cr_to_account req @ '', '' @
     to_string_real (cr_amount req) @ ''), '' @ to_string (ak_node_id a) @ ''> '' @ newline"

text \<open>Count the acceptance, then ask whether exactly \<^verbatim>\<open>f_ + 1\<close> nodes have accepted.\<close>

definition count_phase2 :: "ack \<Rightarrow> node \<Rightarrow> node" where
  "count_phase2 a n = n\<lparr>accepted_count_two_pc_commit :=
     count_insert (ak_seqnum a) (b_counter (ak_ballot a)) (ak_node_id a)
       (accepted_count_two_pc_commit n)\<rparr>"

definition count_phase1 :: "ack \<Rightarrow> node \<Rightarrow> node" where
  "count_phase1 a n = n\<lparr>accepted_count :=
     count_insert (ak_seqnum a) (b_counter (ak_ballot a)) (ak_node_id a) (accepted_count n)\<rparr>"

definition quorum_phase2 :: "ack \<Rightarrow> node \<Rightarrow> bool" where
  "quorum_phase2 a n \<longleftrightarrow>
     int (card (accepted_count_two_pc_commit n (ak_seqnum a) (b_counter (ak_ballot a)))) = f_max n + 1"

definition quorum_phase1 :: "ack \<Rightarrow> node \<Rightarrow> bool" where
  "quorum_phase1 a n \<longleftrightarrow>
     (let condition_q = (int (card (accepted_count n (ak_seqnum a) (b_counter (ak_ballot a)))) = f_max n + 1)
      in (condition_q \<and> map_of (entries_to_commit n) (ak_seqnum a) = None) \<or>
         (ak_seqnum a \<le> max_seqnum_in_new_view n \<and> condition_q))"

definition HandleAccept :: "int \<Rightarrow> ack \<Rightarrow> node \<Rightarrow> exn + node" where
  "HandleAccept now a n =
     (if \<not> alive n then Inr n
      else if \<not> ak_accepted a then Inr n
      else if role n \<noteq> LEADER then Inr n
      else
        let n1 = (case map_of (accept_log n) (ak_seqnum a) of
                    Some e \<Rightarrow> plog (accepted_line a (ae_request e)) n | None \<Rightarrow> n);
            in_log = (map_of (accept_log n1) (ak_seqnum a) \<noteq> None)
        in
        if in_log \<and> ak_phase a = 2 then
          let n2 = count_phase2 a n1 in
          if quorum_phase2 a n2 then CommitEntry now a n2 else Inr n2
        else if ak_phase a \<noteq> 2 then
          let n2 = count_phase1 a n1 in
          if quorum_phase1 a n2 then CommitEntry now a n2 else Inr n2
        else Inr n1)"

section \<open>The loop runs the contiguous prefix, in order\<close>

definition execute_at :: "int \<Rightarrow> int \<Rightarrow> node \<Rightarrow> exn + node" where
  "execute_at now s n =
     (case map_of (entries_to_commit n) s of
        Some f \<Rightarrow> execute_committed now f (n\<lparr>last_executed_seq := s\<rparr>)
      | None \<Rightarrow> Inr n)"

lemma execute_at_loop:
  assumes "execute_at now s n = Inr m" and "map_of (entries_to_commit n) s \<noteq> None"
  shows "loop_frame (n\<lparr>last_executed_seq := s\<rparr>) m"
  using assms by (auto simp: execute_at_def dest: execute_committed_loop)

lemma exec_loop_stop:
  "map_of (entries_to_commit n) (last_executed_seq n + 1) = None \<Longrightarrow>
   SequentiallyExecuteCommittedEntries now n = Inr n"
  by (subst exec_loop_step) simp

lemma exec_loop_go:
  "map_of (entries_to_commit n) (last_executed_seq n + 1) = Some f \<Longrightarrow>
   SequentiallyExecuteCommittedEntries now n =
     bindE (execute_at now (last_executed_seq n + 1) n) (SequentiallyExecuteCommittedEntries now)"
  by (subst exec_loop_step) (simp add: execute_at_def)

text \<open>
  C12: the execution loop performs exactly the contiguous run of committed entries that follows
  the last executed one, in increasing sequence order, and stops at the first gap.
\<close>

theorem loop_executes_prefix:
  assumes "\<forall>s. last_executed_seq n < s \<and> s \<le> last_executed_seq n + int k \<longrightarrow>
      map_of (entries_to_commit n) s \<noteq> None"
    and "map_of (entries_to_commit n) (last_executed_seq n + int k + 1) = None"
  shows "SequentiallyExecuteCommittedEntries now n =
    foldE (execute_at now) [last_executed_seq n + 1..last_executed_seq n + int k] n"
  using assms
proof (induction k arbitrary: n)
  case 0
  then show ?case by (simp add: exec_loop_stop)
next
  case (Suc k)
  let ?l = "last_executed_seq n"
  have up: "[?l + 1..?l + int (Suc k)] = (?l + 1) # [?l + 2..?l + int (Suc k)]"
    by (simp add: upto_rec1 add.commute)
  obtain f where f: "map_of (entries_to_commit n) (?l + 1) = Some f"
    using Suc.prems(1) by fastforce
  show ?case
  proof (cases "execute_at now (?l + 1) n")
    case (Inl e)
    then show ?thesis unfolding up by (simp add: exec_loop_go [OF f])
  next
    case (Inr m)
    have fr: "loop_frame (n\<lparr>last_executed_seq := ?l + 1\<rparr>) m"
      using execute_at_loop [OF Inr] f by simp
    then have "last_executed_seq m = ?l + 1" "entries_to_commit m = entries_to_commit n"
      by (simp_all add: loop_frame_def)
    then have "SequentiallyExecuteCommittedEntries now m =
        foldE (execute_at now) [?l + 2..?l + int (Suc k)] m"
      using Suc.IH [of m] Suc.prems by (simp add: algebra_simps)
    then show ?thesis unfolding up by (simp add: exec_loop_go [OF f] Inr)
  qed
qed

text \<open>A backup with entries 1, 2 and 4 committed.\<close>

definition demo_commit :: "int \<Rightarrow> string \<Rightarrow> client_request \<Rightarrow> commit_entry" where
  "demo_commit seq status req =
     no_commit\<lparr>ce_ballot := Ballot 1 1, ce_seqnum := seq, ce_request := req, ce_two_pc_status := status,
       ce_m := (if status = [] then no_request else req)\<rparr>"

lemma demo_commit_sel [simp]:
  "ce_seqnum (demo_commit seq status req) = seq" "ce_request (demo_commit seq status req) = req"
  "ce_two_pc_status (demo_commit seq status req) = status"
  "ce_ballot (demo_commit seq status req) = Ballot 1 1"
  "status \<noteq> [] \<Longrightarrow> ce_m (demo_commit seq status req) = req"
  by (simp_all add: demo_commit_def no_commit_def)

definition demo_committed :: node where
  "demo_committed = (demo_node 2)\<lparr>entries_to_commit :=
     [(1, demo_commit 1 [] (demo_request ''1'' ''2'' 4 7)),
      (2, demo_commit 2 [] (demo_request ''2'' ''3'' 14 8)),
      (4, demo_commit 4 [] (demo_request ''3'' ''4'' 1 9))]\<rparr>"

theorem loop_executes_prefix_witness:
  "\<exists>m. SequentiallyExecuteCommittedEntries 0 demo_committed = Inr m \<and> last_executed_seq m = 2 \<and>
     balance m 1 = 6 \<and> balance m 2 = 0 \<and> balance m 3 = 24"
proof -
  have "\<forall>s. 0 < s \<and> s \<le> (2::int) \<longrightarrow> s = 1 \<or> s = 2" by auto
  then have "SequentiallyExecuteCommittedEntries 0 demo_committed =
      foldE (execute_at 0) [0 + 1..0 + int 2] demo_committed"
    using loop_executes_prefix [of demo_committed 2 0] by (auto simp: demo_committed_def)
  also have "[0 + 1..0 + int 2] = [1, 2]" by (simp add: upto.simps)
  finally show ?thesis
    by (simp add: demo_committed_def execute_at_def execute_committed_def exec_intra [of _ 1 2] exec_intra [of _ 2 3] Let_def
        valid_accounts_def transferred_def apply_known_outcome_def finish_as_backup_def no_commit_def)
qed

lemma loop_result:
  assumes "SequentiallyExecuteCommittedEntries now n = Inr m"
  shows "last_executed_seq n \<le> last_executed_seq m \<and> entries_to_commit m = entries_to_commit n \<and>
    (\<forall>s. last_executed_seq n < s \<and> s \<le> last_executed_seq m \<longrightarrow>
       map_of (entries_to_commit n) s \<noteq> None) \<and>
    map_of (entries_to_commit n) (last_executed_seq m + 1) = None"
  using assms
proof (induction now n rule: SequentiallyExecuteCommittedEntries.induct)
  case (1 now n)
  let ?l = "last_executed_seq n"
  show ?case
  proof (cases "map_of (entries_to_commit n) (?l + 1)")
    case None
    with 1(2) show ?thesis by (auto simp: exec_loop_stop)
  next
    case (Some f)
    from 1(2) Some obtain k where
      k: "execute_committed now f (n\<lparr>last_executed_seq := ?l + 1\<rparr>) = Inr k"
      "SequentiallyExecuteCommittedEntries now k = Inr m"
      by (subst (asm) exec_loop_step) (auto elim: bindE_InrE)
    have "loop_frame (n\<lparr>last_executed_seq := ?l + 1\<rparr>) k" by (rule execute_committed_loop [OF k(1)])
    then have "last_executed_seq k = ?l + 1" "entries_to_commit k = entries_to_commit n"
      by (simp_all add: loop_frame_def)
    note ih = 1(1) [OF Some k(1,2), unfolded this]
    have "map_of (entries_to_commit n) s \<noteq> None" if "?l < s" "s \<le> last_executed_seq m" for s
      using ih Some that by (cases "s = ?l + 1") auto
    with ih show ?thesis by auto
  qed
qed

section \<open>The order in which commits arrive\<close>

text \<open>
  The replicated part of a replica: its balances, locks and write-ahead log, under its table of
  shards. Executing the same entry on replicas that agree there leaves them in agreement.
\<close>

definition same_ledger :: "node \<Rightarrow> node \<Rightarrow> bool" where
  "same_ledger n m \<longleftrightarrow>
     accounts m = accounts n \<and> balance_locks m = balance_locks n \<and> wal m = wal n \<and>
     shard_map m = shard_map n"

lemma same_ledger_refl [simp]: "same_ledger n n"
  by (simp add: same_ledger_def)

lemma same_ledger_sym: "same_ledger n m \<Longrightarrow> same_ledger m n"
  by (simp add: same_ledger_def)

lemma same_ledger_trans: "same_ledger a b \<Longrightarrow> same_ledger b c \<Longrightarrow> same_ledger a c"
  by (simp add: same_ledger_def)

text \<open>Two failing computations in step: the same failure, or related results.\<close>

abbreviation in_step :: "('a \<Rightarrow> 'b \<Rightarrow> bool) \<Rightarrow> exn + 'a \<Rightarrow> exn + 'b \<Rightarrow> bool" where
  "in_step \<equiv> rel_sum (=)"

lemma in_step_bind:
  "in_step R m m' \<Longrightarrow> (\<And>a b. R a b \<Longrightarrow> in_step S (f a) (g b)) \<Longrightarrow>
   in_step S (bindE m f) (bindE m' g)"
  by (cases m; cases m') auto

lemma in_step_bind_same:
  "(\<And>a. in_step S (f a) (g a)) \<Longrightarrow> in_step S (bindE m f) (bindE m g)"
  by (cases m) auto

lemma in_step_if:
  "(b \<Longrightarrow> in_step R x x') \<Longrightarrow> (\<not> b \<Longrightarrow> in_step R y y') \<Longrightarrow>
   in_step R (if b then x else y) (if b then x' else y')"
  by auto

lemma in_step_Inr: "in_step R m m' \<Longrightarrow> m = Inr a \<Longrightarrow> \<exists>b. m' = Inr b \<and> R a b"
  by (cases m') auto

lemma same_ledger_marks:
  assumes "same_ledger n n'"
  shows "same_ledger (mark_executed s n) (mark_executed s n')"
    "same_ledger (mark_modified is n) (mark_modified is n')"
  using assms by (simp_all add: same_ledger_def mark_executed_def mark_modified_def)

lemma unlock_both_ledger:
  "same_ledger n n' \<Longrightarrow> in_step same_ledger (unlock_both a b n) (unlock_both a b n')"
  by (auto simp: unlock_both_def unlock_def bindE_def vec_set_def same_ledger_def)

lemma move_balance_ledger:
  "same_ledger n n' \<Longrightarrow> in_step same_ledger (move_balance a b x n) (move_balance a b x n')"
  by (auto simp: move_balance_def get_account_def set_account_def bindE_def vec_set_def vec_get_def
      same_ledger_def)

lemma logged_change_ledger:
  "same_ledger n n' \<Longrightarrow> in_step same_ledger (logged_change s a x n) (logged_change s a x n')"
  by (auto simp: logged_change_def get_account_def set_account_def bindE_def vec_set_def vec_get_def
      same_ledger_def wal_put_def mark_modified_def)

lemma ExecuteTransaction_ledger:
  assumes "same_ledger n n'"
  shows "in_step (\<lambda>(b, m) (b', m'). b' = b \<and> same_ledger m m')
    (ExecuteTransaction req seq st n) (ExecuteTransaction req seq st n')"
proof -
  have eq: "accounts n' = accounts n" "shard_map n' = shard_map n"
    using assms by (simp_all add: same_ledger_def)
  show ?thesis
    unfolding ExecuteTransaction_def get_account_def Let_def eq
  proof (intro in_step_bind_same in_step_if)
    fix "from" "to" balance
    show "in_step (\<lambda>(b, m) (b', m'). b' = b \<and> same_ledger m m')
      (bindE (if shard_map n to = shard_map n from then unlock_both from to (mark_executed seq n)
              else Inr (mark_executed seq n)) (\<lambda>n1. Inr (False, n1)))
      (bindE (if shard_map n to = shard_map n from then unlock_both from to (mark_executed seq n')
              else Inr (mark_executed seq n')) (\<lambda>n1. Inr (False, n1)))"
      by (rule in_step_bind [where R = same_ledger], rule in_step_if)
        (simp_all add: unlock_both_ledger same_ledger_marks assms)
  next
    fix "from" "to" balance
    let ?move = "\<lambda>n. bindE (move_balance from to (cr_amount req) n)
      (\<lambda>n1. unlock_both from to (mark_modified [from, to] n1))"
    have move: "in_step same_ledger (?move n) (?move n')"
      using assms by (intro in_step_bind [OF move_balance_ledger] unlock_both_ledger same_ledger_marks)
    show "in_step (\<lambda>(b, m) (b', m'). b' = b \<and> same_ledger m m')
      (bindE (if shard_map n to = shard_map n from then ?move n
              else if st = ''P'' then logged_change seq to (cr_amount req) n
              else if st = ''COORD'' then logged_change seq from (- cr_amount req) n else Inr n)
         (\<lambda>n2. Inr (True, mark_executed seq n2)))
      (bindE (if shard_map n to = shard_map n from then ?move n'
              else if st = ''P'' then logged_change seq to (cr_amount req) n'
              else if st = ''COORD'' then logged_change seq from (- cr_amount req) n' else Inr n')
         (\<lambda>n2. Inr (True, mark_executed seq n2)))"
    proof (rule in_step_bind [where R = same_ledger])
      show "in_step same_ledger
          (if shard_map n to = shard_map n from then ?move n
           else if st = ''P'' then logged_change seq to (cr_amount req) n
           else if st = ''COORD'' then logged_change seq from (- cr_amount req) n else Inr n)
          (if shard_map n to = shard_map n from then ?move n'
           else if st = ''P'' then logged_change seq to (cr_amount req) n'
           else if st = ''COORD'' then logged_change seq from (- cr_amount req) n' else Inr n')"
        by (intro in_step_if move logged_change_ledger assms) (simp add: assms)
    qed (simp add: same_ledger_marks)
  qed (use assms in \<open>simp_all add: same_ledger_marks\<close>)
qed

definition replay_entry :: "(int \<Rightarrow> commit_entry option) \<Rightarrow> int \<Rightarrow> node \<Rightarrow> exn + node" where
  "replay_entry look s n =
     (case look s of
        Some f \<Rightarrow> bindE (ExecuteTransaction (ce_request f) (ce_seqnum f) (ce_two_pc_status f) n)
                    (\<lambda>r. Inr (snd r))
      | None \<Rightarrow> Inr n)"

text \<open>The specification: execute the entries of an interval on a ledger, one after the other.\<close>

definition replay :: "(int \<Rightarrow> commit_entry option) \<Rightarrow> int list \<Rightarrow> node \<Rightarrow> exn + node" where
  "replay look = foldE (replay_entry look)"

lemma replay_cong:
  "(\<And>s. s \<in> set ss \<Longrightarrow> look s = look' s) \<Longrightarrow> replay look ss n = replay look' ss n"
  by (induction ss arbitrary: n) (auto simp: replay_def replay_entry_def intro!: arg_cong2 [where f = bindE])

lemma replay_append: "replay look (xs @ ys) n = bindE (replay look xs n) (replay look ys)"
  by (simp add: replay_def foldE_append)

definition no_outcomes :: "node \<Rightarrow> bool" where
  "no_outcomes n \<longleftrightarrow> (\<forall>s. \<not> outcome_known s n)"

lemma no_outcomes_log: "accept_log m = accept_log n \<Longrightarrow> no_outcomes m = no_outcomes n"
  by (simp add: no_outcomes_def outcome_known_def log_lookup_def)

lemma no_outcomes_apply: "no_outcomes n \<Longrightarrow> apply_known_outcome e n = Inr n"
  by (auto simp: no_outcomes_def outcome_known_def log_lookup_def apply_known_outcome_def Let_def
      split: option.splits dest: spec [of _ "ce_seqnum e"])

lemma exec_frame_sel:
  assumes "exec_frame n m"
  shows "accept_log m = accept_log n" "role m = role n" "alive m = alive n"
    "shard_map m = shard_map n" "last_executed_seq m = last_executed_seq n"
proof -
  from assms obtain a b c d e where m: "m = n\<lparr>accounts := a, modified_accounts := b,
      balance_locks := c, wal := d, executed_entries := e\<rparr>"
    unfolding exec_frame_def by blast
  show "accept_log m = accept_log n" "role m = role n" "alive m = alive n"
    "shard_map m = shard_map n" "last_executed_seq m = last_executed_seq n"
    by (simp_all add: m)
qed

lemma ExecuteTransaction_executed_sub:
  "ExecuteTransaction req seq st n = Inr (b, m) \<Longrightarrow>
   executed_entries m \<subseteq> insert seq (executed_entries n)"
  by (erule ExecuteTransaction_cases) (auto simp: mark_executed_def transferred_def prepared_def)

lemma backup_execute:
  assumes "execute_committed now f n = Inr m" and "role n = BACKUP" and "no_outcomes n"
  obtains b k where
    "ExecuteTransaction (ce_request f) (ce_seqnum f) (ce_two_pc_status f) n = Inr (b, k)"
    and "same_ledger k m" and "accept_log m = accept_log n" and "role m = BACKUP"
    and "alive m = alive n" and "executed_entries m \<subseteq> insert (ce_seqnum f) (executed_entries n)"
proof -
  let ?e = "no_commit\<lparr>ce_ballot := ce_ballot f, ce_seqnum := ce_seqnum f, ce_request := ce_request f\<rparr>"
  from assms(1) obtain b k where
    x: "ExecuteTransaction (ce_request f) (ce_seqnum f) (ce_two_pc_status f) n = Inr (b, k)"
    and rest: "bindE (apply_known_outcome ?e k) (\<lambda>n2. if role n2 = LEADER
        then finish_as_leader now ?e (ce_two_pc_status f) b n2 else Inr (finish_as_backup ?e n2)) = Inr m"
    by (auto simp: execute_committed_def Let_def elim!: bindE_InrE)
  note fr = exec_frame_sel [OF ExecuteTransaction_frame [OF x]]
  have "apply_known_outcome ?e k = Inr k"
    using assms(3) fr(1) no_outcomes_log by (intro no_outcomes_apply) blast
  with rest fr(2) assms(2) have m: "m = finish_as_backup ?e k" by simp
  show thesis
    using ExecuteTransaction_executed_sub [OF x] fr assms(2)
    by (intro that [OF x]) (auto simp: m finish_as_backup_def same_ledger_def)
qed

lemma backup_loop:
  assumes "SequentiallyExecuteCommittedEntries now n = Inr m" and "role n = BACKUP"
    and "no_outcomes n" and "\<forall>s f. map_of (entries_to_commit n) s = Some f \<longrightarrow> ce_seqnum f = s"
    and "same_ledger n r"
  shows "(\<exists>r'. replay (map_of (entries_to_commit n)) [last_executed_seq n + 1..last_executed_seq m] r
        = Inr r' \<and> same_ledger m r') \<and>
    accept_log m = accept_log n \<and> role m = BACKUP \<and> alive m = alive n \<and>
    executed_entries m \<subseteq> executed_entries n \<union> {last_executed_seq n + 1..last_executed_seq m}"
  using assms
proof (induction now n arbitrary: r rule: SequentiallyExecuteCommittedEntries.induct)
  case (1 now n)
  let ?l = "last_executed_seq n" and ?look = "map_of (entries_to_commit n)"
  let ?n = "n\<lparr>last_executed_seq := ?l + 1\<rparr>"
  show ?case
  proof (cases "?look (?l + 1)")
    case None
    with "1.prems" show ?thesis by (auto simp: exec_loop_stop replay_def)
  next
    case (Some f)
    from "1.prems"(1) Some obtain k where
      k: "execute_committed now f ?n = Inr k" "SequentiallyExecuteCommittedEntries now k = Inr m"
      by (subst (asm) exec_loop_step) (auto elim: bindE_InrE)
    have fr: "last_executed_seq k = ?l + 1" "entries_to_commit k = entries_to_commit n"
      using execute_committed_loop [OF k(1)] by (simp_all add: loop_frame_def)
    have no: "no_outcomes ?n" using "1.prems"(3) no_outcomes_log [of ?n n] by simp
    from "1.prems"(2) have "role ?n = BACKUP" by simp
    from backup_execute [OF k(1) this no] obtain b u where
      u: "ExecuteTransaction (ce_request f) (ce_seqnum f) (ce_two_pc_status f) ?n = Inr (b, u)"
        "same_ledger u k" "accept_log k = accept_log n" "role k = BACKUP" "alive k = alive n"
        "executed_entries k \<subseteq> insert (ce_seqnum f) (executed_entries n)" by auto
    have led: "same_ledger ?n r" using "1.prems"(5) by (simp add: same_ledger_def)
    obtain u' where u': "ExecuteTransaction (ce_request f) (ce_seqnum f) (ce_two_pc_status f) r = Inr (b, u')"
        "same_ledger u u'"
      using in_step_Inr [OF ExecuteTransaction_ledger [OF led] u(1)] by auto
    have "same_ledger k u'"
      using u'(2) u(2) by (meson same_ledger_sym same_ledger_trans)
    moreover have "no_outcomes k" using "1.prems"(3) u(3) no_outcomes_log by blast
    moreover have "\<forall>s g. map_of (entries_to_commit k) s = Some g \<longrightarrow> ce_seqnum g = s"
      using "1.prems"(4) fr(2) by simp
    ultimately have ih: "(\<exists>r'. replay ?look [?l + 2..last_executed_seq m] u' = Inr r' \<and> same_ledger m r') \<and>
        accept_log m = accept_log k \<and> role m = BACKUP \<and> alive m = alive k \<and>
        executed_entries m \<subseteq> executed_entries k \<union> {?l + 2..last_executed_seq m}"
      using "1.IH" [OF Some k(1) k(2) u(4)] fr by (simp add: add.assoc)
    have le: "?l + 1 \<le> last_executed_seq m" using loop_result [OF k(2)] fr(1) by simp
    then have "[?l + 1..last_executed_seq m] = (?l + 1) # [?l + 2..last_executed_seq m]"
      by (simp add: upto_rec1 add.assoc)
    then have "\<exists>r'. replay ?look [?l + 1..last_executed_seq m] r = Inr r' \<and> same_ledger m r'"
      using ih Some u' by (simp add: replay_def replay_entry_def)
    moreover have "ce_seqnum f = ?l + 1" using "1.prems"(4) Some by blast
    then have "executed_entries k \<subseteq> insert (?l + 1) (executed_entries n)" using u(6) by simp
    then have "executed_entries m \<subseteq> insert (?l + 1) (executed_entries n) \<union> {?l + 2..last_executed_seq m}"
      using ih by blast
    then have "executed_entries m \<subseteq> executed_entries n \<union> {?l + 1..last_executed_seq m}"
      using le by fastforce
    ultimately show ?thesis using ih u(3,5) by simp
  qed
qed

text \<open>The first commit delivered for a sequence number.\<close>

definition first_commit :: "commit_entry list \<Rightarrow> int \<Rightarrow> commit_entry option" where
  "first_commit es s = find (\<lambda>e. ce_seqnum e = s) es"

lemma first_commit_snoc:
  "first_commit (es @ [e]) s =
     (case first_commit es s of Some f \<Rightarrow> Some f | None \<Rightarrow> if ce_seqnum e = s then Some e else None)"
  unfolding first_commit_def by (induction es) simp_all

lemma first_commit_seqnum: "first_commit es s = Some f \<Longrightarrow> ce_seqnum f = s \<and> f \<in> set es"
  unfolding first_commit_def by (auto simp: find_Some_iff)

lemma first_commit_set:
  assumes "set es = set es'" and "inj_on ce_seqnum (set es)"
  shows "first_commit es s = first_commit es' s"
proof (cases "first_commit es s")
  case None
  then have "\<forall>e\<in>set es. ce_seqnum e \<noteq> s" by (simp add: first_commit_def find_None_iff)
  then have "first_commit es' s = None" using assms(1) by (simp add: first_commit_def find_None_iff)
  with None show ?thesis by simp
next
  case (Some f)
  then have f: "f \<in> set es'" "ce_seqnum f = s" using first_commit_seqnum assms(1) by auto
  then have "first_commit es' s \<noteq> None" by (auto simp: first_commit_def find_None_iff)
  then obtain g where "first_commit es' s = Some g" by blast
  with f Some assms show ?thesis
    by (metis first_commit_seqnum inj_onD)
qed

text \<open>A backup that has just caught up to \<open>l\<close>, and the invariant of delivering commits to it.\<close>

definition caught_up :: "int \<Rightarrow> node \<Rightarrow> bool" where
  "caught_up l n \<longleftrightarrow>
     alive n \<and> role n = BACKUP \<and> no_outcomes n \<and> entries_to_commit n = [] \<and>
     last_executed_seq n = l \<and> executed_entries n \<subseteq> {..l}"

definition delivered :: "int \<Rightarrow> node \<Rightarrow> commit_entry list \<Rightarrow> node \<Rightarrow> bool" where
  "delivered l r es n \<longleftrightarrow>
     alive n \<and> role n = BACKUP \<and> no_outcomes n \<and>
     map_of (entries_to_commit n) = first_commit es \<and>
     l \<le> last_executed_seq n \<and> executed_entries n \<subseteq> {..last_executed_seq n} \<and>
     (\<forall>s. l < s \<and> s \<le> last_executed_seq n \<longrightarrow> first_commit es s \<noteq> None) \<and>
     first_commit es (last_executed_seq n + 1) = None \<and>
     (\<exists>r'. replay (first_commit es) [l + 1..last_executed_seq n] r = Inr r' \<and> same_ledger n r')"

lemma delivered_Nil: "caught_up l n \<Longrightarrow> same_ledger n r \<Longrightarrow> delivered l r [] n"
  by (auto simp: caught_up_def delivered_def first_commit_def replay_def)

lemma remember_commit_sel [simp]:
  "alive (remember_commit s e n) = alive n" "role (remember_commit s e n) = role n"
  "accept_log (remember_commit s e n) = accept_log n"
  "last_executed_seq (remember_commit s e n) = last_executed_seq n"
  "executed_entries (remember_commit s e n) = executed_entries n"
  "accounts (remember_commit s e n) = accounts n" "wal (remember_commit s e n) = wal n"
  "balance_locks (remember_commit s e n) = balance_locks n"
  "shard_map (remember_commit s e n) = shard_map n"
  "map_of (entries_to_commit (remember_commit s e n)) =
     (if map_of (entries_to_commit n) s = None
      then (map_of (entries_to_commit n))(s \<mapsto> e) else map_of (entries_to_commit n))"
  by (simp_all add: remember_commit_def)

text \<open>What delivering keeps before the loop has run: all but the gap after the last executed entry.\<close>

definition stored :: "int \<Rightarrow> node \<Rightarrow> commit_entry list \<Rightarrow> node \<Rightarrow> bool" where
  "stored l r es n \<longleftrightarrow>
     alive n \<and> role n = BACKUP \<and> no_outcomes n \<and>
     map_of (entries_to_commit n) = first_commit es \<and>
     l \<le> last_executed_seq n \<and> executed_entries n \<subseteq> {..last_executed_seq n} \<and>
     (\<forall>s. l < s \<and> s \<le> last_executed_seq n \<longrightarrow> first_commit es s \<noteq> None) \<and>
     (\<exists>r'. replay (first_commit es) [l + 1..last_executed_seq n] r = Inr r' \<and> same_ledger n r')"

lemma delivered_iff:
  "delivered l r es n \<longleftrightarrow> stored l r es n \<and> first_commit es (last_executed_seq n + 1) = None"
  unfolding delivered_def stored_def by blast

lemma stored_snoc:
  assumes "stored l r es n"
  shows "stored l r (es @ [e]) (remember_commit (ce_seqnum e) e (ResetElectionTimer now (plog line n)))"
    (is "stored _ _ _ ?m")
proof -
  have n: "alive n" "role n = BACKUP" "map_of (entries_to_commit n) = first_commit es"
    using assms by (simp_all add: stored_def)
  have m: "alive ?m" "role ?m = BACKUP" "accept_log ?m = accept_log n"
      "last_executed_seq ?m = last_executed_seq n" "executed_entries ?m = executed_entries n" "same_ledger n ?m"
    using n by (simp_all only: same_ledger_def remember_commit_sel ResetElectionTimer_sel plog_sel simp_thms)
  have "replay (first_commit (es @ [e])) [l + 1..last_executed_seq n] r =
      replay (first_commit es) [l + 1..last_executed_seq n] r"
  proof (rule replay_cong)
    fix s assume "s \<in> set [l + 1..last_executed_seq n]"
    then have "first_commit es s \<noteq> None" using assms by (simp add: stored_def)
    then show "first_commit (es @ [e]) s = first_commit es s" by (auto simp: first_commit_snoc)
  qed
  then have "\<exists>r'. replay (first_commit (es @ [e])) [l + 1..last_executed_seq n] r = Inr r' \<and> same_ledger ?m r'"
    using assms m(6) same_ledger_sym same_ledger_trans unfolding stored_def by metis
  moreover have "map_of (entries_to_commit ?m) = first_commit (es @ [e])"
    using n(3) by (intro ext) (simp add: first_commit_snoc split: option.split)
  moreover have "no_outcomes ?m" using assms m(3) no_outcomes_log unfolding stored_def by blast
  moreover have "\<forall>s. l < s \<and> s \<le> last_executed_seq n \<longrightarrow> first_commit (es @ [e]) s \<noteq> None"
    using assms by (auto simp: stored_def first_commit_snoc)
  ultimately show ?thesis using assms m unfolding stored_def by presburger
qed

lemma stored_loop:
  assumes st: "stored l r es n" and loop: "SequentiallyExecuteCommittedEntries now n = Inr m"
  shows "delivered l r es m"
proof -
  have n: "alive n" "role n = BACKUP" "no_outcomes n" and look: "map_of (entries_to_commit n) = first_commit es"
    using st by (simp_all add: stored_def)
  obtain r' where r': "replay (first_commit es) [l + 1..last_executed_seq n] r = Inr r'" "same_ledger n r'"
    using st unfolding stored_def by blast
  have keys: "\<forall>s f. map_of (entries_to_commit n) s = Some f \<longrightarrow> ce_seqnum f = s"
    using look first_commit_seqnum by auto
  note bl = backup_loop [OF loop n(2,3) keys r'(2)] and lr = loop_result [OF loop]
  have range: "[l + 1..last_executed_seq m] =
      [l + 1..last_executed_seq n] @ [last_executed_seq n + 1..last_executed_seq m]"
    using st lr upto_split1 [of "l + 1" "last_executed_seq n + 1" "last_executed_seq m"]
    by (cases "last_executed_seq m = last_executed_seq n") (auto simp: stored_def)
  have "first_commit es s \<noteq> None" if "l < s" "s \<le> last_executed_seq m" for s
    using st lr that unfolding look stored_def by (cases "s \<le> last_executed_seq n") auto
  moreover obtain r2 where
    "replay (first_commit es) [last_executed_seq n + 1..last_executed_seq m] r' = Inr r2" "same_ledger m r2"
    using bl unfolding look by auto
  then have "\<exists>r2. replay (first_commit es) [l + 1..last_executed_seq m] r = Inr r2 \<and> same_ledger m r2"
    unfolding range replay_append r'(1) by simp
  moreover have "executed_entries m \<subseteq> {..last_executed_seq m}"
    using bl st lr unfolding stored_def by fastforce
  moreover have "map_of (entries_to_commit m) = first_commit es" "first_commit es (last_executed_seq m + 1) = None"
    using lr unfolding look [symmetric] by simp_all
  moreover have "no_outcomes m" using bl n(3) no_outcomes_log by blast
  moreover have "alive m" "role m = BACKUP" using bl n(1) by simp_all
  moreover have "l \<le> last_executed_seq m" using st lr by (simp add: stored_def)
  ultimately show ?thesis unfolding delivered_def by blast
qed

lemma delivered_step:
  assumes d: "delivered l r es n" and run: "HandleCommit now e n = Inr m"
    and p1: "\<not> is_phase2 (ce_two_pc_status e)"
  shows "delivered l r (es @ [e]) m"
proof -
  let ?k = "remember_commit (ce_seqnum e) e (ResetElectionTimer now (plog (commit_line e) n))"
  have n: "alive n" "role n = BACKUP" and ex: "executed_entries n \<subseteq> {..last_executed_seq n}"
    using d by (simp_all add: delivered_def)
  have k: "stored l r (es @ [e]) ?k" using d stored_snoc unfolding delivered_iff by blast
  have body: "(if last_executed_seq n + 1 = ce_seqnum e \<and> ce_seqnum e \<notin> executed_entries n
      then SequentiallyExecuteCommittedEntries now ?k else Inr ?k) = Inr m"
    using run unfolding HandleCommit_def Let_def
    by (simp only: n p1 plog_sel ResetElectionTimer_sel remember_commit_sel simp_thms if_True if_False)
  show ?thesis
  proof (cases "last_executed_seq n + 1 = ce_seqnum e")
    case True
    then have "ce_seqnum e \<notin> executed_entries n" using ex by auto
    with True body have "SequentiallyExecuteCommittedEntries now ?k = Inr m" by simp
    then show ?thesis by (rule stored_loop [OF k])
  next
    case False
    with body have m: "m = ?k" by simp
    have "first_commit (es @ [e]) (last_executed_seq n + 1) = None"
      using d False by (simp add: delivered_def first_commit_snoc)
    with k show ?thesis unfolding m delivered_iff by simp
  qed
qed

lemma delivered_all:
  assumes "foldE (HandleCommit now) es n = Inr m" and "delivered l r ds n"
    and "\<forall>e\<in>set es. \<not> is_phase2 (ce_two_pc_status e)"
  shows "delivered l r (ds @ es) m"
  using assms
proof (induction es arbitrary: n ds)
  case Nil
  then show ?case by simp
next
  case (Cons e es)
  then obtain k where k: "HandleCommit now e n = Inr k" "foldE (HandleCommit now) es k = Inr m"
    by (auto elim: bindE_InrE)
  have "delivered l r (ds @ [e]) k" using delivered_step [OF Cons.prems(2) k(1)] Cons.prems(3) by simp
  from Cons.IH [OF k(2) this] Cons.prems(3) show ?case by simp
qed

lemma delivered_unique:
  assumes "delivered l r es n" "delivered l r es' n'" "first_commit es = first_commit es'"
  shows "last_executed_seq n = last_executed_seq n' \<and> same_ledger n n'"
proof -
  have "\<not> last_executed_seq n < last_executed_seq n'" "\<not> last_executed_seq n' < last_executed_seq n"
    using assms unfolding delivered_def by (auto dest: spec [of _ "last_executed_seq n + 1"]
        spec [of _ "last_executed_seq n' + 1"])
  then have last: "last_executed_seq n = last_executed_seq n'" by simp
  then show ?thesis
    using assms same_ledger_sym same_ledger_trans unfolding delivered_def by (metis sum.inject(2))
qed


text \<open>Two backups, the same two commits in both orders.\<close>

definition demo_commits :: "commit_entry list" where
  "demo_commits = [demo_commit 1 [] (demo_request ''1'' ''2'' 4 7),
                   demo_commit 2 ''COORD'' (demo_request ''2'' ''3001'' 14 8)]"

lemma demo_caught_up: "caught_up 0 (demo_node i)"
  by (simp add: caught_up_def no_outcomes_def outcome_known_def log_lookup_def no_entry_def)

lemma demo_commits_run:
  "\<exists>m. foldE (HandleCommit 0) demo_commits (demo_node 2) = Inr m \<and> balance m 1 = 6 \<and> balance m 2 = 0"
  "\<exists>m. foldE (HandleCommit 0) (rev demo_commits) (demo_node 3) = Inr m"
  by (simp_all add: demo_commits_def HandleCommit_def Let_def ResetElectionTimer_def
      StartElectionTimer_def remember_commit_def exec_loop_go exec_loop_stop execute_at_def
      execute_committed_def exec_intra [of _ 1 2] exec_coord [of _ 2 3001] valid_accounts_def
      transferred_def prepared_def apply_known_outcome_def finish_as_backup_def no_commit_def)


section \<open>A decision that overtakes its preparation\<close>

lemma HandleCommit_phase2:
  assumes "HandleCommit now e n = Inr m" and "alive n" and "is_phase2 (ce_two_pc_status e)"
  obtains k where "ExecuteRepeatedTwoPCEntry e k = Inr m" and "alive k" and "role k = role n"
    and "accounts k = accounts n" and "wal k = wal n" and "balance_locks k = balance_locks n"
    and "accept_log k = accept_log n" and "shard_map k = shard_map n"
    and "last_executed_seq k = last_executed_seq n"
    and "entries_to_commit k = (if map_of (entries_to_commit n) (ce_seqnum e) = None
           then omap_put (ce_seqnum e) e (entries_to_commit n) else entries_to_commit n)"
    and "executed_entries k = executed_entries n"
proof -
  let ?n1 = "plog (commit_line e) n"
  let ?n2 = "if role ?n1 = BACKUP then ResetElectionTimer now ?n1 else ?n1"
  let ?k = "remember_commit (ce_seqnum e) e ?n2"
  have run: "ExecuteRepeatedTwoPCEntry e ?k = Inr m"
    using assms by (simp add: HandleCommit_def Let_def split del: if_split)
  have "entries_to_commit ?n2 = entries_to_commit n" by simp
  then have "entries_to_commit ?k = (if map_of (entries_to_commit n) (ce_seqnum e) = None
      then omap_put (ce_seqnum e) e (entries_to_commit n) else entries_to_commit n)"
    by (simp add: remember_commit_def)
  with run assms(2) show thesis by (intro that [OF run]) simp_all
qed

lemma execute_decided:
  assumes "execute_committed now f n = Inr m" and "role n = BACKUP"
    and "cross_shard_request (ce_request f) s r n" and "ce_two_pc_status f = ''C_COORD''"
    and "ae_phase2_result (log_lookup (ce_seqnum f) n) \<in> {[], ''C_COORD''}"
  shows "accounts m = accounts n"
proof -
  let ?e = "no_commit\<lparr>ce_ballot := ce_ballot f, ce_seqnum := ce_seqnum f, ce_request := ce_request f\<rparr>"
  from assms(1) obtain b k where
    x: "ExecuteTransaction (ce_request f) (ce_seqnum f) (ce_two_pc_status f) n = Inr (b, k)"
    and rest: "bindE (apply_known_outcome ?e k) (\<lambda>n2. if role n2 = LEADER
        then finish_as_leader now ?e (ce_two_pc_status f) b n2 else Inr (finish_as_backup ?e n2)) = Inr m"
    by (auto simp: execute_committed_def Let_def elim!: bindE_InrE)
  note fr = exec_frame_sel [OF ExecuteTransaction_frame [OF x]]
  have acc: "accounts k = accounts n"
    using x by (cases rule: ExecuteTransaction_cases)
      (use assms(3,4) in \<open>auto simp: cross_shard_request_def mark_executed_def\<close>)
  from rest obtain k2 where k2: "apply_known_outcome ?e k = Inr k2" and m:
    "(if role k2 = LEADER then finish_as_leader now ?e (ce_two_pc_status f) b k2
      else Inr (finish_as_backup ?e k2)) = Inr m" by (rule bindE_InrE)
  have "ce_seqnum ?e = ce_seqnum f" by simp
  then have "accounts k2 = accounts k"
    using k2 assms(5) fr(1)
    by (auto simp: apply_known_outcome_def Let_def log_lookup_def no_entry_def
        split: if_splits option.splits dest!: outcome_commit)
  moreover have "role k2 = BACKUP"
    using apply_known_outcome_loop [OF k2] fr(2) assms(2) by (simp add: loop_frame_def)
  ultimately show ?thesis using m acc by (auto simp: finish_as_backup_def)
qed

lemma commit_decision_effect:
  assumes "ExecuteRepeatedTwoPCEntry e n = Inr m" and "ce_two_pc_status e = ''C_COORD''"
  shows "accounts m = accounts n" "executed_entries m = executed_entries n"
    "ae_phase2_result (log_lookup (ce_seqnum e) n) = [] \<Longrightarrow>
     ae_phase2_result (log_lookup (ce_seqnum e) m) \<in> {[], ''C_COORD''}"
proof -
  show "accounts m = accounts n" using outcome_commit [OF assms(1)] assms(2) by blast
  from assms(1) show "executed_entries m = executed_entries n"
    by (cases rule: ExecuteRepeatedTwoPCEntry_cases)
      (use assms(2) in \<open>auto simp: reply_two_pc_sel resolve_commit_coord record_outcome_def
        log_put_def split: option.split\<close>)
  assume "ae_phase2_result (log_lookup (ce_seqnum e) n) = []"
  with assms(1) show "ae_phase2_result (log_lookup (ce_seqnum e) m) \<in> {[], ''C_COORD''}"
    by (cases rule: ExecuteRepeatedTwoPCEntry_cases)
      (use assms(2) in \<open>auto simp: reply_two_pc_sel resolve_commit_coord record_outcome_def
        log_put_def log_lookup_def split: option.split\<close>)
qed

text \<open>
  C31: a backup that receives the commit decision of a cross-shard transfer before the commit of its
  first phase never moves the money. The decision takes the entry's place among the committed
  entries, the later first-phase commit executes it under the decision's status, and the balances
  stay as they were, although the transaction is committed.
\<close>

theorem decision_overtaking_preparation:
  assumes "alive n" and "role n = BACKUP" and "entries_to_commit n = []"
    and "last_executed_seq n + 1 = seq" and "seq \<notin> executed_entries n"
    and "ae_phase2_result (log_lookup seq n) = []"
    and "d = \<lparr>ce_ballot = b, ce_seqnum = seq, ce_request = req, ce_two_pc_status = ''C_COORD'',
              ce_m = req, ce_phase2_result = []\<rparr>"
    and "cross_shard_request req s r n"
    and "HandleCommit now d n = Inr n1"
    and "HandleCommit now' (d\<lparr>ce_two_pc_status := ''COORD''\<rparr>) n1 = Inr m"
  shows "balance m = balance n \<and> last_executed_seq m = seq"
proof -
  have p2: "is_phase2 (ce_two_pc_status d)" "ce_seqnum d = seq" "ce_request d = req"
    "ce_two_pc_status d = ''C_COORD''" using assms(7) by simp_all
  have "map_of (entries_to_commit n) (ce_seqnum d) = None" using assms(3) by simp
  then obtain k where k: "ExecuteRepeatedTwoPCEntry d k = Inr n1" "alive k" "role k = BACKUP"
      "accounts k = accounts n" "accept_log k = accept_log n" "shard_map k = shard_map n"
      "last_executed_seq k = last_executed_seq n" "executed_entries k = executed_entries n"
      "entries_to_commit k = [(seq, d)]"
    using HandleCommit_phase2 [OF assms(9,1) p2(1)] assms(2,3) p2(2)
    by (metis (no_types, lifting) omap_put.simps(1))
  have fr: "loop_frame k n1" using k(1) by (intro outcome_frame_loop ExecuteRepeatedTwoPCEntry_frame)
  note eff = commit_decision_effect [OF k(1) p2(4)]
  define e where "e = d\<lparr>ce_two_pc_status := ''COORD''\<rparr>"
  have e: "ce_seqnum e = seq" "\<not> is_phase2 (ce_two_pc_status e)" using p2 by (simp_all add: e_def)
  define n3 where "n3 = ResetElectionTimer now' (plog (commit_line e) n1)"
  have n1: "alive n1" "role n1 = BACKUP" "last_executed_seq n1 = last_executed_seq n"
      "entries_to_commit n1 = [(seq, d)]" "seq \<notin> executed_entries n1" "shard_map n1 = shard_map n"
    using fr k eff(2) assms(5) by (simp_all add: loop_frame_def)
  then have loop: "SequentiallyExecuteCommittedEntries now' n3 = Inr m"
    using assms(10) e assms(4)
    by (simp add: e_def [symmetric] HandleCommit_def Let_def remember_commit_def n3_def)
  have n3: "entries_to_commit n3 = [(seq, d)]" "last_executed_seq n3 + 1 = seq" "role n3 = BACKUP"
      "accounts n3 = accounts n" "accept_log n3 = accept_log n1" "shard_map n3 = shard_map n"
    using n1 eff(1) k(4) assms(4) by (simp_all add: n3_def)
  let ?n4 = "n3\<lparr>last_executed_seq := last_executed_seq n3 + 1\<rparr>"
  have "map_of (entries_to_commit n3) (last_executed_seq n3 + 1) = Some d" using n3 by simp
  with loop obtain u where u: "execute_committed now' d ?n4 = Inr u"
      "SequentiallyExecuteCommittedEntries now' u = Inr m"
    by (subst (asm) exec_loop_step) (auto elim: bindE_InrE)
  have fu: "entries_to_commit u = [(seq, d)]" "last_executed_seq u = seq"
    using execute_committed_loop [OF u(1)] n3 by (simp_all add: loop_frame_def)
  have "ae_phase2_result (log_lookup seq ?n4) \<in> {[], ''C_COORD''}"
    using eff(3) assms(6) k(5) n3(5) p2(2) by (simp add: log_lookup_def)
  moreover have "cross_shard_request req s r ?n4"
    using assms(8) n3(6) by (simp add: cross_shard_request_def)
  ultimately have "accounts u = accounts n"
    using execute_decided [OF u(1)] n3 p2 by simp
  moreover have "m = u" using u(2) exec_loop_stop [of u now'] fu by simp
  ultimately show ?thesis using fu(2) by simp
qed

text \<open>The decision for 4 units from item 1 to item 3001 reaches node 2 first.\<close>

definition demo_decision :: commit_entry where
  "demo_decision = \<lparr>ce_ballot = Ballot 1 1, ce_seqnum = 1, ce_request = demo_request ''1'' ''3001'' 4 7,
     ce_two_pc_status = ''C_COORD'', ce_m = demo_request ''1'' ''3001'' 4 7, ce_phase2_result = []\<rparr>"

lemma demo_decision_sel [simp]:
  "ce_ballot demo_decision = Ballot 1 1" "ce_seqnum demo_decision = 1"
  "ce_request demo_decision = demo_request ''1'' ''3001'' 4 7"
  "ce_two_pc_status demo_decision = ''C_COORD''" "ce_m demo_decision = demo_request ''1'' ''3001'' 4 7"
  by (simp_all add: demo_decision_def)

lemma demo_decision_run:
  "\<exists>n1 m. HandleCommit 0 demo_decision (demo_node 2) = Inr n1 \<and>
     HandleCommit 0 (demo_decision\<lparr>ce_two_pc_status := ''COORD''\<rparr>) n1 = Inr m"
  by (simp add: HandleCommit_def Let_def remember_commit_def ResetElectionTimer_def
      StartElectionTimer_def ExecuteRepeatedTwoPCEntry_def record_outcome_def resolve_two_pc_def
      unlock_def wal_erase_def reply_two_pc_def exec_loop_go exec_loop_stop execute_at_def
      execute_committed_def exec_other [of _ 1 3001] valid_accounts_def is_phase1_def
      mark_executed_def apply_known_outcome_def finish_as_backup_def no_commit_def)

theorem decision_overtaking_preparation_witness:
  "\<exists>n1 m. HandleCommit 0 demo_decision (demo_node 2) = Inr n1 \<and>
     HandleCommit 0 (demo_decision\<lparr>ce_two_pc_status := ''COORD''\<rparr>) n1 = Inr m \<and> balance m 1 = 10"
proof -
  obtain n1 m where n1: "HandleCommit 0 demo_decision (demo_node 2) = Inr n1"
    and m: "HandleCommit 0 (demo_decision\<lparr>ce_two_pc_status := ''COORD''\<rparr>) n1 = Inr m"
    using demo_decision_run by blast
  have "balance m = balance (demo_node 2)"
    using decision_overtaking_preparation [OF _ _ _ _ _ _ demo_decision_def demo_cross n1 m]
    by (simp add: log_lookup_def no_entry_def)
  with n1 m show ?thesis by auto
qed

section \<open>Quorums and commits\<close>

lemma loop_keeps:
  assumes "SequentiallyExecuteCommittedEntries now n = Inr m"
  shows "accepted_count m = accepted_count n \<and> f_max m = f_max n \<and> role m = role n \<and>
    shard_map m = shard_map n \<and> alive m = alive n"
  using assms
proof (induction now n rule: SequentiallyExecuteCommittedEntries.induct)
  case (1 now n)
  show ?case
  proof (cases "map_of (entries_to_commit n) (last_executed_seq n + 1)")
    case None
    with 1(2) show ?thesis by (auto simp: exec_loop_stop)
  next
    case (Some f)
    from 1(2) Some obtain k where
      k: "execute_committed now f (n\<lparr>last_executed_seq := last_executed_seq n + 1\<rparr>) = Inr k"
      "SequentiallyExecuteCommittedEntries now k = Inr m"
      by (subst (asm) exec_loop_step) (auto elim: bindE_InrE)
    with 1(1) [OF Some k(1,2)] execute_committed_loop [OF k(1)] show ?thesis
      by (simp add: loop_frame_def)
  qed
qed

lemma CommitEntry_commits:
  assumes "CommitEntry now a n = Inr m"
  shows "map_of (entries_to_commit m) (ak_seqnum a) \<noteq> None \<and> accepted_count m = accepted_count n"
proof -
  obtain src n1 where src: "(case pending_entries n (ak_seqnum a) of
      Some e \<Rightarrow> (e, n) | None \<Rightarrow> accept_log_at (ak_seqnum a) n) = (src, n1)" by fastforce
  let ?e = "entry_for_commit a src"
  define n2 where "n2 = BroadcastCommit ?e (remember_commit (ak_seqnum a) ?e n1)"
  have "accepted_count n1 = accepted_count n"
    using src by (auto simp: accept_log_at_def split: option.splits)
  then have n2: "map_of (entries_to_commit n2) (ak_seqnum a) \<noteq> None"
      "accepted_count n2 = accepted_count n"
    by (auto simp: n2_def BroadcastCommit_def broadcast_cluster_def emits_def remember_commit_def)
  have run: "(if last_executed_seq n2 + 1 = ak_seqnum a then SequentiallyExecuteCommittedEntries now n2
      else if ak_phase a = 2 then ExecuteRepeatedTwoPCEntry ?e n2 else Inr n2) = Inr m"
    using assms src unfolding CommitEntry_def Let_def n2_def by simp
  show ?thesis
  proof (cases "last_executed_seq n2 + 1 = ak_seqnum a")
    case True
    then have "SequentiallyExecuteCommittedEntries now n2 = Inr m" using run by simp
    from loop_result [OF this] loop_keeps [OF this] n2 show ?thesis by simp
  next
    case False
    then have "ExecuteRepeatedTwoPCEntry ?e n2 = Inr m \<or> m = n2" using run by (simp split: if_splits)
    then have "loop_frame n2 m"
      using outcome_frame_loop [OF ExecuteRepeatedTwoPCEntry_frame] by fastforce
    with n2 show ?thesis by (simp add: loop_frame_def)
  qed
qed

text \<open>
  C9: a leader commits a first-phase entry exactly at its quorum. Every accepted acknowledgement is
  counted once per node, ballot counter and sequence number; while the number of distinct nodes
  differs from \<^verbatim>\<open>f_ + 1\<close> nothing is committed, executed or sent, and when it is reached for
  an entry that is not yet committed the entry becomes committed.
\<close>

theorem commit_exactly_at_quorum:
  assumes "alive n" and "role n = LEADER" and "ak_accepted a" and "ak_phase a \<noteq> 2"
    and "HandleAccept now a n = Inr m"
    and "voters = insert (ak_node_id a) (accepted_count n (ak_seqnum a) (b_counter (ak_ballot a)))"
  shows "accepted_count m (ak_seqnum a) (b_counter (ak_ballot a)) = voters \<and>
    (int (card voters) \<noteq> f_max n + 1 \<longrightarrow>
       accounts m = accounts n \<and> entries_to_commit m = entries_to_commit n \<and>
       last_executed_seq m = last_executed_seq n \<and> outbox m = outbox n) \<and>
    (int (card voters) = f_max n + 1 \<and> map_of (entries_to_commit n) (ak_seqnum a) = None \<longrightarrow>
       map_of (entries_to_commit m) (ak_seqnum a) \<noteq> None)"
proof -
  define n1 where "n1 = (case map_of (accept_log n) (ak_seqnum a) of
      Some e \<Rightarrow> plog (accepted_line a (ae_request e)) n | None \<Rightarrow> n)"
  define n2 where "n2 = count_phase1 a n1"
  have n1: "accounts n1 = accounts n" "entries_to_commit n1 = entries_to_commit n"
    "last_executed_seq n1 = last_executed_seq n" "outbox n1 = outbox n" "f_max n1 = f_max n"
    "accepted_count n1 = accepted_count n"
    by (simp_all add: n1_def split: option.split)
  have n2: "accounts n2 = accounts n" "entries_to_commit n2 = entries_to_commit n"
    "last_executed_seq n2 = last_executed_seq n" "outbox n2 = outbox n" "f_max n2 = f_max n"
    "accepted_count n2 (ak_seqnum a) (b_counter (ak_ballot a)) = voters"
    using n1 assms(6) by (simp_all add: n2_def count_phase1_def)
  have run: "(if quorum_phase1 a n2 then CommitEntry now a n2 else Inr n2) = Inr m"
    using assms(1-5) unfolding HandleAccept_def Let_def n2_def n1_def by simp
  show ?thesis
  proof (cases "quorum_phase1 a n2")
    case True
    then have "CommitEntry now a n2 = Inr m" using run by simp
    from CommitEntry_commits [OF this] True n2 show ?thesis
      by (auto simp: quorum_phase1_def Let_def)
  next
    case False
    with run n2 show ?thesis by (auto simp: quorum_phase1_def Let_def)
  qed
qed

text \<open>A leader of three nodes that has its own acceptance of entry 1.\<close>

definition demo_leader :: node where
  "demo_leader = (demo_node 1)\<lparr>role := LEADER, current_ballot := Ballot 1 1, leader_id := 1,
     last_seqnum := 1, accept_log := [(1, demo_entry 1 [] [] (demo_request ''1'' ''2'' 4 7))],
     pending_entries := [1 \<mapsto> demo_entry 1 [] [] (demo_request ''1'' ''2'' 4 7)],
     pending_client_calls := [(1, ClientCall 50 (demo_request ''1'' ''2'' 4 7))],
     accepted_count := (\<lambda>s c. if s = 1 \<and> c = 1 then {1} else {})\<rparr>"

definition demo_ack :: ack where
  "demo_ack = no_ack\<lparr>ak_ballot := Ballot 1 1, ak_node_id := 2, ak_accepted := True, ak_seqnum := 1\<rparr>"

lemma demo_ack_sel [simp]:
  "ak_ballot demo_ack = Ballot 1 1" "ak_node_id demo_ack = 2" "ak_accepted demo_ack"
  "ak_seqnum demo_ack = 1" "ak_phase demo_ack = 0" "ak_status demo_ack = []"
  by (simp_all add: demo_ack_def no_ack_def)

lemma demo_leader_commits: "\<exists>m. HandleAccept 0 demo_ack demo_leader = Inr m"
  by (simp add: demo_leader_def HandleAccept_def Let_def count_phase1_def quorum_phase1_def
      CommitEntry_def entry_for_commit_def BroadcastCommit_def broadcast_cluster_def emits_def
      remember_commit_def exec_loop_go exec_loop_stop execute_at_def execute_committed_def
      exec_intra [of _ 1 2] valid_accounts_def transferred_def apply_known_outcome_def no_commit_def
      finish_as_leader_def take_client_call_def SendClientReply_def call_client_def client_name_def
      emit_def respond_client_def)

theorem commit_exactly_at_quorum_witness:
  "\<exists>m. HandleAccept 0 demo_ack demo_leader = Inr m \<and> accepted_count m 1 1 = {1, 2} \<and>
     map_of (entries_to_commit m) 1 \<noteq> None"
proof -
  obtain m where m: "HandleAccept 0 demo_ack demo_leader = Inr m" using demo_leader_commits by blast
  from commit_exactly_at_quorum [OF _ _ _ _ m refl] have "accepted_count m 1 1 = {1, 2} \<and>
      map_of (entries_to_commit m) 1 \<noteq> None"
    by (auto simp: demo_leader_def)
  with m show ?thesis by blast
qed

section \<open>What the client is told\<close>

text \<open>
  C13: the answer to an intra-shard transfer is truthful. When a live leader executes a committed
  transfer inside one shard that it proposed in its own term (its number is above those of its NEW-VIEW),
  with no two-phase-commit status, no second-phase outcome recorded in its log, and the client's call
  still waiting, it sends that client exactly one reply, for the request's timestamp, whose success flag
  says whether the sender could pay; on success the two balances have moved by the amount,
  otherwise none has, and the client's call is answered. For transfers between shards it is not so:
  \<open>overdraft_creates_money\<close>, \<open>late_answer_creates_money\<close>.
\<close>

theorem leader_reply_truthful:
  assumes "role n = LEADER" and "alive n" and "no_outcomes n"
    and "max_seqnum_in_new_view n < ce_seqnum f" and "ce_two_pc_status f = []"
    and "map_of (pending_client_calls n) (ce_seqnum f) = Some (ClientCall c (ce_request f))"
    and "valid_accounts (ce_request f) from to n" and "shard_map n to = shard_map n from"
    and "client_name \<in> set (client_ids n)"
  shows "\<exists>m reply. execute_committed now f n = Inr m \<and>
    outbox m = outbox n @ [CallClientReply client_name reply, RespondClientRequest c] \<and>
    rp_timestamp reply = cr_timestamp (ce_request f) \<and>
    rp_success reply = (cr_amount (ce_request f) \<le> balance n from) \<and>
    accounts m = (if rp_success reply
      then accounts (transferred (ce_seqnum f) from to (cr_amount (ce_request f)) n) else accounts n) \<and>
    map_of (pending_client_calls m) (ce_seqnum f) = None"
proof -
  let ?req = "ce_request f" and ?s = "ce_seqnum f"
  let ?e = "no_commit\<lparr>ce_ballot := ce_ballot f, ce_seqnum := ?s, ce_request := ?req\<rparr>"
  define k where "k = (if cr_amount ?req \<le> balance n from then transferred ?s from to (cr_amount ?req) n
    else (mark_executed ?s n)\<lparr>balance_locks :=
      CVec (vsize (balance_locks n)) ((vat (balance_locks n))(from := False, to := False))\<rparr>)"
  have x: "ExecuteTransaction ?req ?s [] n = Inr (cr_amount ?req \<le> balance n from, k)"
    using exec_intra [OF assms(7,8), of "[]" ?s] exec_insufficient [OF assms(7), of ?s "[]"] assms(8)
    by (cases "cr_amount ?req \<le> balance n from") (auto simp: k_def)
  have k: "accept_log k = accept_log n" "role k = LEADER" "alive k"
    "max_seqnum_in_new_view k = max_seqnum_in_new_view n" "outbox k = outbox n"
    "pending_client_calls k = pending_client_calls n" "client_ids k = client_ids n"
    using assms(1,2) by (simp_all add: k_def transferred_def mark_executed_def)
  have "apply_known_outcome ?e k = Inr k"
    using assms(3) k(1) no_outcomes_log by (intro no_outcomes_apply) blast
  moreover have "cr_client_id ?req \<noteq> ''NO-OP''" using assms(7) by (simp add: valid_accounts_def)
  ultimately show ?thesis
    using x k assms(4,5,6,9)
    by (simp add: execute_committed_def Let_def finish_as_leader_def take_client_call_def
        SendClientReply_def call_client_def emit_def respond_client_def no_commit_def)
      (simp add: k_def mark_executed_def)
qed

lemma no_outcomes_demo_leader: "no_outcomes demo_leader"
  by (simp add: demo_leader_def no_outcomes_def outcome_known_def log_lookup_def no_entry_def)

theorem leader_reply_truthful_witness:
  "\<exists>m reply. execute_committed 0 (demo_commit 1 [] (demo_request ''1'' ''2'' 4 7)) demo_leader = Inr m \<and>
     outbox m = [CallClientReply ''A'' reply, RespondClientRequest 50] \<and> rp_success reply"
  using leader_reply_truthful [OF _ _ no_outcomes_demo_leader,
      of "demo_commit 1 [] (demo_request ''1'' ''2'' 4 7)" 50 1 2 0]
  by (fastforce simp: demo_leader_def valid_accounts_def client_name_def)

text \<open>
  Executing an entry whose request has an empty account ends the process. That is every NO-OP:
  the account numbers are parsed before the NO-OP test, so the loop fails on the first one.
\<close>

theorem noop_entry_ends_process:
  assumes "map_of (entries_to_commit n) (last_executed_seq n + 1) = Some f"
    and "cr_from_account (ce_request f) = []"
  shows "SequentiallyExecuteCommittedEntries now n = Inl InvalidArgument"
  using assms
  by (simp add: exec_loop_go execute_at_def execute_committed_def ExecuteTransaction_def Let_def)

theorem noop_entry_ends_process_witness:
  "SequentiallyExecuteCommittedEntries 0 ((demo_node 2)\<lparr>entries_to_commit :=
     [(1, demo_commit 1 [] (no_request\<lparr>cr_client_id := ''NO-OP''\<rparr>))]\<rparr>) = Inl InvalidArgument"
  by (rule noop_entry_ends_process [where f = "demo_commit 1 [] (no_request\<lparr>cr_client_id := ''NO-OP''\<rparr>)"])
    (simp_all add: no_request_def)

end
