(* ===== verification/Requests.thy ===== *)
theory Requests
  imports Commit
begin

text \<open>
  Client requests (\<^verbatim>\<open>src/paxos_node.cpp\<close>): queueing during an election, forwarding,
  duplicates, read-only requests, account locks, the first message of a cross-shard transaction,
  and proposing the entry; then the end of an election, which settles the write-ahead log and
  replays the queue. A request handler ends by answering its call object, by keeping it in a queue
  or table, or by failing.
\<close>

section \<open>The steps of \<^verbatim>\<open>ProcessClientRequest\<close>\<close>

definition forward_request :: "client_request \<Rightarrow> client_call \<Rightarrow> node \<Rightarrow> exn + node" where
  "forward_request request call n =
     (if leader_id n = - 1 then Inr n
      else if leader_id n = node_id n then Inl Aborted
      else bindE (call_peer (leader_id n) (CallClientRequest (leader_id n) request) n)
             (\<lambda>n1. Inr (respond_client call n1)))"

definition answer_read_only :: "client_request \<Rightarrow> client_call \<Rightarrow> node \<Rightarrow> exn + node" where
  "answer_read_only request call n =
     bindE (stoi (cr_from_account request)) (\<lambda>acct.
     bindE (get_account acct n) (\<lambda>bal.
       let reply = \<lparr>rp_ballot = current_ballot n, rp_timestamp = cr_timestamp request,
                    rp_client_id = cr_from_account request, rp_success = True,
                    rp_from_this_term = True, rp_read_only_balance = bal\<rparr>
       in
       if cr_timestamp request \<notin> handled_ro_requests n then
         bindE (call_client client_name reply
                 (n\<lparr>last_reply_per_client := (last_reply_per_client n)(cr_from_account request \<mapsto> reply),
                   handled_ro_requests := insert (cr_timestamp request) (handled_ro_requests n)\<rparr>))
           (\<lambda>n1. Inr (respond_client call n1))
       else Inr (respond_client call n)))"

text \<open>The first message of a cross-shard transaction, with its slot for the retry loop.\<close>

definition send_prepare_2pc :: "int \<Rightarrow> client_request \<Rightarrow> int \<Rightarrow> node \<Rightarrow> exn + node" where
  "send_prepare_2pc now request r n =
     (let twopc_request = request\<lparr>cr_two_pc_msg := ''PREPARE'', cr_from_node := node_id n\<rparr>;
          leader = cluster_leaders n (shard_map n r)
      in
      bindE (set_in_flight (cr_timestamp request)
               (\<lambda>e. e\<lparr>if_msg := no_twopc\<lparr>tm_m := twopc_request\<rparr>, if_last_send := now, if_sent := True\<rparr>)
               (in_flight_prepares n)) (\<lambda>v.
      call_peer leader (CallClientRequest leader twopc_request) (n\<lparr>in_flight_prepares := v\<rparr>)))"

text \<open>
  Taking the locks of a request that is not a PREPARE. The result tells whether to go on; when it
  is \<open>False\<close> the call has been answered.
\<close>

definition lock_accounts ::
  "int \<Rightarrow> client_request \<Rightarrow> client_call \<Rightarrow> int \<Rightarrow> int \<Rightarrow> node \<Rightarrow> exn + (bool \<times> node)" where
  "lock_accounts now request call s r n =
     (let intra_shard = (shard_map n s = shard_map n r) in
      bindE (try_lock s n) (\<lambda>(got_from, n1).
        if \<not> got_from then Inr (False, respond_client call n1)
        else bindE (if intra_shard then try_lock r n1 else Inr (True, n1)) (\<lambda>(got_to, n2).
          if \<not> got_to then
            bindE (unlock s n2) (\<lambda>n3. Inr (False, respond_client call n3))
          else if \<not> intra_shard \<and> cr_timestamp request \<notin> pending_or_completed_ts n2 then
            bindE (send_prepare_2pc now request r n2) (\<lambda>n3. Inr (True, n3))
          else Inr (True, n2))))"

text \<open>Taking the lock of a PREPARE; a refused lock becomes an abort vote.\<close>

definition lock_participant :: "client_request \<Rightarrow> int \<Rightarrow> int \<Rightarrow> node \<Rightarrow> exn + (bool \<times> node)" where
  "lock_participant request s r n =
     (let n1 = (if cr_from_node request \<noteq> cluster_leaders n (shard_map n s)
                then n\<lparr>cluster_leaders := (cluster_leaders n)(shard_map n s := cr_from_node request)\<rparr>
                else n)
      in bindE (try_lock r n1) (\<lambda>(got, n2). Inr (\<not> got, n2)))"

definition accept_message ::
  "client_request \<Rightarrow> bool \<Rightarrow> bool \<Rightarrow> bool \<Rightarrow> node \<Rightarrow> accepted_entry" where
  "accept_message request participant participant_abort intra_shard n =
     (let base = no_entry\<lparr>ae_request := request, ae_ballot := current_ballot n, ae_node_id := node_id n\<rparr>
      in
      if participant \<and> participant_abort then base\<lparr>ae_two_pc_status := ''A''\<rparr>
      else if participant \<and> \<not> participant_abort then base\<lparr>ae_two_pc_status := ''P'', ae_m := request\<rparr>
      else if \<not> participant \<and> \<not> intra_shard then base\<lparr>ae_two_pc_status := ''COORD'', ae_m := request\<rparr>
      else base)"

definition accepted_self_line :: "accepted_entry \<Rightarrow> node \<Rightarrow> string" where
  "accepted_self_line e n =
     ''<ACCEPTED, '' @ ballot_string_spaced (ae_ballot e) @ '', '' @ to_string (ae_seqnum e) @
     '', ('' @ cr_from_account (ae_request e) @ '', '' @ cr_to_account (ae_request e) @ '', '' @
     to_string_real (cr_amount (ae_request e)) @ ''), '' @ to_string (node_id n) @ ''> '' @ newline"

text \<open>Claim the timestamp, assign the next sequence number, log and broadcast.\<close>

definition propose_request :: "client_request \<Rightarrow> client_call \<Rightarrow> accepted_entry \<Rightarrow> node \<Rightarrow> node" where
  "propose_request request call msg n =
     (if cr_timestamp request \<in> pending_or_completed_ts n then respond_client call n
      else
        let seqnum = last_seqnum n + 1;
            accept_msg = msg\<lparr>ae_seqnum := seqnum\<rparr>;
            n1 = n\<lparr>pending_or_completed_ts := insert (cr_timestamp request) (pending_or_completed_ts n),
                   last_seqnum := seqnum,
                   pending_entries := (pending_entries n)(seqnum \<mapsto> accept_msg),
                   pending_client_calls := omap_put seqnum call (pending_client_calls n),
                   accepted_count := count_insert seqnum (b_counter (current_ballot n)) (node_id n)
                                       (accepted_count n)\<rparr>;
            n2 = plog (accepted_self_line accept_msg n) (log_put seqnum accept_msg n1);
            n3 = n2\<lparr>digest_to_seqnum := (digest_to_seqnum n2)(cr_timestamp request := seqnum)\<rparr>
        in broadcast_cluster (\<lambda>p. CallAccept p accept_msg) n3)"

definition known_reply :: "client_request \<Rightarrow> node \<Rightarrow> bool" where
  "known_reply request n \<longleftrightarrow>
     (case last_reply_per_client n (cr_from_account request) of
        Some r \<Rightarrow> rp_timestamp r = cr_timestamp request | None \<Rightarrow> False)"

text \<open>The leader's part, after all early returns: locks, then the proposal.\<close>

definition lock_and_propose :: "int \<Rightarrow> client_request \<Rightarrow> client_call \<Rightarrow> node \<Rightarrow> exn + node" where
  "lock_and_propose now request call n =
     bindE (stoi (cr_from_account request)) (\<lambda>s.
     bindE (stoi (cr_to_account request)) (\<lambda>r.
       if cr_two_pc_msg request \<noteq> ''PREPARE'' then
         bindE (lock_accounts now request call s r n) (\<lambda>(go, n1).
           if \<not> go then Inr n1
           else Inr (propose_request request call
                  (accept_message request False False (shard_map n s = shard_map n r) n1) n1))
       else
         bindE (lock_participant request s r n) (\<lambda>(participant_abort, n1).
           Inr (propose_request request call
                  (accept_message request True participant_abort False n1) n1))))"

definition ProcessClientRequest :: "int \<Rightarrow> client_request \<Rightarrow> client_call \<Rightarrow> node \<Rightarrow> exn + node" where
  "ProcessClientRequest now request call n =
     (if cr_from_account request = [] then Inr (respond_client call n)
      else if role n \<noteq> LEADER then forward_request request call n
      else if known_reply request n then Inr (respond_client call n)
      else if cr_timestamp request \<in> pending_or_completed_ts n then Inr (respond_client call n)
      else if cr_read_only request then answer_read_only request call n
      else lock_and_propose now request call n)"

section \<open>Requests on arrival\<close>

definition request_line :: "client_request \<Rightarrow> string" where
  "request_line request =
     ''<REQUEST, ('' @ cr_from_account request @ '', '' @ cr_to_account request @ '', '' @
     to_string_real (cr_amount request) @ ''), '' @ to_string (cr_timestamp request) @ '', '' @
     cr_from_account request @ ''> '' @ newline"

definition queue_request :: "client_request \<Rightarrow> client_call \<Rightarrow> node \<Rightarrow> node" where
  "queue_request request call n =
     n\<lparr>queued_client_requests := queued_client_requests n @ [(request, call)]\<rparr>"

definition HandleClientRequest :: "int \<Rightarrow> client_request \<Rightarrow> client_call \<Rightarrow> node \<Rightarrow> exn + node" where
  "HandleClientRequest now request call n =
     (if \<not> alive n then Inr (respond_client call n)
      else
        let n1 = plog (request_line request) n in
        if bootstraps n1 \<and> first_txn_received n1 then
          Inr (StartElectionTimer (queue_request request call (n1\<lparr>first_txn_received := False\<rparr>)))
        else if in_election n1 \<or> (leader_id n1 = - 1 \<and> role n1 = BACKUP) then
          Inr (queue_request request call n1)
        else ProcessClientRequest now request call n1)"

section \<open>The end of an election\<close>

definition revert_undecided :: "int \<Rightarrow> int \<Rightarrow> wal_entry \<Rightarrow> node \<Rightarrow> exn + node" where
  "revert_undecided seqnum acct w n =
     bindE (set_account acct (before_value w) n) (\<lambda>n1.
     bindE (unlock acct n1) (\<lambda>n2. Inr (wal_erase seqnum n2)))"

definition OnElectionComplete :: "int \<Rightarrow> node \<Rightarrow> exn + node" where
  "OnElectionComplete now n =
     (let n1 = n\<lparr>in_election := False\<rparr> in
      bindE (foldE (reconcile_wal_entry revert_undecided) (wal n1) n1) (\<lambda>n2.
        if leader_id n2 \<noteq> - 1 then
          foldE (\<lambda>q. ProcessClientRequest now (fst q) (snd q)) (queued_client_requests n2)
            (n2\<lparr>queued_client_requests := []\<rparr>)
        else Inr n2))"

section \<open>Proposing\<close>

lemma propose_fresh:
  assumes "cr_timestamp request \<notin> pending_or_completed_ts n"
  shows "last_seqnum (propose_request request call msg n) = last_seqnum n + 1"
    "map_of (accept_log (propose_request request call msg n)) (last_seqnum n + 1) =
       Some (msg\<lparr>ae_seqnum := last_seqnum n + 1\<rparr>)"
    "map_of (pending_client_calls (propose_request request call msg n)) (last_seqnum n + 1) = Some call"
    "cr_timestamp request \<in> pending_or_completed_ts (propose_request request call msg n)"
    "balance_locks (propose_request request call msg n) = balance_locks n"
    "accounts (propose_request request call msg n) = accounts n"
    "role (propose_request request call msg n) = role n"
    "outbox (propose_request request call msg n) = outbox n @
       map (\<lambda>p. CallAccept p (msg\<lparr>ae_seqnum := last_seqnum n + 1\<rparr>)) (cluster_peers n)"
  using assms
  by (simp_all add: propose_request_def Let_def broadcast_cluster_def emits_def log_put_def
      cluster_peers_def in_my_range_def)

lemma propose_known:
  "cr_timestamp request \<in> pending_or_completed_ts n \<Longrightarrow>
   propose_request request call msg n = respond_client call n"
  by (simp add: propose_request_def)

lemma respond_client_sel [simp]:
  "outbox (respond_client call n) = outbox n @ [RespondClientRequest (call_id call)]"
  "balance_locks (respond_client call n) = balance_locks n" "role (respond_client call n) = role n"
  "last_seqnum (respond_client call n) = last_seqnum n"
  "pending_or_completed_ts (respond_client call n) = pending_or_completed_ts n"
  "accounts (respond_client call n) = accounts n" "accept_log (respond_client call n) = accept_log n"
  "pending_client_calls (respond_client call n) = pending_client_calls n"
  "last_reply_per_client (respond_client call n) = last_reply_per_client n"
  by (simp_all add: respond_client_def emit_def)

lemma try_lock_Inr:
  "try_lock i n = Inr (b, m) \<longleftrightarrow> in_vec i (balance_locks n) \<and> b = (\<not> locked n i) \<and>
     m = (if locked n i then n else n\<lparr>balance_locks := CVec (vsize (balance_locks n))
            ((vat (balance_locks n))(i := True))\<rparr>)"
  by (auto simp: try_lock_def exn_simps)

lemma unlock_Inr:
  "unlock i n = Inr m \<longleftrightarrow> in_vec i (balance_locks n) \<and>
     m = n\<lparr>balance_locks := CVec (vsize (balance_locks n)) ((vat (balance_locks n))(i := False))\<rparr>"
  by (auto simp: unlock_def exn_simps)

text \<open>Sending the first message changes only its slot and the outbox.\<close>

lemma send_prepare_2pc_sel:
  assumes "send_prepare_2pc now request r n = Inr m"
  shows "balance_locks m = balance_locks n" "pending_or_completed_ts m = pending_or_completed_ts n"
    "last_seqnum m = last_seqnum n" "role m = role n" "accounts m = accounts n"
    "current_ballot m = current_ballot n" "node_id m = node_id n"
    "pending_client_calls m = pending_client_calls n"
  using assms
  by (auto simp: send_prepare_2pc_def call_peer_def emit_def exn_simps Let_def)

section \<open>Locks\<close>

definition fresh_request :: "client_request \<Rightarrow> int \<Rightarrow> int \<Rightarrow> node \<Rightarrow> bool" where
  "fresh_request req s r n \<longleftrightarrow>
     role n = LEADER \<and> \<not> known_reply req n \<and> cr_timestamp req \<notin> pending_or_completed_ts n \<and>
     \<not> cr_read_only req \<and> stoi (cr_from_account req) = Inr s \<and> stoi (cr_to_account req) = Inr r"

text \<open>The accounts a request locks, and when it can.\<close>

definition lock_set :: "int \<Rightarrow> int \<Rightarrow> node \<Rightarrow> int set" where
  "lock_set s r n = (if shard_map n s = shard_map n r then {s, r} else {s})"

definition can_lock :: "int \<Rightarrow> int \<Rightarrow> node \<Rightarrow> bool" where
  "can_lock s r n \<longleftrightarrow>
     \<not> locked n s \<and> (shard_map n s = shard_map n r \<longrightarrow> s \<noteq> r \<and> \<not> locked n r)"

lemma lock_accounts_cases:
  assumes "lock_accounts now req call s r n = Inr (go, m)"
    and "cr_timestamp req \<notin> pending_or_completed_ts n"
  shows "go = can_lock s r n \<and>
    (\<forall>i. locked m i \<longleftrightarrow> locked n i \<or> go \<and> i \<in> lock_set s r n) \<and>
    vsize (balance_locks m) = vsize (balance_locks n) \<and>
    pending_or_completed_ts m = pending_or_completed_ts n \<and> last_seqnum m = last_seqnum n \<and>
    role m = role n \<and> pending_client_calls m = pending_client_calls n \<and>
    accounts m = accounts n \<and> current_ballot m = current_ballot n \<and>
    (\<not> go \<longrightarrow> outbox m = outbox n @ [RespondClientRequest (call_id call)] \<and> accept_log m = accept_log n)"
proof (cases "locked n s")
  case True
  with assms show ?thesis
    by (auto simp: lock_accounts_def can_lock_def exn_simps Let_def try_lock_Inr split: prod.splits)
      (auto simp: respond_client_def emit_def)
next
  case from_free: False
  define n1 where "n1 = n\<lparr>balance_locks := CVec (vsize (balance_locks n))
      ((vat (balance_locks n))(s := True))\<rparr>"
  from assms(1) from_free have "try_lock s n = Inr (True, n1)" "in_vec s (balance_locks n)"
    by (auto simp: lock_accounts_def exn_simps Let_def try_lock_Inr n1_def)
  note body = assms(1) [unfolded lock_accounts_def Let_def this(1) bindE_simps prod.case]
  show ?thesis
  proof (cases "shard_map n s = shard_map n r")
    case True
    show ?thesis
    proof (cases "locked n1 r")
      case held: True
      with body True obtain n3 where "unlock s n1 = Inr n3" "go = False" "m = respond_client call n3"
        by (auto simp: exn_simps try_lock_Inr)
      then show ?thesis
        using True held from_free
        by (auto simp: unlock_Inr n1_def can_lock_def respond_client_def emit_def split: if_splits)
    next
      case free: False
      with body True assms(2) have "go" "m = n1\<lparr>balance_locks := CVec (vsize (balance_locks n1))
            ((vat (balance_locks n1))(r := True))\<rparr>"
        by (auto simp: exn_simps try_lock_Inr)
      then show ?thesis
        using True free from_free by (auto simp: n1_def can_lock_def lock_set_def split: if_splits)
    qed
  next
    case False
    with body assms(2) have "go" "send_prepare_2pc now req r n1 = Inr m"
      by (auto simp: exn_simps n1_def)
    then show ?thesis
      using False from_free send_prepare_2pc_sel [of now req r n1 m]
      by (auto simp: n1_def can_lock_def lock_set_def)
  qed
qed

text \<open>How a request that passed the early returns ends.\<close>

lemma lock_and_propose_cases:
  assumes "lock_and_propose now req call n = Inr m"
  obtains
    (stopped) s r where "stoi (cr_from_account req) = Inr s" "stoi (cr_to_account req) = Inr r"
      "cr_two_pc_msg req \<noteq> ''PREPARE''" "lock_accounts now req call s r n = Inr (False, m)"
  | (own) s r n1 where "stoi (cr_from_account req) = Inr s" "stoi (cr_to_account req) = Inr r"
      "cr_two_pc_msg req \<noteq> ''PREPARE''" "lock_accounts now req call s r n = Inr (True, n1)"
      "m = propose_request req call
        (accept_message req False False (shard_map n s = shard_map n r) n1) n1"
  | (participant) s r ab n1 where
      "stoi (cr_from_account req) = Inr s" "stoi (cr_to_account req) = Inr r"
      "cr_two_pc_msg req = ''PREPARE''" "lock_participant req s r n = Inr (ab, n1)"
      "m = propose_request req call (accept_message req True ab False n1) n1"
proof -
  obtain s r where sr: "stoi (cr_from_account req) = Inr s" "stoi (cr_to_account req) = Inr r"
    using assms by (auto simp: lock_and_propose_def exn_simps)
  show thesis
  proof (cases "cr_two_pc_msg req = ''PREPARE''")
    case True
    with assms sr obtain ab n1 where "lock_participant req s r n = Inr (ab, n1)"
      "m = propose_request req call (accept_message req True ab False n1) n1"
      by (auto simp: lock_and_propose_def exn_simps)
    then show thesis by (rule participant [OF sr True])
  next
    case False
    with assms sr have "bindE (lock_accounts now req call s r n) (\<lambda>(go, n1).
        if \<not> go then Inr n1 else Inr (propose_request req call
          (accept_message req False False (shard_map n s = shard_map n r) n1) n1)) = Inr m"
      by (simp add: lock_and_propose_def)
    then obtain p where p: "lock_accounts now req call s r n = Inr p"
      and body: "(case p of (go, n1) \<Rightarrow> if \<not> go then Inr n1 else Inr (propose_request req call
          (accept_message req False False (shard_map n s = shard_map n r) n1) n1)) = (Inr m :: exn + node)"
      by (rule bindE_InrE) (rule that)
    obtain go n1 where "p = (go, n1)" by fastforce
    with p body sr False stopped own show thesis by (cases go) auto
  qed
qed

text \<open>
  C7: a leader locks all accounts of a new transfer or none. When the sender's account is free, and
  for a transfer inside the shard the receiver's is another free account, the request is proposed
  under the next sequence number with exactly these accounts locked; otherwise (a transfer to
  oneself included) the call is answered, nothing is proposed, and the locks are as before.
\<close>

theorem locks_all_or_nothing:
  assumes "fresh_request req s r n" and "cr_two_pc_msg req \<noteq> ''PREPARE''"
    and "ProcessClientRequest now req call n = Inr m"
  shows "if can_lock s r n then
      (\<forall>i. locked m i \<longleftrightarrow> locked n i \<or> i \<in> lock_set s r n) \<and> last_seqnum m = last_seqnum n + 1 \<and>
      (\<exists>e. map_of (accept_log m) (last_seqnum n + 1) = Some e \<and> ae_request e = req \<and>
         ae_ballot e = current_ballot n \<and>
         ae_two_pc_status e = (if shard_map n s = shard_map n r then [] else ''COORD'')) \<and>
      map_of (pending_client_calls m) (last_seqnum n + 1) = Some call
    else
      (\<forall>i. locked m i = locked n i) \<and> last_seqnum m = last_seqnum n \<and> accept_log m = accept_log n \<and>
      outbox m = outbox n @ [RespondClientRequest (call_id call)]"
proof -
  have ne: "cr_from_account req \<noteq> []" using assms(1) by (auto simp: fresh_request_def)
  have fresh: "cr_timestamp req \<notin> pending_or_completed_ts n" using assms(1) by (simp add: fresh_request_def)
  have "lock_and_propose now req call n = Inr m"
    using assms ne by (simp add: ProcessClientRequest_def fresh_request_def)
  then show ?thesis
  proof (cases rule: lock_and_propose_cases)
    case (stopped a b)
    then have "a = s" "b = r" using assms(1) by (simp_all add: fresh_request_def)
    with lock_accounts_cases [OF stopped(4) fresh] show ?thesis by simp
  next
    case (own a b n1)
    then have ab: "a = s" "b = r" using assms(1) by (simp_all add: fresh_request_def)
    note lc = lock_accounts_cases [OF own(4) fresh, unfolded ab]
    have "cr_timestamp req \<notin> pending_or_completed_ts n1" using lc fresh by simp
    note pf = propose_fresh [OF this, of call "accept_message req False False (shard_map n s = shard_map n r) n1"]
    show ?thesis using lc own(5) pf unfolding ab by (simp add: accept_message_def Let_def no_entry_def)
  next
    case (participant a b ab n1)
    with assms(2) show ?thesis by simp
  qed
qed

definition demo_ready :: node where
  "demo_ready = (demo_node 1)\<lparr>role := LEADER, current_ballot := Ballot 1 1, leader_id := 1,
     in_election := False\<rparr>"

definition demo_call :: client_call where
  "demo_call = ClientCall 50 (demo_request ''1'' ''2'' 4 7)"

lemma demo_call_sel [simp]: "call_id demo_call = 50"
  by (simp add: demo_call_def)

lemma demo_ready_sel [simp]:
  "role demo_ready = LEADER" "leader_id demo_ready = 1" "shard_map demo_ready = demo_shards"
  "balance_locks demo_ready = vec_fill 9001 False" "last_seqnum demo_ready = 0" "alive demo_ready"
  "pending_or_completed_ts demo_ready = {}" "last_reply_per_client demo_ready = Map.empty"
  "outbox demo_ready = []" "accept_log demo_ready = []" "pending_client_calls demo_ready = []"
  by (simp_all add: demo_ready_def)

lemma demo_fresh:
  "fresh_request (demo_request ''1'' ''2'' 4 7) 1 2 demo_ready"
  "fresh_request (demo_request ''1'' ''1'' 4 7) 1 1 demo_ready"
  by (simp_all add: fresh_request_def known_reply_def)

lemma demo_process:
  "\<exists>m. ProcessClientRequest 0 (demo_request ''1'' ''2'' 4 7) demo_call demo_ready = Inr m"
  "\<exists>m. ProcessClientRequest 0 (demo_request ''1'' ''1'' 4 7) demo_call demo_ready = Inr m"
  by (simp_all add: ProcessClientRequest_def known_reply_def lock_and_propose_def lock_accounts_def
      try_lock_def unlock_def Let_def)

theorem locks_all_or_nothing_witness:
  "\<exists>m k. ProcessClientRequest 0 (demo_request ''1'' ''2'' 4 7) demo_call demo_ready = Inr m \<and>
     locked m 1 \<and> locked m 2 \<and> \<not> locked m 3 \<and> last_seqnum m = 1 \<and>
     ProcessClientRequest 0 (demo_request ''1'' ''1'' 4 7) demo_call demo_ready = Inr k \<and>
     \<not> locked k 1 \<and> last_seqnum k = 0"
proof -
  obtain m k where m: "ProcessClientRequest 0 (demo_request ''1'' ''2'' 4 7) demo_call demo_ready = Inr m"
    and k: "ProcessClientRequest 0 (demo_request ''1'' ''1'' 4 7) demo_call demo_ready = Inr k"
    using demo_process by blast
  show ?thesis
    using m k locks_all_or_nothing [OF demo_fresh(1) _ m] locks_all_or_nothing [OF demo_fresh(2) _ k]
    by (simp add: can_lock_def lock_set_def)
qed

section \<open>Every call is answered or kept\<close>

definition answered :: "client_call \<Rightarrow> node \<Rightarrow> bool" where
  "answered call m \<longleftrightarrow> RespondClientRequest (call_id call) \<in> set (outbox m)"

definition call_kept :: "client_call \<Rightarrow> node \<Rightarrow> bool" where
  "call_kept call m \<longleftrightarrow> (\<exists>s. map_of (pending_client_calls m) s = Some call)"

lemma answered_respond [simp]: "answered call (respond_client call n)"
  by (simp add: answered_def)

lemma propose_answers: "answered call (propose_request req call msg n) \<or>
    call_kept call (propose_request req call msg n)"
  using propose_fresh(3) [of req n call msg] propose_known [of req n call msg]
  by (cases "cr_timestamp req \<in> pending_or_completed_ts n") (auto simp: call_kept_def)

lemma lock_accounts_answers:
  "lock_accounts now req call s r n = Inr (False, m) \<Longrightarrow> answered call m"
  by (auto simp: lock_accounts_def Let_def exn_simps split: if_splits prod.splits)

text \<open>
  C22: no client call is lost. When \<^verbatim>\<open>ProcessClientRequest\<close> returns, the call has been
  answered or is kept with a proposed entry, except on a node that is not the leader and does
  not know one: there a request with an account is dropped and its call stays open.
\<close>

theorem call_answered_or_kept:
  assumes "ProcessClientRequest now req call n = Inr m"
  shows "answered call m \<or> call_kept call m \<or>
    (m = n \<and> role n \<noteq> LEADER \<and> leader_id n = - 1 \<and> cr_from_account req \<noteq> [])"
proof -
  consider (empty) "cr_from_account req = []"
    | (forward) "cr_from_account req \<noteq> []" "role n \<noteq> LEADER"
    | (known) "known_reply req n \<or> cr_timestamp req \<in> pending_or_completed_ts n"
        "role n = LEADER" "cr_from_account req \<noteq> []"
    | (read_only) "cr_read_only req" "answer_read_only req call n = Inr m"
    | (propose) "lock_and_propose now req call n = Inr m"
    using assms by (auto simp: ProcessClientRequest_def split: if_splits)
  then show ?thesis
  proof cases
    case empty
    with assms show ?thesis by (auto simp: ProcessClientRequest_def)
  next
    case forward
    with assms show ?thesis
      by (auto simp: ProcessClientRequest_def forward_request_def exn_simps split: if_splits)
  next
    case known
    with assms show ?thesis by (auto simp: ProcessClientRequest_def split: if_splits)
  next
    case read_only
    then show ?thesis by (auto simp: answer_read_only_def Let_def exn_simps split: if_splits)
  next
    case propose
    then show ?thesis
      by (cases rule: lock_and_propose_cases) (use propose_answers lock_accounts_answers in blast)+
  qed
qed

theorem call_answered_or_kept_witness:
  "\<exists>m. ProcessClientRequest 0 (demo_request ''1'' ''2'' 4 7) demo_call demo_ready = Inr m \<and>
     (answered demo_call m \<or> call_kept demo_call m)"
proof -
  obtain m where m: "ProcessClientRequest 0 (demo_request ''1'' ''2'' 4 7) demo_call demo_ready = Inr m"
    using demo_process(1) by blast
  from call_answered_or_kept [OF m] m show ?thesis by auto
qed

section \<open>The vote of the participant\<close>

lemma lock_participant_sel:
  assumes "lock_participant req s r n = Inr (ab, m)"
  shows "ab = locked n r" "pending_or_completed_ts m = pending_or_completed_ts n"
    "last_seqnum m = last_seqnum n" "role m = role n" "current_ballot m = current_ballot n"
    "cluster_leaders m (shard_map n s) = cr_from_node req" "accounts m = accounts n"
    "\<forall>i. locked m i \<longleftrightarrow> locked n i \<or> i = r"
  using assms by (auto simp: lock_participant_def Let_def exn_simps try_lock_Inr split: if_splits)

text \<open>
  C18: the participant's vote. A leader that receives a new PREPARE proposes it in its cluster with
  status P when the receiver's account is free, which it then locks, and with status A when it is
  locked; in both cases it takes the sending node for the leader of the coordinator's cluster.
\<close>

theorem participant_vote:
  assumes "fresh_request req s r n" and "cr_two_pc_msg req = ''PREPARE''"
    and "ProcessClientRequest now req call n = Inr m"
  shows "locked m r \<and> (\<forall>i. i \<noteq> r \<longrightarrow> locked m i = locked n i) \<and>
    cluster_leaders m (shard_map n s) = cr_from_node req \<and>
    (\<exists>e. map_of (accept_log m) (last_seqnum n + 1) = Some e \<and> ae_request e = req \<and>
       ae_two_pc_status e = (if locked n r then ''A'' else ''P''))"
proof -
  have ne: "cr_from_account req \<noteq> []" using assms(1) by (auto simp: fresh_request_def)
  have "lock_and_propose now req call n = Inr m"
    using assms ne by (simp add: ProcessClientRequest_def fresh_request_def)
  then obtain ab n1 where la: "lock_participant req s r n = Inr (ab, n1)"
    and m: "m = propose_request req call (accept_message req True ab False n1) n1"
    by (cases rule: lock_and_propose_cases) (use assms(1,2) in \<open>auto simp: fresh_request_def\<close>)
  note lp = lock_participant_sel [OF la]
  have f: "cr_timestamp req \<notin> pending_or_completed_ts n1"
    using lp(2) assms(1) by (simp add: fresh_request_def)
  note pf = propose_fresh [OF f, of call "accept_message req True ab False n1"]
  have "cluster_leaders m = cluster_leaders n1"
    using f by (simp add: m propose_request_def Let_def broadcast_cluster_def emits_def log_put_def)
  with pf lp show ?thesis unfolding m by (auto simp: accept_message_def Let_def no_entry_def)
qed

definition demo_prepare_request :: client_request where
  "demo_prepare_request = (demo_request ''3001'' ''1'' 4 7)\<lparr>cr_two_pc_msg := ''PREPARE'', cr_from_node := 5\<rparr>"

lemma demo_prepare_request_fresh: "fresh_request demo_prepare_request 3001 1 demo_ready"
  by (simp add: fresh_request_def demo_prepare_request_def known_reply_def)

theorem participant_vote_witness:
  "\<exists>m. ProcessClientRequest 0 demo_prepare_request demo_call demo_ready = Inr m \<and>
     locked m 1 \<and> cluster_leaders m 2 = 5"
proof -
  obtain m where m: "ProcessClientRequest 0 demo_prepare_request demo_call demo_ready = Inr m"
    by (simp add: ProcessClientRequest_def known_reply_def lock_and_propose_def lock_participant_def
        try_lock_def Let_def demo_prepare_request_def demo_ready_def)
  from participant_vote [OF demo_prepare_request_fresh _ m] m show ?thesis
    by (auto simp: demo_prepare_request_def)
qed

section \<open>An election between the two phases\<close>

lemma revert_one:
  assumes "wal n = [(seq, w)]" and "log_lookup seq n = e" and "ae_phase2_result e = []"
    and "stoi (cr_from_account (ae_request e)) = Inr s" and "cluster_id n = shard_map n s"
    and "queued_client_requests n = []" and "OnElectionComplete now n = Inr m"
  shows "balance m s = before_value w" "wal m = []"
proof -
  let ?n = "n\<lparr>in_election := False\<rparr>"
  obtain e' n1 where at: "accept_log_at seq ?n = (e', n1)" by fastforce
  note v = accept_log_at_view [OF at]
  have e': "e' = e" using v(2) assms(2) by (simp add: log_lookup_def)
  have wa: "wal_account (ae_request e) n1 = Inr s"
    using wal_account_view [OF v(1), of "ae_request e"] assms(4,5) by (simp add: wal_account_def)
  have q: "queued_client_requests k = []" if "recon_frame n1 k" for k
    using recon_frame_sel(24) [OF that] recon_frame_sel(24) [of ?n n1] v(1) assms(6)
    by (simp add: recon_view_def)
  from assms(7) obtain k where k: "reconcile_wal_entry revert_undecided (seq, w) ?n = Inr k"
    and rest: "(if leader_id k \<noteq> - 1 then foldE (\<lambda>q. ProcessClientRequest now (fst q) (snd q))
        (queued_client_requests k) (k\<lparr>queued_client_requests := []\<rparr>) else Inr k) = Inr m"
    by (auto simp: OnElectionComplete_def Let_def assms(1) exn_simps)
  from k at e' assms(3) wa have r: "revert_undecided seq s w n1 = Inr k"
    by (simp add: reconcile_wal_entry_def)
  then obtain k1 k2 where k1: "set_account s (before_value w) n1 = Inr k1" "unlock s k1 = Inr k2"
      and kk: "k = wal_erase seq k2"
    by (auto simp: revert_undecided_def exn_simps)
  have "recon_frame n1 k"
    using set_account_frame [OF k1(1)] unlock_frame [OF k1(2)] wal_erase_frame kk
    by (metis recon_frame_trans)
  then have "accounts m = accounts k \<and> wal m = wal k"
    using rest q by (auto split: if_splits)
  moreover have "balance k s = before_value w" "wal k = []"
    using k1 kk v(3,4) assms(1)
    by (auto simp: set_account_def unlock_def wal_erase_def omap_erase_def exn_simps)
  ultimately show "balance m s = before_value w" "wal m = []" by simp_all
qed

text \<open>
  C30: a view change between the two phases loses a committed debit. A replica of the coordinator's
  cluster that has executed phase 1 reverts it at the end of the election and forgets its
  write-ahead entry; the commit that follows does not apply it again, so the sender keeps the money
  although the transaction is committed.
\<close>

theorem view_change_loses_debit:
  assumes "wal c = []" and "queued_client_requests c = []" and "cross_shard_request req s r c"
    and "cluster_id c = shard_map c s"
    and "ae_request (log_lookup seq c) = req" and "ae_phase2_result (log_lookup seq c) = []"
    and "ExecuteTransaction req seq ''COORD'' c = Inr (True, c1)"
    and "OnElectionComplete now c1 = Inr c2" and "coord_outcome ''C_COORD'' seq s c2 c3"
  shows "balance c1 s = balance c s - cr_amount req \<and> balance c3 s = balance c s"
proof -
  from assms(7) have c1: "c1 = prepared seq s (- cr_amount req) c"
    by (cases rule: ExecuteTransaction_cases) (use assms(3) in \<open>auto simp: cross_shard_request_def\<close>)
  have st: "stoi (cr_from_account req) = Inr s" using assms(3) by (simp add: cross_shard_request_def)
  have "balance c2 s = balance c s"
    using revert_one(1) [of c1 seq "WalEntry (balance c s) (balance c s - cr_amount req)" _ s now c2]
      assms(1,2,4-6,8) st
    by (simp add: c1 prepared_def log_lookup_def)
  moreover have "accounts c3 = accounts c2"
    using assms(9) by (auto simp: coord_outcome_def outcome_commit)
  ultimately show ?thesis by (simp add: c1 prepared_def)
qed

definition demo_logged :: node where
  "demo_logged = (demo_node 2)\<lparr>accept_log :=
     [(1, demo_entry 1 ''COORD'' [] (demo_request ''1'' ''3001'' 4 7))]\<rparr>"

lemma demo_view_change:
  "\<exists>c1 c2 c3. ExecuteTransaction (demo_request ''1'' ''3001'' 4 7) 1 ''COORD'' demo_logged = Inr (True, c1) \<and>
     OnElectionComplete 0 c1 = Inr c2 \<and> ExecuteRepeatedTwoPCEntry (demo_outcome ''C_COORD'' 1) c2 = Inr c3"
  by (simp add: demo_logged_def exec_coord [of _ 1 3001] valid_accounts_def prepared_def
      OnElectionComplete_def Let_def reconcile_wal_entry_def accept_log_at_def wal_account_def
      revert_undecided_def set_account_def unlock_def wal_erase_def omap_erase_def
      ExecuteRepeatedTwoPCEntry_def record_outcome_def resolve_two_pc_def reply_two_pc_def log_put_def)

theorem view_change_loses_debit_witness:
  "\<exists>c1 c2 c3. ExecuteTransaction (demo_request ''1'' ''3001'' 4 7) 1 ''COORD'' demo_logged = Inr (True, c1) \<and>
     OnElectionComplete 0 c1 = Inr c2 \<and>
     ExecuteRepeatedTwoPCEntry (demo_outcome ''C_COORD'' 1) c2 = Inr c3 \<and>
     balance c1 1 = 6 \<and> balance c3 1 = 10"
proof -
  obtain c1 c2 c3 where
    run: "ExecuteTransaction (demo_request ''1'' ''3001'' 4 7) 1 ''COORD'' demo_logged = Inr (True, c1)"
      "OnElectionComplete 0 c1 = Inr c2" "ExecuteRepeatedTwoPCEntry (demo_outcome ''C_COORD'' 1) c2 = Inr c3"
    using demo_view_change by blast
  have "coord_outcome ''C_COORD'' 1 1 c2 c3" by (rule coord_outcomeI [OF run(3)]) simp_all
  from view_change_loses_debit [OF _ _ _ _ _ _ run(1,2) this, of 3001] run
  show ?thesis by (simp add: demo_logged_def cross_shard_request_def log_lookup_def)
qed

end
