(* ===== verification/ViewChange.thy ===== *)
theory ViewChange
  imports Requests
begin

text \<open>
  The view change and the acceptor (\<^verbatim>\<open>src/paxos_node.cpp\<close>): accepting proposals,
  counting promises, merging the logs they carry, filling gaps with NO-OP entries, and the NEW-VIEW
  message on both sides. \<^verbatim>\<open>received_promise_logs_\<close> is an unordered map; the model
  visits it in order of first insertion.
\<close>

section \<open>Accepting a proposal\<close>

definition FillAcceptAck :: "accepted_entry \<Rightarrow> ack \<Rightarrow> node \<Rightarrow> ack" where
  "FillAcceptAck entry a n =
     (let a1 = a\<lparr>ak_ballot := ae_ballot entry, ak_seqnum := ae_seqnum entry, ak_node_id := node_id n\<rparr>;
          status = ae_two_pc_status entry
      in if is_phase2 status then a1\<lparr>ak_phase := 2, ak_status := status\<rparr>
         else if is_phase1 status then a1\<lparr>ak_status := status\<rparr>
         else a1)"

definition accept_line :: "accepted_entry \<Rightarrow> string" where
  "accept_line e =
     ''<ACCEPT, '' @ ballot_ToString (ae_ballot e) @ '', '' @ to_string (ae_seqnum e) @ '' ('' @
     cr_from_account (ae_request e) @ '', '' @ cr_to_account (ae_request e) @ '', '' @
     to_string_real (cr_amount (ae_request e)) @ '')> '' @ newline"

text \<open>The part under the lock, for a proposal that is not below the promise.\<close>

definition accept_proposal :: "int \<Rightarrow> accepted_entry \<Rightarrow> node \<Rightarrow> ack \<times> node" where
  "accept_proposal now request n =
     (let n1 = (if ballot_gt (ae_ballot request) (highest_promised_ballot n)
                then SetNewLeader (b_node (ae_ballot request)) (b_counter (ae_ballot request))
                       (n\<lparr>highest_promised_ballot := ae_ballot request\<rparr>)
                else n);
          n2 = (if map_of (accept_log n1) (ae_seqnum request) = None
                then log_put (ae_seqnum request) request n1 else n1);
          n3 = n2\<lparr>pending_entries := (pending_entries n2)(ae_seqnum request \<mapsto> request)\<rparr>;
          n4 = ResetElectionTimer now n3
      in ((FillAcceptAck request (no_ack\<lparr>ak_ballot := ae_ballot request\<rparr>) n4)\<lparr>ak_accepted := True\<rparr>, n4))"

definition HandlePropose :: "int \<Rightarrow> accepted_entry \<Rightarrow> node \<Rightarrow> exn + (ack \<times> node)" where
  "HandlePropose now request n =
     (if \<not> alive n then Inr (no_ack, n)
      else if ae_new_leader request \<noteq> 0 then
        Inr (no_ack, n\<lparr>cluster_leaders :=
          (cluster_leaders n)(cluster_of_node (divisor n) (ae_new_leader request) := ae_new_leader request)\<rparr>)
      else
        let n1 = plog (accept_line request) n in
        bindE (if role n1 \<noteq> BACKUP \<and> ballot_gt (ae_ballot request) (current_ballot n1) then
                 bindE (DemoteToBackup n1) (\<lambda>k. Inr (StartElectionTimer
                   (SetNewLeader (b_node (ae_ballot request)) (b_counter (ae_ballot request)) k)))
               else Inr n1) (\<lambda>n2.
          if ballot_lt (ae_ballot request) (highest_promised_ballot n2)
          then Inr (no_ack\<lparr>ak_ballot := ae_ballot request\<rparr>, n2)
          else Inr (accept_proposal now request n2)))"

section \<open>Merging the promised logs\<close>

definition is_decided :: "accepted_entry \<Rightarrow> bool" where
  "is_decided e \<longleftrightarrow> ae_phase2_result e \<noteq> [] \<or> is_phase2 (ae_two_pc_status e)"

definition merge_choose ::
  "accepted_entry \<Rightarrow> (int, accepted_entry) omap \<Rightarrow> (int, accepted_entry) omap" where
  "merge_choose accepted log =
     (let seq = ae_seqnum accepted in
      case map_of log seq of
        None \<Rightarrow> omap_put seq accepted log
      | Some cur \<Rightarrow>
          let higher_ballot = ballot_gt (ae_ballot accepted) (ae_ballot cur);
              cur_decided = is_decided cur; inc_decided = is_decided accepted
          in if inc_decided \<and> \<not> cur_decided then omap_put seq accepted log
             else if cur_decided \<and> \<not> inc_decided then log
             else if higher_ballot then omap_put seq accepted log
             else log)"

definition carry_outcome :: "accepted_entry \<Rightarrow> accepted_entry \<Rightarrow> accepted_entry" where
  "carry_outcome accepted winner =
     (if ae_phase2_result winner = [] then
        (if ae_phase2_result accepted \<noteq> [] then winner\<lparr>ae_phase2_result := ae_phase2_result accepted\<rparr>
         else if is_phase2 (ae_two_pc_status winner)
         then winner\<lparr>ae_phase2_result := ae_two_pc_status winner\<rparr>
         else winner)
      else winner)"

definition merge_entry ::
  "accepted_entry \<Rightarrow> (int, accepted_entry) omap \<Rightarrow> (int, accepted_entry) omap" where
  "merge_entry accepted log =
     (let seq = ae_seqnum accepted; log1 = merge_choose accepted log in
      case map_of log1 seq of
        Some winner \<Rightarrow> omap_put seq (carry_outcome accepted winner) log1
      | None \<Rightarrow> log1)"

definition promised_entries :: "node \<Rightarrow> accepted_entry list" where
  "promised_entries n = concat (map snd (received_promise_logs n))"

text \<open>One inherited entry, for the tables that only proposing fills otherwise.\<close>

definition seed_entry :: "int \<times> accepted_entry \<Rightarrow> node \<Rightarrow> node" where
  "seed_entry p n =
     (let req = ae_request (snd p); p1 = ae_two_pc_status (snd p) in
      if cr_client_id req = ''NO-OP'' then n
      else
        let n1 = n\<lparr>digest_to_seqnum := (digest_to_seqnum n)(cr_timestamp req := fst p)\<rparr> in
        if (p1 = ''COORD'' \<or> p1 = ''P'') \<and> ae_phase2_result (snd p) = [] then n1
        else n1\<lparr>pending_or_completed_ts := insert (cr_timestamp req) (pending_or_completed_ts n1)\<rparr>)"

definition MergeAcceptLogsFromPromises :: "node \<Rightarrow> node" where
  "MergeAcceptLogsFromPromises n =
     (let entries = promised_entries n;
          log = fold merge_entry entries (accept_log n);
          max_seqnum = fold (\<lambda>e mx. if ae_seqnum e > mx then ae_seqnum e else mx) entries
                         (omap_max_key (accept_log n));
          n1 = n\<lparr>accept_log := log, last_seqnum := max_seqnum, received_promise_logs := []\<rparr>
      in fold seed_entry log n1)"

definition noop_entry :: "int \<Rightarrow> node \<Rightarrow> accepted_entry" where
  "noop_entry seq n =
     no_entry\<lparr>ae_ballot := current_ballot n, ae_seqnum := seq,
       ae_request := no_request\<lparr>cr_client_id := ''NO-OP''\<rparr>, ae_node_id := node_id n\<rparr>"

definition fill_gap :: "int \<Rightarrow> node \<Rightarrow> node" where
  "fill_gap seq n =
     (if map_of (accept_log n) seq = None then log_put seq (noop_entry seq n) n else n)"

definition FillMissingNoOps :: "node \<Rightarrow> node" where
  "FillMissingNoOps n = fold fill_gap [1..last_seqnum n] n"

section \<open>Announcing the new view\<close>

definition InformClustersOfElection :: "node \<Rightarrow> node" where
  "InformClustersOfElection n =
     emits (map (\<lambda>p. CallAccept p (no_entry\<lparr>ae_new_leader := node_id n\<rparr>))
       (filter (\<lambda>p. p \<noteq> node_id n \<and> \<not> in_my_range n p) (peers n))) n"

definition new_view_line :: "ballot \<Rightarrow> node \<Rightarrow> string" where
  "new_view_line b n =
     ''<NEW-VIEW, '' @ ballot_ToString b @ '','' @ AcceptLogToString (accept_log n) @ ''> '' @ newline"

text \<open>The log entries up to the last sequence number, in order.\<close>

definition new_view_entries :: "node \<Rightarrow> (int \<times> accepted_entry) list" where
  "new_view_entries n = List.map_filter
     (\<lambda>seq. map_option (Pair seq) (map_of (accept_log n) seq)) [1..last_seqnum n]"

definition send_new_view_to :: "int \<Rightarrow> node \<Rightarrow> node" where
  "send_new_view_to p n =
     (let es = new_view_entries n;
          request = \<lparr>nv_ballot = current_ballot n, nv_accept_log = map snd es\<rparr>;
          n1 = n\<lparr>accepted_count := fold (\<lambda>s. count_insert s (b_counter (current_ballot n)) (node_id n))
                                   (map fst es) (accepted_count n)\<rparr>
      in
      if p = node_id n then
        let n2 = plog (new_view_line (nv_ballot request) n1) n1
        in n2\<lparr>new_view_logs := new_view_logs n2 @ [request]\<rparr>
      else emit (CallNewView p request) (n1\<lparr>max_seqnum_in_new_view := last_seqnum n1\<rparr>))"

definition SendNewView :: "node \<Rightarrow> node" where
  "SendNewView n =
     (if role n \<noteq> LEADER \<or> \<not> alive n then n
      else fold send_new_view_to (filter (in_my_range n) (peers n)) n)"

section \<open>Promises\<close>

definition promise_line :: "promise_response \<Rightarrow> node \<Rightarrow> string" where
  "promise_line reply n =
     ''<ACK, '' @ ballot_string_spaced (pr_ballot reply) @ '', '' @
     AcceptLogToString (accept_log n) @ ''> '' @ newline"

definition put_promise_log ::
  "int \<Rightarrow> accepted_entry list \<Rightarrow> (int \<times> accepted_entry list) list \<Rightarrow> (int \<times> accepted_entry list) list"
where
  "put_promise_log i es logs =
     (if i \<in> fst ` set logs then map (\<lambda>p. if fst p = i then (i, es) else p) logs else logs @ [(i, es)])"

definition take_leadership :: "int \<Rightarrow> node \<Rightarrow> exn + node" where
  "take_leadership now n =
     (let quorum_ballot = current_ballot n;
          n1 = FillMissingNoOps (MergeAcceptLogsFromPromises (n\<lparr>waiting_for_promises := False\<rparr>));
          n2 = InformClustersOfElection (SendNewView (BecomeLeader quorum_ballot n1))
      in OnElectionComplete now n2)"

definition HandlePromise :: "int \<Rightarrow> promise_response \<Rightarrow> node \<Rightarrow> exn + node" where
  "HandlePromise now reply n =
     (if \<not> alive n then Inr n
      else
        let n1 = plog (promise_line reply n) n in
        if \<not> pr_promised reply then Inr n1
        else if role n1 = LEADER \<or> \<not> waiting_for_promises n1 then Inr n1
        else if pr_node_id reply \<in> promises_received n1 then Inr n1
        else
          let n2 = n1\<lparr>promises_received := insert (pr_node_id reply) (promises_received n1),
                      received_promise_logs := put_promise_log (pr_node_id reply) (pr_accept_log reply)
                                                 (received_promise_logs n1)\<rparr>
          in if int (card (promises_received n2)) \<ge> f_max n2 + 1 then take_leadership now n2 else Inr n2)"

section \<open>NEW-VIEW at a backup\<close>

definition adopt_entry :: "accepted_entry \<Rightarrow> node \<Rightarrow> node" where
  "adopt_entry entry n =
     (case map_of (accept_log n) (ae_seqnum entry) of
        None \<Rightarrow> log_put (ae_seqnum entry) entry n
      | Some old \<Rightarrow> if b_counter (ae_ballot entry) > b_counter (ae_ballot old)
                    then log_put (ae_seqnum entry) entry n else n)"

definition new_view_ack :: "accepted_entry \<Rightarrow> node \<Rightarrow> ack" where
  "new_view_ack entry n =
     (let a = no_ack\<lparr>ak_ballot := current_ballot n, ak_seqnum := ae_seqnum entry,
                     ak_node_id := node_id n, ak_accepted := True\<rparr>;
          status = ae_two_pc_status entry
      in if is_phase2 status then a\<lparr>ak_phase := 2, ak_status := status\<rparr>
         else if is_phase1 status then a\<lparr>ak_status := status\<rparr> else a)"

definition process_new_view :: "new_view_request \<Rightarrow> nat \<Rightarrow> node \<Rightarrow> exn + node" where
  "process_new_view request call n =
     (let es = nv_accept_log request;
          n1 = fold adopt_entry es n;
          n2 = (if es = [] then emit (RespondNewView call) n1
                else n1\<lparr>newview_call_data := Some call, in_new_view := True,
                        max_seqnum_in_new_view := ae_seqnum (last es)\<rparr>)
      in foldE (\<lambda>e m. call_peer (leader_id m) (CallAcceptAck (leader_id m) (new_view_ack e m)) m) es n2)"

definition HandleNewView :: "int \<Rightarrow> new_view_request \<Rightarrow> nat \<Rightarrow> node \<Rightarrow> exn + node" where
  "HandleNewView now request call n =
     (if \<not> alive n then Inr n
      else
        let n1 = plog (new_view_line (nv_ballot request) n) n;
            n2 = n1\<lparr>new_view_logs := new_view_logs n1 @ [request]\<rparr>;
            n3 = (if role n2 = BACKUP \<and> alive n2 then ResetElectionTimer now n2 else n2);
            leader_ballot = nv_ballot request;
            adopt = SetNewLeader (b_node leader_ballot) (b_counter leader_ballot)
        in
        if role n3 = LEADER \<and> \<not> ballot_gt leader_ballot (current_ballot n3)
        then Inr (emit (RespondNewView call) n3)
        else
          bindE (if role n3 = LEADER
                 then bindE (DemoteToBackup n3) (\<lambda>k. Inr (StartElectionTimer (adopt k)))
                 else Inr n3) (\<lambda>n4.
          bindE (if role n4 = BACKUP
                 then OnElectionComplete now ((adopt n4)\<lparr>waiting_for_promises := False\<rparr>)
                 else Inr n4)
            (process_new_view request call)))"

section \<open>The merge keeps the strongest entry\<close>

text \<open>
  The order of the merge: a decided entry is above an undecided one, and among equally decided
  entries the one with the higher ballot is above.
\<close>

definition dominates :: "accepted_entry \<Rightarrow> accepted_entry \<Rightarrow> bool" where
  "dominates e a \<longleftrightarrow>
     (is_decided a \<longrightarrow> is_decided e) \<and> (is_decided e = is_decided a \<longrightarrow> ae_ballot a \<le> ae_ballot e)"

text \<open>The same proposal, up to the recorded outcome.\<close>

definition same_proposal :: "accepted_entry \<Rightarrow> accepted_entry \<Rightarrow> bool" where
  "same_proposal e a \<longleftrightarrow> e = a\<lparr>ae_phase2_result := ae_phase2_result e\<rparr>"

text \<open>
  The contract of a log merge: absorbing an entry leaves, for its sequence number, an entry that
  dominates both the old one and the new one and is one of the two; the others stay.
\<close>

locale log_merge =
  fixes absorb :: "'e \<Rightarrow> 'l \<Rightarrow> 'l" and look :: "'l \<Rightarrow> int \<Rightarrow> 'e option" and key :: "'e \<Rightarrow> int"
    and above :: "'e \<Rightarrow> 'e \<Rightarrow> bool" and similar :: "'e \<Rightarrow> 'e \<Rightarrow> bool"
  assumes above_refl: "above e e" and above_trans: "above e a \<Longrightarrow> above a b \<Longrightarrow> above e b"
    and similar_refl: "similar e e" and similar_trans: "similar e a \<Longrightarrow> similar a b \<Longrightarrow> similar e b"
    and absorb_other: "s \<noteq> key a \<Longrightarrow> look (absorb a l) s = look l s"
    and absorb_some: "\<exists>w. look (absorb a l) (key a) = Some w \<and> above w a \<and>
       (\<forall>c. look l (key a) = Some c \<longrightarrow> above w c) \<and>
       (similar w a \<or> (\<exists>c. look l (key a) = Some c \<and> similar w c))"
begin

lemma absorb_above:
  assumes "look l s = Some c"
  shows "\<exists>w. look (absorb a l) s = Some w \<and> above w c"
  using assms absorb_some [of a l] absorb_other [of s a l] above_refl by (cases "s = key a") auto

lemma fold_above_old:
  "look l s = Some c \<Longrightarrow> \<exists>w. look (fold absorb es l) s = Some w \<and> above w c"
proof (induction es arbitrary: l c)
  case Nil
  then show ?case using above_refl by auto
next
  case (Cons a es)
  from absorb_above [OF Cons.prems] obtain w where w: "look (absorb a l) s = Some w" "above w c" by blast
  from Cons.IH [OF w(1)] w(2) show ?case by (auto intro: above_trans)
qed

lemma fold_above_new:
  "a \<in> set es \<Longrightarrow> \<exists>w. look (fold absorb es l) (key a) = Some w \<and> above w a"
proof (induction es arbitrary: l)
  case Nil
  then show ?case by simp
next
  case (Cons b es)
  show ?case
  proof (cases "a = b")
    case True
    obtain w where w: "look (absorb a l) (key a) = Some w" "above w a" using absorb_some by blast
    from fold_above_old [OF w(1)] w(2) True show ?thesis by (auto intro: above_trans)
  next
    case False
    with Cons show ?thesis by simp
  qed
qed

lemma fold_origin:
  "look (fold absorb es l) s = Some w \<Longrightarrow>
   (\<exists>a\<in>set es. key a = s \<and> similar w a) \<or> (\<exists>c. look l s = Some c \<and> similar w c)"
proof (induction es arbitrary: l)
  case Nil
  then show ?case using similar_refl by auto
next
  case (Cons a es)
  then consider (new) "\<exists>b\<in>set es. key b = s \<and> similar w b"
    | (old) c where "look (absorb a l) s = Some c" "similar w c" by fastforce
  then show ?case
  proof cases
    case new
    then show ?thesis by auto
  next
    case old
    then show ?thesis
      using absorb_some [of a l] absorb_other [of s a l] similar_trans by (cases "s = key a") auto
  qed
qed

end

lemma carry_outcome_sel [simp]:
  "ae_ballot (carry_outcome a w) = ae_ballot w" "ae_request (carry_outcome a w) = ae_request w"
  "ae_two_pc_status (carry_outcome a w) = ae_two_pc_status w"
  "ae_seqnum (carry_outcome a w) = ae_seqnum w"
  by (simp_all add: carry_outcome_def)

lemma carry_outcome_decided: "dominates w a \<Longrightarrow> is_decided (carry_outcome a w) = is_decided w"
  by (auto simp: carry_outcome_def is_decided_def dominates_def)

lemma carry_outcome_similar: "same_proposal (carry_outcome a w) w"
  by (simp add: carry_outcome_def same_proposal_def)

lemma same_proposal_trans: "same_proposal e a \<Longrightarrow> same_proposal a b \<Longrightarrow> same_proposal e b"
  unfolding same_proposal_def
  by (erule ssubst [where t = e], erule ssubst [where t = a]) simp

lemma merge_choose_some:
  "\<exists>w. map_of (merge_choose a l) (ae_seqnum a) = Some w \<and> dominates w a \<and>
     (\<forall>c. map_of l (ae_seqnum a) = Some c \<longrightarrow> dominates w c) \<and>
     (w = a \<or> map_of l (ae_seqnum a) = Some w)"
  by (auto simp: merge_choose_def Let_def dominates_def split: option.split)

lemma merge_choose_other: "s \<noteq> ae_seqnum a \<Longrightarrow> map_of (merge_choose a l) s = map_of l s"
  by (simp add: merge_choose_def Let_def split: option.split)

interpretation lm: log_merge merge_entry map_of ae_seqnum dominates same_proposal
proof unfold_locales
  fix s l and a :: accepted_entry assume "s \<noteq> ae_seqnum a"
  then show "map_of (merge_entry a l) s = map_of l s"
    by (simp add: merge_entry_def Let_def merge_choose_other split: option.split)
next
  fix l and a :: accepted_entry
  obtain w where w: "map_of (merge_choose a l) (ae_seqnum a) = Some w" "dominates w a"
      "\<forall>c. map_of l (ae_seqnum a) = Some c \<longrightarrow> dominates w c" "w = a \<or> map_of l (ae_seqnum a) = Some w"
    using merge_choose_some by blast
  let ?w = "carry_outcome a w"
  have "map_of (merge_entry a l) (ae_seqnum a) = Some ?w" by (simp add: merge_entry_def w(1) Let_def)
  moreover have "dominates ?w b" if "dominates w b" for b
    using that carry_outcome_decided [OF w(2)] by (simp add: dominates_def)
  moreover have "same_proposal ?w w" by (rule carry_outcome_similar)
  ultimately show "\<exists>w. map_of (merge_entry a l) (ae_seqnum a) = Some w \<and> dominates w a \<and>
      (\<forall>c. map_of l (ae_seqnum a) = Some c \<longrightarrow> dominates w c) \<and>
      (same_proposal w a \<or> (\<exists>c. map_of l (ae_seqnum a) = Some c \<and> same_proposal w c))"
    using w by blast
next
  show "\<And>e a b. same_proposal e a \<Longrightarrow> same_proposal a b \<Longrightarrow> same_proposal e b"
    by (rule same_proposal_trans)
qed (auto simp: dominates_def same_proposal_def)

lemma seed_entry_log [simp]: "accept_log (seed_entry p n) = accept_log n"
  "last_seqnum (seed_entry p n) = last_seqnum n"
  by (simp_all add: seed_entry_def Let_def)

lemma seed_fold_log [simp]: "accept_log (fold seed_entry ps n) = accept_log n"
  "last_seqnum (fold seed_entry ps n) = last_seqnum n"
  by (induction ps arbitrary: n) simp_all

lemma merged_log: "accept_log (MergeAcceptLogsFromPromises n) =
    fold merge_entry (promised_entries n) (accept_log n)"
  by (simp add: MergeAcceptLogsFromPromises_def Let_def)

definition known_for :: "int \<Rightarrow> accepted_entry \<Rightarrow> node \<Rightarrow> bool" where
  "known_for s a n \<longleftrightarrow> (a \<in> set (promised_entries n) \<and> ae_seqnum a = s) \<or> map_of (accept_log n) s = Some a"

text \<open>
  C6: the merged log of a new leader dominates everything it was told and holds nothing else. The
  entries known for a number are those of its own log and of the promises. For each of them the
  merged log has an entry that is decided if that entry was, and, when both are equally decided, has at
  least its ballot (a decided entry wins over an undecided one of a higher ballot). Every merged entry,
  under whatever number, is an entry known for that number, up to the outcome recorded on it. So
  a decided entry never falls back to its first phase, and no number gets an entry unless one was known.
\<close>

theorem merge_dominates:
  "(\<forall>s a. known_for s a n \<longrightarrow>
      (\<exists>e. map_of (accept_log (MergeAcceptLogsFromPromises n)) s = Some e \<and> dominates e a)) \<and>
   (\<forall>s e. map_of (accept_log (MergeAcceptLogsFromPromises n)) s = Some e \<longrightarrow>
      (\<exists>b. known_for s b n \<and> same_proposal e b))"
proof (intro conjI allI impI)
  fix s a assume "known_for s a n"
  then show "\<exists>e. map_of (accept_log (MergeAcceptLogsFromPromises n)) s = Some e \<and> dominates e a"
    using lm.fold_above_new [of a "promised_entries n" "accept_log n"]
      lm.fold_above_old [of "accept_log n" s a "promised_entries n"]
    unfolding known_for_def merged_log by blast
next
  fix s e assume "map_of (accept_log (MergeAcceptLogsFromPromises n)) s = Some e"
  from lm.fold_origin [OF this [unfolded merged_log]]
  show "\<exists>b. known_for s b n \<and> same_proposal e b" unfolding known_for_def by blast
qed

text \<open>A committed transfer against a higher-ballot copy of its first phase.\<close>

definition demo_candidate :: node where
  "demo_candidate = (demo_node 2)\<lparr>
     accept_log := [(1, (demo_entry 1 ''COORD'' [] (demo_request ''1'' ''3001'' 4 7))\<lparr>ae_ballot := Ballot 3 2\<rparr>)],
     received_promise_logs := [(3, [demo_entry 1 ''C_COORD'' [] (demo_request ''1'' ''3001'' 4 7),
                                    demo_entry 3 [] [] (demo_request ''2'' ''3'' 1 8)])]\<rparr>"

theorem merge_dominates_witness:
  "(\<exists>e. map_of (accept_log (MergeAcceptLogsFromPromises demo_candidate)) 1 = Some e \<and> is_decided e) \<and>
   map_of (accept_log (MergeAcceptLogsFromPromises demo_candidate)) 2 = None"
proof -
  have "known_for 1 (demo_entry 1 ''C_COORD'' [] (demo_request ''1'' ''3001'' 4 7)) demo_candidate"
    "\<not> known_for 2 b demo_candidate" for b
    by (auto simp: known_for_def demo_candidate_def promised_entries_def demo_entry_def)
  moreover have "is_decided (demo_entry 1 ''C_COORD'' [] (demo_request ''1'' ''3001'' 4 7))"
    by (simp add: is_decided_def demo_entry_def)
  ultimately show ?thesis using merge_dominates [of demo_candidate] unfolding dominates_def
    by (metis not_None_eq)
qed

section \<open>The new leader's log has no gaps\<close>

lemma fill_gap_log:
  "map_of (accept_log (fill_gap s n)) j =
     (if j = s \<and> map_of (accept_log n) s = None then Some (noop_entry s n) else map_of (accept_log n) j)"
  "last_seqnum (fill_gap s n) = last_seqnum n" "noop_entry j (fill_gap s n) = noop_entry j n"
  by (auto simp: fill_gap_def log_put_def noop_entry_def)

lemma fill_gaps_log:
  "map_of (accept_log (fold fill_gap ss n)) j =
     (case map_of (accept_log n) j of
        Some e \<Rightarrow> Some e | None \<Rightarrow> if j \<in> set ss then Some (noop_entry j n) else None) \<and>
   last_seqnum (fold fill_gap ss n) = last_seqnum n"
proof (induction ss arbitrary: n)
  case Nil
  then show ?case by (simp split: option.split)
next
  case (Cons s ss)
  show ?case using Cons.IH [of "fill_gap s n"] by (auto simp: fill_gap_log split: option.splits)
qed

lemma FillMissingNoOps_log:
  "map_of (accept_log (FillMissingNoOps n)) s =
     (case map_of (accept_log n) s of
        Some e \<Rightarrow> Some e
      | None \<Rightarrow> if 1 \<le> s \<and> s \<le> last_seqnum n then Some (noop_entry s n) else None)"
  "last_seqnum (FillMissingNoOps n) = last_seqnum n"
  using fill_gaps_log [of "[1..last_seqnum n]" n s] by (auto simp: FillMissingNoOps_def split: option.split)

lemma fold_max_ge:
  "mx \<le> fold (\<lambda>e mx. if f e > mx then f e else mx) es (mx :: int) \<and>
   (\<forall>e\<in>set es. f e \<le> fold (\<lambda>e mx. if f e > mx then f e else mx) es mx)"
proof (induction es arbitrary: mx)
  case Nil
  then show ?case by simp
next
  case (Cons a es)
  let ?m = "if f a > mx then f a else mx"
  have "mx \<le> ?m" "f a \<le> ?m" by simp_all
  then show ?case using Cons.IH [of ?m] by (auto intro: order_trans)
qed

lemma merge_last:
  assumes "omap_ok (accept_log n)"
  shows "e \<in> set (promised_entries n) \<Longrightarrow> ae_seqnum e \<le> last_seqnum (MergeAcceptLogsFromPromises n)"
    and "map_of (accept_log n) s = Some e \<Longrightarrow> s \<le> last_seqnum (MergeAcceptLogsFromPromises n)"
proof -
  have last: "last_seqnum (MergeAcceptLogsFromPromises n) =
      fold (\<lambda>e mx. if ae_seqnum e > mx then ae_seqnum e else mx)
        (promised_entries n) (omap_max_key (accept_log n))"
    by (simp add: MergeAcceptLogsFromPromises_def Let_def)
  note ge = fold_max_ge [of "omap_max_key (accept_log n)" ae_seqnum "promised_entries n", folded last]
  show "e \<in> set (promised_entries n) \<Longrightarrow> ae_seqnum e \<le> last_seqnum (MergeAcceptLogsFromPromises n)"
    using ge by blast
  assume "map_of (accept_log n) s = Some e"
  then have "s \<in> fst ` set (accept_log n)" using map_of_SomeD by force
  then show "s \<le> last_seqnum (MergeAcceptLogsFromPromises n)"
    using omap_max_key_ge [OF assms] ge by fastforce
qed

text \<open>
  C15: after merging and filling, the new leader's log has no gap. Its last sequence number is at
  least that of every entry it knew or was told about; every sequence number from 1 to it has an
  entry, the merged one where there is one and otherwise a NO-OP at the leader's ballot. The first
  NO-OP that is executed ends the process, because its account numbers are empty.
\<close>

theorem new_leader_log_complete:
  assumes "omap_ok (accept_log n)"
    and "m = FillMissingNoOps (MergeAcceptLogsFromPromises n)"
  shows "(\<forall>e\<in>set (promised_entries n). ae_seqnum e \<le> last_seqnum m) \<and>
    (\<forall>s e. map_of (accept_log n) s = Some e \<longrightarrow> s \<le> last_seqnum m) \<and>
    (\<forall>s. 1 \<le> s \<and> s \<le> last_seqnum m \<longrightarrow>
       (case map_of (accept_log (MergeAcceptLogsFromPromises n)) s of
          Some e \<Rightarrow> map_of (accept_log m) s = Some e
        | None \<Rightarrow> \<exists>e. map_of (accept_log m) s = Some e \<and> cr_client_id (ae_request e) = ''NO-OP'' \<and>
                    (\<forall>sq st k. ExecuteTransaction (ae_request e) sq st k = Inl InvalidArgument)))"
proof -
  have last: "last_seqnum m = last_seqnum (MergeAcceptLogsFromPromises n)"
    by (simp add: assms(2) FillMissingNoOps_log)
  have "\<forall>e\<in>set (promised_entries n). ae_seqnum e \<le> last_seqnum m"
    "\<forall>s e. map_of (accept_log n) s = Some e \<longrightarrow> s \<le> last_seqnum m"
    using merge_last [OF assms(1)] unfolding last by blast+
  moreover have "ExecuteTransaction (ae_request (noop_entry s k)) sq st j = Inl InvalidArgument"
    for s k sq st j
    by (simp add: noop_entry_def no_entry_def no_request_def ExecuteTransaction_def)
  moreover have "cr_client_id (ae_request (noop_entry s k)) = ''NO-OP''" for s k
    by (simp add: noop_entry_def)
  ultimately show ?thesis
    by (auto simp: assms(2) FillMissingNoOps_log split: option.split)
qed

theorem new_leader_log_complete_witness:
  "last_seqnum (FillMissingNoOps (MergeAcceptLogsFromPromises demo_candidate)) \<ge> 3"
  using new_leader_log_complete [of demo_candidate, OF _ refl]
  by (auto simp: demo_candidate_def promised_entries_def omap_ok_def)

section \<open>What an acceptor accepts\<close>

lemma accept_proposal_sel:
  "ak_accepted (fst (accept_proposal now request n))"
  "ak_seqnum (fst (accept_proposal now request n)) = ae_seqnum request"
  "ak_ballot (fst (accept_proposal now request n)) = ae_ballot request"
  "highest_promised_ballot (snd (accept_proposal now request n)) =
     max (highest_promised_ballot n) (ae_ballot request)"
  "pending_entries (snd (accept_proposal now request n)) (ae_seqnum request) = Some request"
  "map_of (accept_log (snd (accept_proposal now request n))) (ae_seqnum request) =
     (case map_of (accept_log n) (ae_seqnum request) of Some e \<Rightarrow> Some e | None \<Rightarrow> Some request)"
  by (auto simp: accept_proposal_def Let_def FillAcceptAck_def SetNewLeader_def log_put_def
      ResetElectionTimer_def StartElectionTimer_def split: option.split)

text \<open>
  What a live backup accepts. A proposal is acknowledged exactly when its ballot is not below
  the highest promise, which then becomes at least that ballot; a refused one changes nothing but
  the printed log. An acknowledged proposal is the pending entry for its number, but the accept log,
  which promises report, keeps an older value if it has one.
\<close>

theorem backup_accepts:
  assumes "alive n" and "role n = BACKUP" and "ae_new_leader request = 0"
  shows "\<exists>a m. HandlePropose now request n = Inr (a, m) \<and>
    (ak_accepted a \<longleftrightarrow> highest_promised_ballot n \<le> ae_ballot request) \<and>
    (if highest_promised_ballot n \<le> ae_ballot request then
       ak_seqnum a = ae_seqnum request \<and> highest_promised_ballot m = ae_ballot request \<and>
       pending_entries m (ae_seqnum request) = Some request \<and>
       map_of (accept_log m) (ae_seqnum request) =
         (case map_of (accept_log n) (ae_seqnum request) of Some e \<Rightarrow> Some e | None \<Rightarrow> Some request)
     else m = plog (accept_line request) n)"
proof (cases "highest_promised_ballot n \<le> ae_ballot request")
  case True
  let ?n1 = "plog (accept_line request) n"
  have "HandlePropose now request n = Inr (accept_proposal now request ?n1)"
    using assms leD [OF True] by (simp add: HandlePropose_def Let_def)
  moreover have "accept_proposal now request ?n1 =
      (fst (accept_proposal now request ?n1), snd (accept_proposal now request ?n1))" by simp
  ultimately show ?thesis
    using True accept_proposal_sel [of now request ?n1] by (metis max.absorb2 plog_sel(4,8))
next
  case False
  then have "HandlePropose now request n =
      Inr (no_ack\<lparr>ak_ballot := ae_ballot request\<rparr>, plog (accept_line request) n)"
    using assms by (simp add: HandlePropose_def Let_def not_le)
  with False show ?thesis by (simp add: no_ack_def)
qed

theorem backup_accepts_witness:
  "\<exists>a m. HandlePropose 0 (demo_entry 1 [] [] (demo_request ''2'' ''3'' 1 8)) demo_logged = Inr (a, m) \<and>
     ak_accepted a \<and>
     map_of (accept_log m) 1 = Some (demo_entry 1 ''COORD'' [] (demo_request ''1'' ''3001'' 4 7))"
  using backup_accepts [of demo_logged "demo_entry 1 [] [] (demo_request ''2'' ''3'' 1 8)" 0]
  by (auto simp: demo_logged_def demo_entry_def no_entry_def ballot_le_iff)

section \<open>Promises and leadership\<close>

text \<open>
  What processing requests leaves alone. A relation that every single update of a request keeps is
  kept by \<^verbatim>\<open>ProcessClientRequest\<close>, whatever branch it takes.
\<close>

locale request_frame =
  fixes R :: "node \<Rightarrow> node \<Rightarrow> bool"
  assumes R_refl: "R n n" and R_trans: "R n k \<Longrightarrow> R k m \<Longrightarrow> R n m"
    and R_emit: "R n (emit a n)" and R_locks: "R n (n\<lparr>balance_locks := l\<rparr>)"
    and R_tables: "R n (n\<lparr>last_reply_per_client := x, handled_ro_requests := y\<rparr>)"
    and R_slots: "R n (n\<lparr>in_flight_prepares := v\<rparr>)" and R_leaders: "R n (n\<lparr>cluster_leaders := cl\<rparr>)"
    and R_propose: "R n (propose_request req call msg n)"
begin

lemma R_respond: "R n (respond_client c n)"
  unfolding respond_client_def by (rule R_emit)

lemma R_call: "call_client c r n = Inr m \<Longrightarrow> R n m" "call_peer p a n = Inr m \<Longrightarrow> R n m"
  by (auto simp: call_client_def call_peer_def R_emit split: if_splits)

lemma R_try_lock: "try_lock i n = Inr (b, m) \<Longrightarrow> R n m"
  by (auto simp: try_lock_Inr R_refl R_locks)

lemma R_unlock: "unlock i n = Inr m \<Longrightarrow> R n m"
  by (auto simp: unlock_Inr R_locks)

lemma R_send_prepare: "send_prepare_2pc now req r n = Inr m \<Longrightarrow> R n m"
  by (auto simp: send_prepare_2pc_def exn_simps Let_def intro: R_trans [OF R_slots R_call(2)])

lemma R_lock_accounts:
  assumes "lock_accounts now req call s r n = Inr (go, m)"
  shows "R n m"
proof -
  obtain b n1 where n1: "try_lock s n = Inr (b, n1)" "R n n1"
    using assms R_try_lock by (fastforce simp: lock_accounts_def Let_def elim!: bindE_InrE)
  note body = assms [unfolded lock_accounts_def Let_def n1(1) bindE_simps prod.case]
  show ?thesis
  proof (cases b)
    case False
    with body n1(2) show ?thesis by (auto intro: R_trans R_respond)
  next
    case True
    with body obtain c n2 where n2: "(if shard_map n s = shard_map n r then try_lock r n1
        else Inr (True, n1)) = Inr (c, n2)"
      and rest: "(if \<not> c then bindE (unlock s n2) (\<lambda>n3. Inr (False, respond_client call n3))
        else if \<not> shard_map n s = shard_map n r \<and> cr_timestamp req \<notin> pending_or_completed_ts n2
        then bindE (send_prepare_2pc now req r n2) (\<lambda>n3. Inr (True, n3)) else Inr (True, n2)) = Inr (go, m)"
      by (auto elim!: bindE_InrE)
    have "R n1 n2" using n2 R_try_lock R_refl by (auto split: if_splits)
    moreover have "R n2 m"
      using rest
      by (auto simp: exn_simps R_refl split: if_splits intro: R_trans R_respond
          dest: R_unlock R_send_prepare)
    ultimately show ?thesis using n1(2) by (blast intro: R_trans)
  qed
qed

lemma R_lock_participant: "lock_participant req s r n = Inr (b, m) \<Longrightarrow> R n m"
  by (auto simp: lock_participant_def Let_def exn_simps split: if_splits
      dest: R_try_lock intro: R_trans [OF R_leaders])

lemma R_lock_and_propose:
  assumes "lock_and_propose now req call n = Inr m"
  shows "R n m"
  using assms
proof (cases rule: lock_and_propose_cases)
  case (stopped s r)
  then show ?thesis by (auto dest: R_lock_accounts)
next
  case (own s r n1)
  from R_lock_accounts [OF own(4)] R_propose show ?thesis unfolding own(5) by (rule R_trans)
next
  case (participant s r ab n1)
  from R_lock_participant [OF participant(4)] R_propose show ?thesis
    unfolding participant(5) by (rule R_trans)
qed

lemma R_read_only: "answer_read_only req call n = Inr m \<Longrightarrow> R n m"
  by (auto simp: answer_read_only_def Let_def exn_simps R_respond split: if_splits
      intro: R_trans [OF R_tables] R_trans [OF R_call(1) R_respond])

lemma R_forward: "forward_request req call n = Inr m \<Longrightarrow> R n m"
  by (auto simp: forward_request_def exn_simps R_refl split: if_splits
      intro: R_trans [OF R_call(2) R_respond])

lemma R_process:
  assumes "ProcessClientRequest now req call n = Inr m"
  shows "R n m"
proof -
  have "m = respond_client call n \<or> forward_request req call n = Inr m \<or>
      answer_read_only req call n = Inr m \<or> lock_and_propose now req call n = Inr m"
    using assms by (auto simp: ProcessClientRequest_def split: if_splits)
  then show ?thesis
    using R_respond R_forward R_read_only R_lock_and_propose by blast
qed

end

text \<open>The same for the end of an election, which settles the write-ahead log and serves the queue.\<close>

locale election_frame = request_frame +
  assumes R_reconcile: "reconcile_wal_entry revert_undecided sw n = Inr m \<Longrightarrow> R n m"
    and R_queue: "R n (n\<lparr>queued_client_requests := q\<rparr>)"
begin

lemma R_complete:
  assumes "OnElectionComplete now n = Inr m"
  shows "R (n\<lparr>in_election := False\<rparr>) m"
proof -
  let ?n = "n\<lparr>in_election := False\<rparr>"
  from assms obtain k where k: "foldE (reconcile_wal_entry revert_undecided) (wal ?n) ?n = Inr k"
    and rest: "(if leader_id k \<noteq> - 1 then foldE (\<lambda>q. ProcessClientRequest now (fst q) (snd q))
        (queued_client_requests k) (k\<lparr>queued_client_requests := []\<rparr>) else Inr k) = Inr m"
    unfolding OnElectionComplete_def Let_def by (rule bindE_InrE)
  have "R ?n k"
    by (rule foldE_invariant [OF k]) (auto intro: R_refl R_trans R_reconcile)
  moreover have "R k m"
  proof (cases "leader_id k \<noteq> - 1")
    case True
    with rest have run: "foldE (\<lambda>q. ProcessClientRequest now (fst q) (snd q))
        (queued_client_requests k) (k\<lparr>queued_client_requests := []\<rparr>) = Inr m" by simp
    show ?thesis
      by (rule foldE_invariant [OF run]) (auto intro: R_queue R_trans R_process)
  next
    case False
    with rest show ?thesis using R_refl by simp
  qed
  ultimately show ?thesis by (rule R_trans)
qed

end

definition same_view :: "node \<Rightarrow> node \<Rightarrow> bool" where
  "same_view n m \<longleftrightarrow> role m = role n \<and> leader_id m = leader_id n \<and> node_id m = node_id n \<and>
     current_ballot m = current_ballot n \<and> highest_promised_ballot m = highest_promised_ballot n \<and>
     alive m = alive n \<and> in_election m = in_election n"

lemma same_view_refl [simp]: "same_view n n"
  by (simp add: same_view_def)

lemma same_view_trans: "same_view a b \<Longrightarrow> same_view b c \<Longrightarrow> same_view a c"
  by (simp add: same_view_def)

lemma reconcile_cases:
  assumes "reconcile_wal_entry revert_undecided sw n = Inr m"
  obtains e n1 n2 n3 a x where "accept_log_at (fst sw) n = (e, n1)"
    and "m = wal_erase (fst sw) n1 \<or>
      set_account a x n1 = Inr n2 \<and> unlock a n2 = Inr n3 \<and> m = wal_erase (fst sw) n3"
proof -
  obtain e n1 where at: "accept_log_at (fst sw) n = (e, n1)" by fastforce
  note body = assms [unfolded reconcile_wal_entry_def Let_def at prod.case]
  show thesis
  proof (cases "ae_phase2_result e = ''C_COORD'' \<or> ae_phase2_result e = ''C''")
    case True
    with body show ?thesis by (intro that [OF at]) simp
  next
    case False
    with body obtain a where a: "wal_account (ae_request e) n1 = Inr a"
      by (auto elim: bindE_InrE)
    note rest = body [unfolded a bindE_simps, unfolded if_not_P [OF False]]
    then obtain x n2 n3 where "set_account a x n1 = Inr n2" "unlock a n2 = Inr n3" "m = wal_erase (fst sw) n3"
      by (auto simp: revert_undecided_def elim!: bindE_InrE split: if_splits)
    then show ?thesis by (intro that [OF at]) blast
  qed
qed

lemma reconcile_frame:
  assumes "reconcile_wal_entry revert_undecided sw n = Inr m"
  shows "recon_frame n m"
proof -
  from assms obtain e n1 n2 n3 a x where at: "accept_log_at (fst sw) n = (e, n1)" and
    m: "m = wal_erase (fst sw) n1 \<or>
      set_account a x n1 = Inr n2 \<and> unlock a n2 = Inr n3 \<and> m = wal_erase (fst sw) n3"
    by (rule reconcile_cases)
  have "recon_frame n n1" using accept_log_at_view(1) [OF at] by (simp add: recon_view_def)
  moreover have "recon_frame n1 m"
    using m wal_erase_frame set_account_frame unlock_frame recon_frame_trans by metis
  ultimately show ?thesis by (rule recon_frame_trans)
qed

interpretation sv: election_frame same_view
  using reconcile_frame recon_frame_sel
  by unfold_locales (auto simp: same_view_def emit_def propose_request_def respond_client_def Let_def
      broadcast_cluster_def emits_def log_put_def plog_def)

text \<open>The entries up to the last number survive: a proposal takes the next number, and settling the
  write-ahead log only adds default entries.\<close>

definition log_kept :: "node \<Rightarrow> node \<Rightarrow> bool" where
  "log_kept n m \<longleftrightarrow> last_seqnum n \<le> last_seqnum m \<and>
     (\<forall>s e. s \<le> last_seqnum n \<and> map_of (accept_log n) s = Some e \<longrightarrow> map_of (accept_log m) s = Some e)"

lemma reconcile_log_kept:
  assumes "reconcile_wal_entry revert_undecided sw n = Inr m"
  shows "log_kept n m"
proof -
  from assms obtain e n1 n2 n3 a x where at: "accept_log_at (fst sw) n = (e, n1)" and
    m: "m = wal_erase (fst sw) n1 \<or>
      set_account a x n1 = Inr n2 \<and> unlock a n2 = Inr n3 \<and> m = wal_erase (fst sw) n3"
    by (rule reconcile_cases)
  have "accept_log m = accept_log n1 \<and> last_seqnum m = last_seqnum n1"
    using m by (auto simp: wal_erase_def set_account_def unlock_Inr exn_simps)
  then show ?thesis
    using at by (auto simp: log_kept_def accept_log_at_def log_put_def split: option.splits)
qed

interpretation lk: election_frame log_kept
  using reconcile_log_kept
  by unfold_locales (auto simp: log_kept_def emit_def propose_request_def respond_client_def Let_def
      broadcast_cluster_def emits_def log_put_def plog_def)

lemma same_view_fold:
  "(\<And>x n. same_view n (f x n)) \<Longrightarrow> same_view n (fold f xs n)"
  by (rule fold_invariant' [where P = "same_view n"]) (auto intro: same_view_trans)

lemma same_view_seed: "same_view n (seed_entry p n)"
  by (simp add: seed_entry_def Let_def same_view_def)

lemma same_view_fill: "same_view n (fill_gap s n)"
  by (simp add: fill_gap_def log_put_def same_view_def)

lemma same_view_merge: "same_view n (MergeAcceptLogsFromPromises n)"
proof -
  have "same_view n (n\<lparr>accept_log := l, last_seqnum := s, received_promise_logs := []\<rparr>)" for l s
    by (simp add: same_view_def)
  then show ?thesis
    unfolding MergeAcceptLogsFromPromises_def Let_def
    by (rule same_view_trans [OF _ same_view_fold [where f = seed_entry, OF same_view_seed]])
qed

lemma same_view_plog: "same_view n (plog s n)"
  by (simp add: same_view_def)

lemma same_view_send_new_view: "same_view n (send_new_view_to p n)"
  by (simp add: send_new_view_to_def Let_def emit_def same_view_def)

lemma take_leadership_view:
  assumes "take_leadership now n = Inr m"
  shows "role m = LEADER \<and> leader_id m = node_id n \<and> node_id m = node_id n \<and>
    current_ballot m = current_ballot n \<and> in_election m = False"
proof -
  let ?n0 = "n\<lparr>waiting_for_promises := False\<rparr>"
  define n1 where "n1 = FillMissingNoOps (MergeAcceptLogsFromPromises ?n0)"
  define n2 where "n2 = BecomeLeader (current_ballot n) n1"
  define n3 where "n3 = InformClustersOfElection (SendNewView n2)"
  have run: "OnElectionComplete now n3 = Inr m"
    using assms by (simp add: take_leadership_def Let_def n1_def n2_def n3_def)
  have "same_view ?n0 n1"
    unfolding n1_def FillMissingNoOps_def
    by (rule same_view_trans [OF same_view_merge same_view_fold [where f = fill_gap, OF same_view_fill]])
  moreover have "same_view n ?n0" by (simp add: same_view_def)
  ultimately have "node_id n1 = node_id n" by (simp add: same_view_def)
  then have "role n2 = LEADER" "leader_id n2 = node_id n" "node_id n2 = node_id n"
      "current_ballot n2 = current_ballot n"
    by (simp_all add: n2_def BecomeLeader_def StartHeartbeat_def StopElectionTimer_def Let_def)
  moreover have "same_view n2 n3"
  proof -
    have "same_view n2 (SendNewView n2)"
      using same_view_fold [where f = send_new_view_to, OF same_view_send_new_view]
      by (simp add: SendNewView_def)
    moreover have "same_view k (InformClustersOfElection k)" for k
      by (simp add: InformClustersOfElection_def emits_def same_view_def)
    ultimately show ?thesis unfolding n3_def by (rule same_view_trans)
  qed
  ultimately show ?thesis
    using sv.R_complete [OF run] by (simp add: same_view_def)
qed

text \<open>The log of the new leader has, for every number it knew of or was told about, an entry that is one
  of those it knew or was told, up to the recorded outcome.\<close>

lemma take_leadership_log:
  assumes "take_leadership now n = Inr m" and "omap_ok (accept_log n)"
    and known: "a \<in> set (promised_entries n) \<and> ae_seqnum a = s \<or> map_of (accept_log n) s = Some a"
  obtains e b where "map_of (accept_log m) s = Some e" and "same_proposal e b"
    and "b \<in> set (promised_entries n) \<and> ae_seqnum b = s \<or> map_of (accept_log n) s = Some b"
proof -
  let ?n0 = "n\<lparr>waiting_for_promises := False\<rparr>"
  let ?n1 = "FillMissingNoOps (MergeAcceptLogsFromPromises ?n0)"
  let ?n3 = "InformClustersOfElection (SendNewView (BecomeLeader (current_ballot n) ?n1))"
  have p: "promised_entries ?n0 = promised_entries n" "omap_ok (accept_log ?n0)"
    using assms(2) by (simp_all add: promised_entries_def)
  obtain e where e: "map_of (fold merge_entry (promised_entries n) (accept_log n)) s = Some e"
    using known lm.fold_above_new [of a "promised_entries n" "accept_log n"]
      lm.fold_above_old [of "accept_log n" s a "promised_entries n"] by blast
  have "map_of (accept_log ?n1) s = Some e" "s \<le> last_seqnum ?n1"
    using e known merge_last(1) [OF p(2), of a] merge_last(2) [OF p(2), of s a] p(1) by (auto simp: FillMissingNoOps_log merged_log)
  moreover have "accept_log (fold send_new_view_to ps k) = accept_log k \<and>
      last_seqnum (fold send_new_view_to ps k) = last_seqnum k" for ps k
    by (induction ps arbitrary: k) (simp_all add: send_new_view_to_def Let_def emit_def plog_def)
  then have "accept_log ?n3 = accept_log ?n1" "last_seqnum ?n3 = last_seqnum ?n1"
    by (simp_all add: InformClustersOfElection_def emits_def SendNewView_def BecomeLeader_def
        StartHeartbeat_def StopElectionTimer_def Let_def)
  moreover have "log_kept (?n3\<lparr>in_election := False\<rparr>) m"
    using assms(1) by (intro lk.R_complete) (simp add: take_leadership_def Let_def)
  ultimately have "map_of (accept_log m) s = Some e" by (simp add: log_kept_def)
  then show thesis using that lm.fold_origin [OF e] by auto
qed

text \<open>
  A candidate that collects \<^verbatim>\<open>f_ + 1\<close> promises, its own included, becomes leader with
  its current ballot and leaves the election. The ballot inside the promise is never compared with
  it: a promise given for any other ballot counts.
\<close>

theorem promise_quorum_elects:
  assumes "alive n" and "role n = BACKUP" and "waiting_for_promises n"
    and "pr_promised reply" and "pr_node_id reply \<notin> promises_received n"
    and "finite (promises_received n)" and "f_max n \<le> int (card (promises_received n))"
    and "HandlePromise now reply n = Inr m"
  shows "role m = LEADER \<and> leader_id m = node_id n \<and> current_ballot m = current_ballot n \<and>
    in_election m = False"
proof -
  define n2 where "n2 = (plog (promise_line reply n) n)\<lparr>
    promises_received := insert (pr_node_id reply) (promises_received n),
    received_promise_logs := put_promise_log (pr_node_id reply) (pr_accept_log reply)
      (received_promise_logs n)\<rparr>"
  have "HandlePromise now reply n = take_leadership now n2"
    using assms(1-7) by (simp add: HandlePromise_def Let_def n2_def)
  with assms(8) have "take_leadership now n2 = Inr m" by simp
  from take_leadership_view [OF this] show ?thesis by (simp add: n2_def)
qed

text \<open>Node 1 runs for ballot (1, 1) and is sent a promise that was given for ballot (0, 7).\<close>

definition demo_running :: node where
  "demo_running = (demo_node 1)\<lparr>current_ballot := Ballot 1 1, waiting_for_promises := True,
     promises_received := {1}\<rparr>"

definition demo_stale_promise :: promise_response where
  "demo_stale_promise = \<lparr>pr_ballot = Ballot 0 7, pr_node_id = 2, pr_promised = True, pr_accept_log = []\<rparr>"

lemma demo_running_elected: "\<exists>m. HandlePromise 0 demo_stale_promise demo_running = Inr m"
  by (simp add: HandlePromise_def demo_running_def demo_stale_promise_def take_leadership_def
      OnElectionComplete_def InformClustersOfElection_def SendNewView_def send_new_view_to_def
      emits_def emit_def Let_def BecomeLeader_def StartHeartbeat_def StopElectionTimer_def
      FillMissingNoOps_def MergeAcceptLogsFromPromises_def promised_entries_def put_promise_log_def
      omap_max_key_def in_my_range_def)

theorem promise_quorum_elects_witness:
  "\<exists>m. HandlePromise 0 demo_stale_promise demo_running = Inr m \<and> role m = LEADER \<and>
     current_ballot m = Ballot 1 1"
proof -
  obtain m where m: "HandlePromise 0 demo_stale_promise demo_running = Inr m"
    using demo_running_elected by blast
  from promise_quorum_elects [OF _ _ _ _ _ _ _ m] m show ?thesis
    by (auto simp: demo_running_def demo_stale_promise_def)
qed

text \<open>
  A NEW-VIEW message is obeyed without looking at its ballot. A live backup adopts the ballot
  of the message as its current and as its highest promised one, also when it had promised a higher
  one.
\<close>

theorem new_view_regresses:
  assumes "alive n" and "role n = BACKUP" and "HandleNewView now request call n = Inr m"
  shows "highest_promised_ballot m = nv_ballot request \<and> current_ballot m = nv_ballot request \<and>
    leader_id m = b_node (nv_ballot request)"
proof -
  let ?adopt = "\<lambda>k. (SetNewLeader (b_node (nv_ballot request)) (b_counter (nv_ballot request)) k)
    \<lparr>waiting_for_promises := False\<rparr>"
  define n3 where "n3 = ResetElectionTimer now ((plog (new_view_line (nv_ballot request) n) n)
    \<lparr>new_view_logs := new_view_logs n @ [request]\<rparr>)"
  have "role n3 = BACKUP" using assms(2) by (simp add: n3_def)
  then have "bindE (OnElectionComplete now (?adopt n3)) (process_new_view request call) = Inr m"
    using assms by (simp add: HandleNewView_def Let_def n3_def)
  then obtain k where k: "OnElectionComplete now (?adopt n3) = Inr k"
      "process_new_view request call k = Inr m" by (rule bindE_InrE)
  have "highest_promised_ballot k = nv_ballot request \<and> current_ballot k = nv_ballot request \<and>
      leader_id k = b_node (nv_ballot request)"
    using sv.R_complete [OF k(1)] by (simp add: same_view_def SetNewLeader_def)
  moreover have "same_view k m"
  proof -
    let ?n1 = "fold adopt_entry (nv_accept_log request) k"
    let ?n2 = "if nv_accept_log request = [] then emit (RespondNewView call) ?n1
      else ?n1\<lparr>newview_call_data := Some call, in_new_view := True,
               max_seqnum_in_new_view := ae_seqnum (last (nv_accept_log request))\<rparr>"
    have "same_view k' (adopt_entry e k')" for k' e
      by (simp add: adopt_entry_def log_put_def same_view_def split: option.split)
    then have "same_view k ?n1" by (rule same_view_fold [where f = adopt_entry])
    moreover have "same_view ?n1 ?n2" by (simp add: same_view_def emit_def)
    moreover have run: "foldE (\<lambda>e m. call_peer (leader_id m)
        (CallAcceptAck (leader_id m) (new_view_ack e m)) m) (nv_accept_log request) ?n2 = Inr m"
      using k(2) by (simp add: process_new_view_def Let_def)
    have "same_view ?n2 m"
      by (rule foldE_invariant [OF run]) (auto intro: same_view_trans sv.R_call(2))
    ultimately show ?thesis by (blast intro: same_view_trans)
  qed
  ultimately show ?thesis by (simp add: same_view_def)
qed

theorem new_view_regresses_witness:
  "\<exists>m. HandleNewView 60 \<lparr>nv_ballot = Ballot 1 1, nv_accept_log = []\<rparr> 9 demo_waiting = Inr m \<and>
     highest_promised_ballot demo_waiting = Ballot 2 3 \<and> highest_promised_ballot m = Ballot 1 1"
proof -
  obtain m where m: "HandleNewView 60 \<lparr>nv_ballot = Ballot 1 1, nv_accept_log = []\<rparr> 9 demo_waiting = Inr m"
    by (simp add: HandleNewView_def demo_waiting_sel Let_def ResetElectionTimer_def
        StartElectionTimer_def SetNewLeader_def OnElectionComplete_def process_new_view_def)
  from new_view_regresses [OF _ _ m] m show ?thesis by (simp add: demo_waiting_sel)
qed

end
