(* ===== verification/Replica.thy ===== *)
theory Replica
  imports ViewChange
begin

text \<open>
  One node during a term, under traffic of one shard: what each handler does to its log, its
  commits, its position in the log and its balances. The specification is a ledger, the fold of the
  requests of a log over the initial balances. \<open>Agreement\<close> composes the nodes of a cluster.
\<close>

section \<open>The specification: a ledger\<close>

text \<open>What one plain request does to the balances, and what a log does up to a position.\<close>

definition apply_request :: "(int \<Rightarrow> int) \<Rightarrow> client_request \<Rightarrow> int cvec \<Rightarrow> int cvec" where
  "apply_request shard req a =
     (case (stoi (cr_from_account req), stoi (cr_to_account req)) of
        (Inr s, Inr r) \<Rightarrow>
          if cr_client_id req = ''NO-OP'' \<or> vat a s < cr_amount req \<or> shard r \<noteq> shard s \<or> s = r then a
          else CVec (vsize a) ((vat a)(s := vat a s - cr_amount req, r := vat a r + cr_amount req))
      | _ \<Rightarrow> a)"

definition ledger :: "(int \<Rightarrow> int) \<Rightarrow> (int \<Rightarrow> client_request option) \<Rightarrow> int \<Rightarrow> int cvec \<Rightarrow> int cvec" where
  "ledger shard log k a =
     fold (\<lambda>s. case log s of Some req \<Rightarrow> apply_request shard req | None \<Rightarrow> id) [1..k] a"

lemma ledger_0 [simp]: "ledger shard log 0 a = a"
  by (simp add: ledger_def)

lemma ledger_Suc:
  "0 \<le> k \<Longrightarrow> log (k + 1) = Some req \<Longrightarrow>
   ledger shard log (k + 1) a = apply_request shard req (ledger shard log k a)"
  by (simp add: ledger_def upto_rec2)

lemma ledger_cong:
  "(\<And>s. 1 \<le> s \<Longrightarrow> s \<le> k \<Longrightarrow> log s = log' s) \<Longrightarrow> ledger shard log k a = ledger shard log' k a"
  unfolding ledger_def by (intro fold_cong) auto

text \<open>The balances of a node are the ledger of the commits it knows, up to its position.\<close>

definition executed_ok :: "int cvec \<Rightarrow> node \<Rightarrow> bool" where
  "executed_ok a n \<longleftrightarrow>
     0 \<le> last_executed_seq n \<and>
     (\<forall>s. 1 \<le> s \<and> s \<le> last_executed_seq n \<longrightarrow> map_of (entries_to_commit n) s \<noteq> None) \<and>
     accounts n = ledger (shard_map n) (\<lambda>s. map_option ce_request (map_of (entries_to_commit n) s))
       (last_executed_seq n) a"

lemma executed_okI:
  "executed_ok a n \<Longrightarrow> entries_to_commit m = entries_to_commit n \<Longrightarrow> accounts m = accounts n \<Longrightarrow>
   last_executed_seq m = last_executed_seq n \<Longrightarrow> shard_map m = shard_map n \<Longrightarrow> executed_ok a m"
  by (simp add: executed_ok_def)

lemma executed_ok_remember:
  assumes "executed_ok a n"
  shows "executed_ok a (remember_commit s ce n)"
proof -
  let ?L = "\<lambda>n s. map_option ce_request (map_of (entries_to_commit n) s)"
  have "ledger (shard_map n) (?L (remember_commit s ce n)) (last_executed_seq n) a =
      ledger (shard_map n) (?L n) (last_executed_seq n) a"
    by (rule ledger_cong) (use assms in \<open>auto simp: executed_ok_def\<close>)
  then show ?thesis using assms by (simp add: executed_ok_def)
qed

lemma executed_ok_next:
  assumes "executed_ok a n" and "map_of (entries_to_commit n) (last_executed_seq n + 1) = Some f"
    and "entries_to_commit m = entries_to_commit n" and "shard_map m = shard_map n"
    and "accounts m = apply_request (shard_map n) (ce_request f) (accounts n)"
    and "last_executed_seq m = last_executed_seq n + 1"
  shows "executed_ok a m"
proof -
  have "s = last_executed_seq n + 1 \<or> s \<le> last_executed_seq n" if "s \<le> last_executed_seq n + 1" for s
    using that by linarith
  then show ?thesis
    using assms ledger_Suc [of "last_executed_seq n" "\<lambda>s. map_option ce_request (map_of (entries_to_commit n) s)"]
    by (fastforce simp: executed_ok_def)
qed

lemma exec_ledger:
  assumes "ExecuteTransaction req seq [] n = Inr (b, m)"
  shows "accounts m = apply_request (shard_map n) req (accounts n)"
  using assms
  by (cases rule: ExecuteTransaction_cases)
    (auto simp: apply_request_def transferred_def mark_executed_def fun_upd_idem split: sum.split
      intro: cvec.expand)

section \<open>What execution leaves alone\<close>

fun quiet_action :: "action \<Rightarrow> bool" where
  "quiet_action (CallAccept p e) = False"
| "quiet_action (CallCommit p e) = False"
| "quiet_action (CallPrepare p q) = False"
| "quiet_action (RespondPrepare c r) = False"
| "quiet_action _ = True"

definition same_promises :: "node \<Rightarrow> node \<Rightarrow> bool" where
  "same_promises n m \<longleftrightarrow>
     current_ballot m = current_ballot n \<and> highest_promised_ballot m = highest_promised_ballot n \<and>
     pending_promise_call m = pending_promise_call n \<and> promises_received m = promises_received n \<and>
     received_promise_logs m = received_promise_logs n \<and> waiting_for_promises m = waiting_for_promises n"

definition term_frame :: "node \<Rightarrow> node \<Rightarrow> bool" where
  "term_frame n m \<longleftrightarrow>
     accept_log m = accept_log n \<and> last_seqnum m = last_seqnum n \<and>
     accepted_count m = accepted_count n \<and> entries_to_commit m = entries_to_commit n \<and>
     role m = role n \<and> same_config n m \<and> same_promises n m \<and> shard_map m = shard_map n \<and>
     pending_entries m \<subseteq>\<^sub>m pending_entries n \<and>
     (\<exists>as. outbox m = outbox n @ as \<and> list_all quiet_action as)"

lemma term_frame_refl [simp]: "term_frame n n"
  by (simp add: term_frame_def same_promises_def)

lemma same_promises_trans: "same_promises a b \<Longrightarrow> same_promises b c \<Longrightarrow> same_promises a c"
  by (simp add: same_promises_def)

lemma term_frame_trans: "term_frame a b \<Longrightarrow> term_frame b c \<Longrightarrow> term_frame a c"
  unfolding term_frame_def using same_config_trans same_promises_trans map_le_trans
  by (auto 0 3) blast

text \<open>Everything but execution keeps the balances and the position in the log as well.\<close>

definition calm :: "node \<Rightarrow> node \<Rightarrow> bool" where
  "calm n m \<longleftrightarrow> term_frame n m \<and> accounts m = accounts n \<and> last_executed_seq m = last_executed_seq n"

lemmas calm_defs = calm_def term_frame_def

lemma calm_refl [simp]: "calm n n"
  by (simp add: calm_def)

lemma calm_trans: "calm a b \<Longrightarrow> calm b c \<Longrightarrow> calm a c"
  unfolding calm_def by (auto intro: term_frame_trans)

lemma calm_term: "calm n m \<Longrightarrow> term_frame n m"
  by (simp add: calm_def)

lemma exec_term_frame:
  assumes "exec_frame n m"
  shows "term_frame n m" and "last_executed_seq m = last_executed_seq n"
proof -
  obtain a b c d e where m: "m = n\<lparr>accounts := a, modified_accounts := b, balance_locks := c,
      wal := d, executed_entries := e\<rparr>"
    using assms unfolding exec_frame_def by blast
  show "term_frame n m" "last_executed_seq m = last_executed_seq n"
    by (simp_all add: term_frame_def same_config_def same_promises_def m)
qed

lemma respond_term_frame: "calm n (respond_client call n)"
  by (simp add: calm_defs same_config_def same_promises_def respond_client_def emit_def)

lemma SendClientReply_term: "SendClientReply c r s b n = Inr m \<Longrightarrow> calm n m"
  by (auto simp: SendClientReply_def Let_def call_client_def emit_def respond_client_def
      calm_defs same_config_def same_promises_def exn_simps split: if_splits option.splits)

lemma take_client_call_term: "take_client_call s n = (c, m) \<Longrightarrow> calm n m"
  by (auto simp: take_client_call_def calm_defs same_config_def same_promises_def map_le_def split: if_splits option.splits)

lemma finish_as_leader_term:
  assumes "finish_as_leader now e [] b n = Inr m"
  shows "calm n m"
proof -
  obtain c n1 where t: "take_client_call (ce_seqnum e) n = (c, n1)" by fastforce
  then have "calm n1 m"
    using assms by (auto simp: finish_as_leader_def Let_def split: if_splits dest: SendClientReply_term)
  with take_client_call_term [OF t] show ?thesis by (rule calm_trans)
qed

lemma execute_committed_term:
  assumes "execute_committed now f n = Inr m" and "no_outcomes n" and "ce_two_pc_status f = []"
  shows "term_frame n m" and "last_executed_seq m = last_executed_seq n"
    and "accounts m = apply_request (shard_map n) (ce_request f) (accounts n)"
proof -
  let ?e = "no_commit\<lparr>ce_ballot := ce_ballot f, ce_seqnum := ce_seqnum f, ce_request := ce_request f\<rparr>"
  from assms(1,3) obtain b k where
    x: "ExecuteTransaction (ce_request f) (ce_seqnum f) [] n = Inr (b, k)"
    and rest: "bindE (apply_known_outcome ?e k) (\<lambda>n2. if role n2 = LEADER
        then finish_as_leader now ?e [] b n2 else Inr (finish_as_backup ?e n2)) = Inr m"
    by (auto simp: execute_committed_def Let_def elim!: bindE_InrE)
  have fr: "exec_frame n k" by (rule ExecuteTransaction_frame [OF x])
  have "no_outcomes k" using no_outcomes_log [OF exec_frame_sel(1) [OF fr]] assms(2) by simp
  with rest have "(if role k = LEADER then finish_as_leader now ?e [] b k
      else Inr (finish_as_backup ?e k)) = Inr m" by (simp add: no_outcomes_apply)
  moreover have "calm k (finish_as_backup ?e k)"
    by (auto simp: finish_as_backup_def calm_defs same_config_def same_promises_def map_le_def)
  ultimately have km: "calm k m" by (auto split: if_splits dest: finish_as_leader_term)
  show "term_frame n m" using exec_term_frame(1) [OF fr] calm_term [OF km] by (rule term_frame_trans)
  show "accounts m = apply_request (shard_map n) (ce_request f) (accounts n)"
    using exec_ledger [OF x] km by (simp add: calm_def)
  show "last_executed_seq m = last_executed_seq n"
    using km exec_term_frame(2) [OF fr] by (simp add: calm_def)
qed

text \<open>Progress of a node: the term is left alone and the balances stay those of the ledger.\<close>

definition advances :: "node \<Rightarrow> node \<Rightarrow> bool" where
  "advances n m \<longleftrightarrow> term_frame n m \<and> (\<forall>a. executed_ok a n \<longrightarrow> executed_ok a m)"

lemma advances_refl [simp]: "advances n n"
  by (simp add: advances_def)

lemma advances_trans: "advances a b \<Longrightarrow> advances b c \<Longrightarrow> advances a c"
  unfolding advances_def using term_frame_trans by blast

lemma advances_term: "advances n m \<Longrightarrow> term_frame n m"
  by (simp add: advances_def)

lemma calm_advances: "calm n m \<Longrightarrow> advances n m"
  by (auto simp: advances_def calm_defs intro: executed_okI)

definition plain_commits :: "node \<Rightarrow> bool" where
  "plain_commits n \<longleftrightarrow> (\<forall>s e. map_of (entries_to_commit n) s = Some e \<longrightarrow> ce_two_pc_status e = [])"

lemma loop_term:
  assumes "SequentiallyExecuteCommittedEntries now n = Inr m" and "no_outcomes n" and "plain_commits n"
  shows "advances n m"
  using assms
proof (induction now n rule: SequentiallyExecuteCommittedEntries.induct)
  case (1 now n)
  show ?case
  proof (cases "map_of (entries_to_commit n) (last_executed_seq n + 1)")
    case None
    with 1(2) show ?thesis by (auto simp: exec_loop_stop)
  next
    case (Some f)
    let ?n = "n\<lparr>last_executed_seq := last_executed_seq n + 1\<rparr>"
    from 1(2) Some obtain k where
      k: "execute_committed now f ?n = Inr k" "SequentiallyExecuteCommittedEntries now k = Inr m"
      by (subst (asm) exec_loop_step) (auto elim: bindE_InrE)
    have "no_outcomes ?n" "ce_two_pc_status f = []"
      using 1(3,4) Some no_outcomes_log [of ?n n] by (auto simp: plain_commits_def)
    note fr = execute_committed_term [OF k(1) this]
    have "term_frame n ?n" by (simp add: term_frame_def same_config_def same_promises_def)
    then have nk: "term_frame n k" using fr(1) by (rule term_frame_trans)
    have "executed_ok a n \<Longrightarrow> executed_ok a k" for a
      by (rule executed_ok_next [OF _ Some]) (use nk fr(2,3) in \<open>simp_all add: term_frame_def\<close>)
    with nk have "advances n k" by (simp add: advances_def)
    moreover have "advances k m"
    proof (rule 1(1) [OF Some k])
      show "no_outcomes k" using nk 1(3) no_outcomes_log [of k n] by (simp add: term_frame_def)
      show "plain_commits k" using nk 1(4) by (simp add: term_frame_def plain_commits_def)
    qed
    ultimately show ?thesis by (rule advances_trans)
  qed
qed

section \<open>The effect of each handler\<close>

text \<open>A request whose accounts, if they parse, are in one shard, and that is no PREPARE.\<close>

definition intra_request :: "node \<Rightarrow> client_request \<Rightarrow> bool" where
  "intra_request n req \<longleftrightarrow> cr_two_pc_msg req \<noteq> ''PREPARE'' \<and>
     (case (stoi (cr_from_account req), stoi (cr_to_account req)) of
        (Inr s, Inr r) \<Rightarrow> shard_map n s = shard_map n r | _ \<Rightarrow> True)"

lemma plog_term: "calm n (plog s n)"
  by (simp add: plog_def calm_defs same_config_def same_promises_def)

lemma timer_term: "calm n (ResetElectionTimer now n)" "calm n (StartElectionTimer n)"
  by (simp_all add: ResetElectionTimer_def StartElectionTimer_def Let_def calm_defs same_config_def same_promises_def)

lemma locks_term: "calm n (n\<lparr>balance_locks := l\<rparr>)"
  by (simp add: calm_defs same_config_def same_promises_def)

text \<open>A request leaves the term alone or proposes one plain entry.\<close>

definition plain_entry :: "accepted_entry \<Rightarrow> bool" where
  "plain_entry e \<longleftrightarrow> ae_two_pc_status e = [] \<and> ae_phase2_result e = [] \<and> ae_new_leader e = 0"

definition proposes :: "node \<Rightarrow> node \<Rightarrow> bool" where
  "proposes n m \<longleftrightarrow>
     (\<exists>req call msg k. calm n k \<and> cr_timestamp req \<notin> pending_or_completed_ts k \<and>
        plain_entry msg \<and> ae_ballot msg = current_ballot k \<and> m = propose_request req call msg k)"

lemma emit_term: "quiet_action a \<Longrightarrow> calm n (emit a n)"
  by (simp add: emit_def calm_defs same_config_def same_promises_def)

lemma table_term:
  "calm n (n\<lparr>last_reply_per_client := x, handled_ro_requests := y\<rparr>)"
  by (simp add: calm_defs same_config_def same_promises_def)

lemma read_only_term:
  assumes "answer_read_only req call n = Inr m"
  shows "calm n m"
proof -
  obtain x y r where "m = respond_client call n \<or>
      m = respond_client call (emit (CallClientReply client_name r)
        (n\<lparr>last_reply_per_client := x, handled_ro_requests := y\<rparr>))"
    using assms by (auto simp: answer_read_only_def Let_def call_client_def exn_simps split: if_splits)
  moreover have "calm n (respond_client call (emit (CallClientReply client_name r)
      (n\<lparr>last_reply_per_client := x, handled_ro_requests := y\<rparr>)))"
    using table_term emit_term respond_term_frame by (meson quiet_action.simps calm_trans)
  ultimately show ?thesis using respond_term_frame by blast
qed

lemma forward_term:
  assumes "forward_request req call n = Inr m"
  shows "calm n m"
proof -
  have "m = n \<or> m = respond_client call (emit (CallClientRequest (leader_id n) req) n)"
    using assms by (auto simp: forward_request_def call_peer_def exn_simps split: if_splits)
  moreover have "calm n (respond_client call (emit (CallClientRequest (leader_id n) req) n))"
    using emit_term respond_term_frame by (meson quiet_action.simps calm_trans)
  ultimately show ?thesis by auto
qed

lemma try_lock_term: "try_lock i n = Inr (b, m) \<Longrightarrow> calm n m"
  by (auto simp: try_lock_Inr locks_term)

lemma unlock_term: "unlock i n = Inr m \<Longrightarrow> calm n m"
  by (auto simp: unlock_Inr locks_term)

lemma lock_accounts_term:
  assumes "lock_accounts now req call s r n = Inr (go, m)" and "shard_map n s = shard_map n r"
  shows "calm n m"
proof -
  obtain g1 n1 where n1: "try_lock s n = Inr (g1, n1)"
    using assms(1) by (auto simp: lock_accounts_def Let_def elim!: bindE_InrE)
  have f1: "calm n n1" using n1 by (rule try_lock_term)
  show ?thesis
  proof (cases g1)
    case False
    then have "m = respond_client call n1" using assms(1) n1 by (simp add: lock_accounts_def Let_def)
    then show ?thesis using calm_trans [OF f1 respond_term_frame] by simp
  next
    case True
    then obtain g2 n2 where n2: "try_lock r n1 = Inr (g2, n2)"
      using assms n1 by (auto simp: lock_accounts_def Let_def elim!: bindE_InrE)
    have f2: "calm n n2" using f1 try_lock_term [OF n2] by (rule calm_trans)
    show ?thesis
    proof (cases g2)
      case False
      then obtain n3 where n3: "unlock s n2 = Inr n3" "m = respond_client call n3"
        using assms n1 n2 True by (auto simp: lock_accounts_def Let_def elim!: bindE_InrE)
      then show ?thesis
        using calm_trans [OF calm_trans [OF f2 unlock_term [OF n3(1)]] respond_term_frame] by simp
    next
      case g2: True
      then have "m = n2" using assms n1 n2 True by (simp add: lock_accounts_def Let_def)
      then show ?thesis using f2 by simp
    qed
  qed
qed

lemma lock_and_propose_term:
  assumes "lock_and_propose now req call n = Inr m" and "intra_request n req"
  shows "calm n m \<or> proposes n m"
proof -
  from assms obtain s r go k where p: "stoi (cr_from_account req) = Inr s" "stoi (cr_to_account req) = Inr r"
    and l: "lock_accounts now req call s r n = Inr (go, k)"
    and m: "m = (if \<not> go then k
      else propose_request req call (accept_message req False False True k) k)"
    by (auto simp: lock_and_propose_def intra_request_def exn_simps split: if_splits)
  have k: "calm n k" by (rule lock_accounts_term [OF l]) (use assms(2) p in \<open>simp add: intra_request_def\<close>)
  have "plain_entry (accept_message req False False True k)"
      "ae_ballot (accept_message req False False True k) = current_ballot k"
    by (simp_all add: plain_entry_def accept_message_def Let_def no_entry_def)
  then have "cr_timestamp req \<notin> pending_or_completed_ts k \<Longrightarrow> go \<Longrightarrow> proposes n m"
    unfolding proposes_def using k m by auto
  then show ?thesis
    using k m calm_trans [OF k respond_term_frame]
    by (cases "go \<and> cr_timestamp req \<notin> pending_or_completed_ts k") (auto simp: propose_known)
qed

lemma process_term:
  assumes "ProcessClientRequest now req call n = Inr m" and "intra_request n req"
  shows "calm n m \<or> proposes n m"
  using assms respond_term_frame
  by (auto simp: ProcessClientRequest_def split: if_splits
      dest: read_only_term forward_term lock_and_propose_term)

lemma proposes_frame: "calm a b \<Longrightarrow> proposes b c \<Longrightarrow> proposes a c"
  unfolding proposes_def by (blast intro: calm_trans)

lemma request_term:
  assumes "HandleClientRequest now req call n = Inr m" and "intra_request n req"
  shows "calm n m \<or> proposes n m"
proof -
  let ?n = "plog (request_line req) n"
  have q: "calm k (queue_request req call (k\<lparr>first_txn_received := b\<rparr>))"
    "calm k (queue_request req call k)" for k b
    by (simp_all add: queue_request_def calm_defs same_config_def same_promises_def)
  have "shard_map ?n = shard_map n" by (simp add: plog_def)
  then have "intra_request ?n req" using assms(2) unfolding intra_request_def by (simp only: simp_thms)
  then have p: "ProcessClientRequest now req call ?n = Inr m \<Longrightarrow> calm ?n m \<or> proposes ?n m"
    by (rule process_term [rotated])
  have "calm ?n m \<or> proposes ?n m \<or> m = respond_client call n"
    using assms(1) p q(2) calm_trans [OF q(1) timer_term(2)]
    by (auto simp: HandleClientRequest_def Let_def split: if_splits)
  with plog_term show ?thesis by (blast intro: calm_trans proposes_frame respond_term_frame)
qed

lemma propose_effect:
  assumes "cr_timestamp req \<notin> pending_or_completed_ts k"
    and s_def: "s = last_seqnum k + 1" and e_def: "e = msg\<lparr>ae_seqnum := s\<rparr>"
    and m_def: "m = propose_request req call msg k"
  shows "accept_log m = omap_put s e (accept_log k)" "last_seqnum m = s"
    "pending_entries m = (pending_entries k)(s \<mapsto> e)"
    "accepted_count m = count_insert s (b_counter (current_ballot k)) (node_id k) (accepted_count k)"
    "entries_to_commit m = entries_to_commit k" "role m = role k" "same_config k m" "shard_map m = shard_map k"
    "outbox m = outbox k @ map (\<lambda>p. CallAccept p e) (cluster_peers k)"
    "accounts m = accounts k" "last_executed_seq m = last_executed_seq k" "same_promises k m"
  using assms(1) unfolding m_def s_def e_def
  by (simp_all add: propose_request_def Let_def broadcast_cluster_def emits_def log_put_def plog_def
      cluster_peers_def in_my_range_def same_config_def same_promises_def)

text \<open>An acknowledgement is ignored, counted, or commits an entry of the log.\<close>

definition commits_plain :: "int \<Rightarrow> node \<Rightarrow> accepted_entry \<Rightarrow> node \<Rightarrow> bool" where
  "commits_plain s n e m \<longleftrightarrow>
     (\<exists>k ce. ce_seqnum ce = s \<and> ce_request ce = ae_request e \<and> ce_two_pc_status ce = [] \<and>
        k = BroadcastCommit ce (remember_commit s ce n) \<and> advances k m)"

lemma CommitEntry_term:
  assumes "CommitEntry now a n = Inr m" and "no_outcomes n" and "plain_commits n"
    and "ak_status a = []" and "ak_phase a \<noteq> 2"
    and "map_of (accept_log n) (ak_seqnum a) = Some e" and "ae_seqnum e = ak_seqnum a"
    and "pending_entries n (ak_seqnum a) = None \<or> pending_entries n (ak_seqnum a) = Some e"
  shows "commits_plain (ak_seqnum a) n e m"
proof -
  let ?s = "ak_seqnum a" and ?ce = "entry_for_commit a e"
  let ?k = "BroadcastCommit ?ce (remember_commit ?s ?ce n)"
  have ce: "ce_seqnum ?ce = ?s" "ce_request ?ce = ae_request e" "ce_two_pc_status ?ce = []"
    using assms(4,7) by (simp_all add: entry_for_commit_def)
  have "m = ?k \<or> SequentiallyExecuteCommittedEntries now ?k = Inr m"
    using assms(1,5,6,8) by (auto simp: CommitEntry_def Let_def accept_log_at_def split: if_splits)
  moreover have "no_outcomes ?k" "plain_commits ?k"
    using assms(2,3) ce(3) no_outcomes_log [of ?k n]
    by (auto simp: BroadcastCommit_def broadcast_cluster_def emits_def remember_commit_def plain_commits_def)
  ultimately have "advances ?k m" using loop_term by auto
  with ce show ?thesis unfolding commits_plain_def by blast
qed

lemma HandleAccept_term:
  assumes "HandleAccept now a n = Inr m" and "no_outcomes n" and "plain_commits n"
    and "ak_accepted a \<Longrightarrow> ak_status a = [] \<and> ak_phase a \<noteq> 2 \<and> ae_seqnum e = ak_seqnum a \<and>
      map_of (accept_log n) (ak_seqnum a) = Some e \<and>
      (pending_entries n (ak_seqnum a) = None \<or> pending_entries n (ak_seqnum a) = Some e)"
  shows "m = n \<or> (\<exists>k. calm (count_phase1 a n) k \<and> ak_accepted a \<and>
    (m = k \<or> quorum_phase1 a k \<and> commits_plain (ak_seqnum a) k e m))"
proof (cases "alive n \<and> ak_accepted a \<and> role n = LEADER")
  case True
  let ?k = "count_phase1 a (plog (accepted_line a (ae_request e)) n)"
  have a: "ak_status a = []" "ak_phase a \<noteq> 2" "ae_seqnum e = ak_seqnum a"
    "map_of (accept_log n) (ak_seqnum a) = Some e"
    "pending_entries n (ak_seqnum a) = None \<or> pending_entries n (ak_seqnum a) = Some e"
    using assms(4) True by auto
  have fr: "calm (count_phase1 a n) ?k"
    by (simp add: count_phase1_def plog_def calm_defs same_config_def same_promises_def)
  have "m = ?k \<or> quorum_phase1 a ?k \<and> CommitEntry now a ?k = Inr m"
    using assms(1) True a by (auto simp: HandleAccept_def Let_def split: if_splits)
  moreover have "no_outcomes ?k" "plain_commits ?k"
    using assms(2,3) no_outcomes_log [of ?k n] by (simp_all add: count_phase1_def plog_def plain_commits_def)
  moreover have "map_of (accept_log ?k) (ak_seqnum a) = Some e"
    "pending_entries ?k (ak_seqnum a) = None \<or> pending_entries ?k (ak_seqnum a) = Some e"
    using a(4,5) by (simp_all add: count_phase1_def plog_def)
  ultimately show ?thesis using fr True CommitEntry_term [of now a ?k m e] a(1-3) by blast
next
  case False
  then have "m = n" using assms(1) unfolding HandleAccept_def by (cases "alive n"; cases "ak_accepted a") simp_all
  then show ?thesis ..
qed

text \<open>A backup that hears a commit remembers it, unless the number is taken, and executes.\<close>

lemma HandleCommit_term:
  assumes "HandleCommit now ce n = Inr m" and "no_outcomes n" and "plain_commits n"
    and "ce_two_pc_status ce = []"
  shows "m = n \<or> (\<exists>k. calm n k \<and> advances (remember_commit (ce_seqnum ce) ce k) m)"
proof (cases "alive n")
  case True
  define k where "k = (if role n = BACKUP then ResetElectionTimer now (plog (commit_line ce) n)
    else plog (commit_line ce) n)"
  have fr: "calm n k"
    unfolding k_def using plog_term calm_trans [OF plog_term timer_term(1)] by simp
  let ?r = "remember_commit (ce_seqnum ce) ce k"
  have "m = ?r \<or> SequentiallyExecuteCommittedEntries now ?r = Inr m"
    using assms(1,4) True by (auto simp: HandleCommit_def Let_def k_def split: if_splits)
  moreover have "no_outcomes ?r" "plain_commits ?r"
    using fr assms(2-4) no_outcomes_log [of ?r n]
    by (auto simp: calm_defs remember_commit_def plain_commits_def)
  ultimately have "advances ?r m" using loop_term by auto
  with fr show ?thesis by blast
next
  case False
  then show ?thesis using assms(1) by (simp add: HandleCommit_def)
qed

text \<open>A backup that hears a proposal refuses it, or logs it if the number is free.\<close>

lemma HandlePropose_term:
  assumes "HandlePropose now e n = Inr (a, m)" and "role n = BACKUP" and "plain_entry e"
  shows "entries_to_commit m = entries_to_commit n \<and> accounts m = accounts n \<and>
    last_executed_seq m = last_executed_seq n \<and> shard_map m = shard_map n \<and> node_id m = node_id n \<and> role m = BACKUP \<and>
    (\<not> ak_accepted a \<and> accept_log m = accept_log n \<or>
     ak_accepted a \<and> ak_seqnum a = ae_seqnum e \<and> ak_node_id a = node_id n \<and> ak_status a = [] \<and>
     ak_phase a \<noteq> 2 \<and>
     accept_log m = (if map_of (accept_log n) (ae_seqnum e) = None
       then omap_put (ae_seqnum e) e (accept_log n) else accept_log n))"
  using assms
  by (auto simp: HandlePropose_def accept_proposal_def FillAcceptAck_def plain_entry_def Let_def
      SetNewLeader_def log_put_def ResetElectionTimer_def StartElectionTimer_def plog_def no_ack_def
      split: if_splits)

text \<open>A refused proposal changes no log, and a promise is never lowered by a proposal.\<close>

lemma HandlePropose_promises:
  assumes "HandlePropose now e n = Inr (a, m)" and "role n = BACKUP" and "ae_new_leader e = 0"
  shows "highest_promised_ballot n \<le> highest_promised_ballot m"
    and "ae_ballot e < highest_promised_ballot n \<Longrightarrow> accept_log m = accept_log n"
    and "outbox m = outbox n" and "pending_promise_call m = pending_promise_call n"
    and "promises_received m = promises_received n" and "received_promise_logs m = received_promise_logs n"
    and "waiting_for_promises m = waiting_for_promises n" and "f_max m = f_max n"
  using assms
  by (auto simp: HandlePropose_def accept_proposal_def Let_def SetNewLeader_def log_put_def
      ResetElectionTimer_def StartElectionTimer_def plog_def split: if_splits)

section \<open>Every handler keeps the balances on the ledger\<close>

definition keeps_ledger :: "node \<Rightarrow> node \<Rightarrow> bool" where
  "keeps_ledger n m \<longleftrightarrow>
     same_config n m \<and> shard_map m = shard_map n \<and> (\<forall>a. executed_ok a n \<longrightarrow> executed_ok a m)"

lemma keeps_ledger_trans: "keeps_ledger a b \<Longrightarrow> keeps_ledger b c \<Longrightarrow> keeps_ledger a c"
  by (auto simp: keeps_ledger_def intro: same_config_trans)

lemma keeps_ledgerI:
  "same_config n m \<Longrightarrow> shard_map m = shard_map n \<Longrightarrow> entries_to_commit m = entries_to_commit n \<Longrightarrow>
   accounts m = accounts n \<Longrightarrow> last_executed_seq m = last_executed_seq n \<Longrightarrow> keeps_ledger n m"
  by (auto simp: keeps_ledger_def intro: executed_okI)

lemma advances_keeps: "advances n m \<Longrightarrow> keeps_ledger n m"
  by (simp add: advances_def keeps_ledger_def term_frame_def)

lemma remember_keeps: "keeps_ledger n (remember_commit s ce n)"
  using executed_ok_remember [of _ n s ce] by (simp add: keeps_ledger_def) (simp add: remember_commit_def same_config_def same_promises_def)

lemma broadcast_keeps: "keeps_ledger n (BroadcastCommit ce n)"
  by (rule keeps_ledgerI) (simp_all add: BroadcastCommit_def broadcast_cluster_def emits_def same_config_def same_promises_def)

lemma count_keeps: "keeps_ledger n (count_phase1 a n)"
  by (rule keeps_ledgerI) (simp_all add: count_phase1_def same_config_def same_promises_def)

lemma request_keeps:
  assumes "HandleClientRequest now req call n = Inr m" and "intra_request n req"
  shows "keeps_ledger n m"
  using request_term [OF assms]
proof
  assume "proposes n m"
  then obtain r c msg k where k: "calm n k" "cr_timestamp r \<notin> pending_or_completed_ts k"
    and m: "m = propose_request r c msg k" unfolding proposes_def by blast
  have "keeps_ledger k m"
    by (rule keeps_ledgerI) (use propose_effect [OF k(2) refl refl m] in simp_all)
  with advances_keeps [OF calm_advances [OF k(1)]] show ?thesis by (rule keeps_ledger_trans)
qed (rule advances_keeps [OF calm_advances])

lemma commits_keeps: "commits_plain s n e m \<Longrightarrow> keeps_ledger n m"
  unfolding commits_plain_def
  by (blast intro: keeps_ledger_trans remember_keeps broadcast_keeps advances_keeps)

end
