(* ===== verification/Agreement.thy ===== *)
theory Agreement
  imports Replica
begin

text \<open>
  The nodes of one cluster under one leader: the leader and its backups as a step relation over the
  handlers of the earlier theories. A message, once sent, can be delivered any number of times,
  in any order, or never. The state of the network is the leader's \<open>outbox\<close> and the set of
  acknowledgements sent. The traffic is requests of one shard; \<open>Succession\<close> adds elections.
\<close>

section \<open>The cluster\<close>

record cluster =
  cl_leader :: node
  cl_backup :: "int \<Rightarrow> node"
  cl_acks :: "ack set"

inductive cluster_step :: "cluster \<Rightarrow> cluster \<Rightarrow> bool" where
  request: "intra_request (cl_leader c) req \<Longrightarrow>
    HandleClientRequest now req call (cl_leader c) = Inr n \<Longrightarrow>
    cluster_step c (c\<lparr>cl_leader := n\<rparr>)"
| propose: "CallAccept i e \<in> set (outbox (cl_leader c)) \<Longrightarrow>
    HandlePropose now e (cl_backup c i) = Inr (a, n) \<Longrightarrow>
    cluster_step c (c\<lparr>cl_backup := (cl_backup c)(i := n), cl_acks := insert a (cl_acks c)\<rparr>)"
| accepted: "a \<in> cl_acks c \<Longrightarrow> HandleAccept now a (cl_leader c) = Inr n \<Longrightarrow>
    cluster_step c (c\<lparr>cl_leader := n\<rparr>)"
| commit: "CallCommit i e \<in> set (outbox (cl_leader c)) \<Longrightarrow>
    HandleCommit now e (cl_backup c i) = Inr n \<Longrightarrow>
    cluster_step c (c\<lparr>cl_backup := (cl_backup c)(i := n)\<rparr>)"

inductive_cases cluster_stepE: "cluster_step c c'"

text \<open>The start of the term: nothing proposed, accepted or committed.\<close>

definition fresh_cluster :: "cluster \<Rightarrow> bool" where
  "fresh_cluster c \<longleftrightarrow>
     (let n = cl_leader c in
      accept_log n = [] \<and> entries_to_commit n = [] \<and> outbox n = [] \<and>
      pending_entries n = Map.empty \<and> (\<forall>s k. accepted_count n s k = {}) \<and> cl_acks c = {} \<and>
      (\<forall>i\<in>set (cluster_peers n). let b = cl_backup c i in
         node_id b = i \<and> role b = BACKUP \<and> accept_log b = [] \<and> entries_to_commit b = []))"

section \<open>Agreement\<close>

text \<open>The nodes that hold the leader's entry for a number, and when a request is chosen.\<close>

definition holders :: "cluster \<Rightarrow> int \<Rightarrow> int set" where
  "holders c s =
     (if map_of (accept_log (cl_leader c)) s = None then {}
      else insert (node_id (cl_leader c)) {i \<in> set (cluster_peers (cl_leader c)).
        map_of (accept_log (cl_backup c i)) s = map_of (accept_log (cl_leader c)) s})"

definition chosen :: "cluster \<Rightarrow> int \<Rightarrow> client_request \<Rightarrow> bool" where
  "chosen c s req \<longleftrightarrow>
     (\<exists>e. map_of (accept_log (cl_leader c)) s = Some e \<and> ae_request e = req) \<and>
     f_max (cl_leader c) + 1 \<le> int (card (holders c s))"

lemma finite_holders [simp]: "finite (holders c s)"
  by (simp add: holders_def)

text \<open>Logs only grow along a step.\<close>

definition grows :: "cluster \<Rightarrow> cluster \<Rightarrow> bool" where
  "grows c c' \<longleftrightarrow>
     same_config (cl_leader c) (cl_leader c') \<and>
     map_of (accept_log (cl_leader c)) \<subseteq>\<^sub>m map_of (accept_log (cl_leader c')) \<and>
     (\<forall>i. map_of (accept_log (cl_backup c i)) \<subseteq>\<^sub>m map_of (accept_log (cl_backup c' i)))"

lemma cluster_peers_config: "same_config n m \<Longrightarrow> cluster_peers m = cluster_peers n"
  by (simp add: same_config_def cluster_peers_def in_my_range_def)

lemma map_le_SomeD: "m \<subseteq>\<^sub>m m' \<Longrightarrow> m k = Some v \<Longrightarrow> m' k = Some v"
  by (metis domI map_le_def)

lemma map_leI: "(\<And>k v. m k = Some v \<Longrightarrow> m' k = Some v) \<Longrightarrow> m \<subseteq>\<^sub>m m'"
  by (auto simp: map_le_def)

lemma growsD:
  assumes "grows c c'"
  shows "map_of (accept_log (cl_leader c)) s = Some e \<Longrightarrow> map_of (accept_log (cl_leader c')) s = Some e"
    and "map_of (accept_log (cl_backup c i)) s = Some e \<Longrightarrow> map_of (accept_log (cl_backup c' i)) s = Some e"
    and "cluster_peers (cl_leader c') = cluster_peers (cl_leader c)"
    and "node_id (cl_leader c') = node_id (cl_leader c)" and "f_max (cl_leader c') = f_max (cl_leader c)"
proof -
  have g: "same_config (cl_leader c) (cl_leader c')"
    "map_of (accept_log (cl_leader c)) \<subseteq>\<^sub>m map_of (accept_log (cl_leader c'))"
    "map_of (accept_log (cl_backup c i)) \<subseteq>\<^sub>m map_of (accept_log (cl_backup c' i))"
    using assms unfolding grows_def by blast+
  show "map_of (accept_log (cl_leader c)) s = Some e \<Longrightarrow> map_of (accept_log (cl_leader c')) s = Some e"
    using g(2) by (rule map_le_SomeD)
  show "map_of (accept_log (cl_backup c i)) s = Some e \<Longrightarrow> map_of (accept_log (cl_backup c' i)) s = Some e"
    using g(3) by (rule map_le_SomeD)
  show "cluster_peers (cl_leader c') = cluster_peers (cl_leader c)" using g(1) by (rule cluster_peers_config)
  show "node_id (cl_leader c') = node_id (cl_leader c)" "f_max (cl_leader c') = f_max (cl_leader c)"
    using g(1) by (simp_all add: same_config_def)
qed

lemma holders_grow:
  assumes "grows c c'"
  shows "holders c s \<subseteq> holders c' s"
proof (cases "map_of (accept_log (cl_leader c)) s")
  case (Some e)
  note g = growsD [OF assms]
  have "map_of (accept_log (cl_leader c')) s = Some e" using g(1) [OF Some] .
  then show ?thesis using Some g(2) [of _ s e] by (auto simp: holders_def g(3,4))
qed (simp add: holders_def)

lemma chosen_grow:
  assumes "grows c c'" and "chosen c s req"
  shows "chosen c' s req"
proof -
  obtain e where e: "map_of (accept_log (cl_leader c)) s = Some e" "ae_request e = req"
    using assms(2) by (auto simp: chosen_def)
  have "card (holders c s) \<le> card (holders c' s)"
    by (intro card_mono holders_grow [OF assms(1)]) simp
  then show ?thesis
    using assms(2) growsD(1) [OF assms(1) e(1)] e(2) growsD(5) [OF assms(1)] by (simp add: chosen_def)
qed

text \<open>The invariant: of the leader, of the messages, and of each backup.\<close>

definition leader_ok :: "cluster \<Rightarrow> bool" where
  "leader_ok c \<longleftrightarrow>
     (let n = cl_leader c in
      (\<forall>s e. map_of (accept_log n) s = Some e \<longrightarrow> ae_seqnum e = s \<and> s \<le> last_seqnum n \<and> plain_entry e) \<and>
      (\<forall>s e. pending_entries n s = Some e \<longrightarrow> map_of (accept_log n) s = Some e) \<and>
      (\<forall>s e. map_of (entries_to_commit n) s = Some e \<longrightarrow>
         ce_two_pc_status e = [] \<and> chosen c s (ce_request e)) \<and>
      (\<forall>s k. accepted_count n s k \<subseteq> holders c s))"

definition messages_ok :: "cluster \<Rightarrow> bool" where
  "messages_ok c \<longleftrightarrow>
     (let n = cl_leader c in
      (\<forall>i e. CallAccept i e \<in> set (outbox n) \<longrightarrow>
         i \<in> set (cluster_peers n) \<and> map_of (accept_log n) (ae_seqnum e) = Some e) \<and>
      (\<forall>i e. CallCommit i e \<in> set (outbox n) \<longrightarrow>
         i \<in> set (cluster_peers n) \<and> ce_two_pc_status e = [] \<and> chosen c (ce_seqnum e) (ce_request e)) \<and>
      (\<forall>a\<in>cl_acks c. ak_accepted a \<longrightarrow>
         ak_status a = [] \<and> ak_phase a \<noteq> 2 \<and> ak_node_id a \<in> holders c (ak_seqnum a)))"

definition backup_ok :: "cluster \<Rightarrow> int \<Rightarrow> bool" where
  "backup_ok c i \<longleftrightarrow>
     (let b = cl_backup c i in
      node_id b = i \<and> role b = BACKUP \<and>
      map_of (accept_log b) \<subseteq>\<^sub>m map_of (accept_log (cl_leader c)) \<and>
      (\<forall>s e. map_of (entries_to_commit b) s = Some e \<longrightarrow>
         ce_two_pc_status e = [] \<and> chosen c s (ce_request e)))"

definition cluster_ok :: "cluster \<Rightarrow> bool" where
  "cluster_ok c \<longleftrightarrow> leader_ok c \<and> messages_ok c \<and> (\<forall>i\<in>set (cluster_peers (cl_leader c)). backup_ok c i)"

lemma fresh_ok: "fresh_cluster c \<Longrightarrow> cluster_ok c"
  by (simp add: fresh_cluster_def cluster_ok_def leader_ok_def messages_ok_def backup_ok_def Let_def)

lemma plain_no_outcomes:
  assumes "\<And>s e. map_of (accept_log n) s = Some e \<Longrightarrow> plain_entry e"
  shows "no_outcomes n"
proof -
  have "\<not> outcome_known s n" for s
    using assms [of s] by (cases "map_of (accept_log n) s")
      (auto simp: outcome_known_def log_lookup_def plain_entry_def no_entry_def)
  then show ?thesis by (simp add: no_outcomes_def)
qed

text \<open>Steps of the leader that keep its log.\<close>

lemma leader_facts:
  assumes "cluster_ok c"
  shows "no_outcomes (cl_leader c)" and "plain_commits (cl_leader c)"
  using assms
  by (auto simp: cluster_ok_def leader_ok_def Let_def plain_commits_def intro!: plain_no_outcomes)

lemma backup_facts:
  assumes "cluster_ok c" and "i \<in> set (cluster_peers (cl_leader c))"
  shows "no_outcomes (cl_backup c i)" and "plain_commits (cl_backup c i)"
proof -
  have b: "backup_ok c i" and l: "leader_ok c" using assms by (auto simp: cluster_ok_def)
  have "plain_entry e" if "map_of (accept_log (cl_backup c i)) s = Some e" for s e
    using that b l map_le_SomeD unfolding backup_ok_def leader_ok_def Let_def by metis
  then show "no_outcomes (cl_backup c i)" by (rule plain_no_outcomes)
  show "plain_commits (cl_backup c i)" using b by (simp add: backup_ok_def plain_commits_def Let_def)
qed

lemma grows_frame: "term_frame (cl_leader c) n \<Longrightarrow> grows c (c\<lparr>cl_leader := n\<rparr>)"
  by (simp add: grows_def term_frame_def)

lemma holders_frame:
  assumes "term_frame (cl_leader c) n"
  shows "holders (c\<lparr>cl_leader := n\<rparr>) s = holders c s" and "chosen (c\<lparr>cl_leader := n\<rparr>) s = chosen c s"
proof -
  have n: "accept_log n = accept_log (cl_leader c)" "same_config (cl_leader c) n"
    using assms by (simp_all add: term_frame_def)
  then show "holders (c\<lparr>cl_leader := n\<rparr>) s = holders c s"
    using cluster_peers_config [OF n(2)] by (simp add: holders_def same_config_def)
  then show "chosen (c\<lparr>cl_leader := n\<rparr>) s = chosen c s"
    using n by (simp add: fun_eq_iff chosen_def same_config_def)
qed

lemma quiet_outbox:
  assumes "term_frame n m"
  shows "CallAccept i e \<in> set (outbox m) \<longleftrightarrow> CallAccept i e \<in> set (outbox n)"
    and "CallCommit i ce \<in> set (outbox m) \<longleftrightarrow> CallCommit i ce \<in> set (outbox n)"
proof -
  obtain as where "outbox m = outbox n @ as" "list_all quiet_action as"
    using assms by (auto simp: term_frame_def)
  then show "CallAccept i e \<in> set (outbox m) \<longleftrightarrow> CallAccept i e \<in> set (outbox n)"
    "CallCommit i ce \<in> set (outbox m) \<longleftrightarrow> CallCommit i ce \<in> set (outbox n)"
    by (auto simp: list_all_iff)
qed

lemma frame_ok:
  assumes "cluster_ok c" and fr: "term_frame (cl_leader c) n"
  shows "cluster_ok (c\<lparr>cl_leader := n\<rparr>)"
proof -
  note h = holders_frame [OF fr] quiet_outbox [OF fr]
  have n: "accept_log n = accept_log (cl_leader c)" "last_seqnum n = last_seqnum (cl_leader c)"
    "accepted_count n = accepted_count (cl_leader c)" "entries_to_commit n = entries_to_commit (cl_leader c)"
    "pending_entries n \<subseteq>\<^sub>m pending_entries (cl_leader c)" "cluster_peers n = cluster_peers (cl_leader c)"
    using fr cluster_peers_config by (auto simp: term_frame_def)
  have "leader_ok (c\<lparr>cl_leader := n\<rparr>)"
    using assms(1) map_le_SomeD [OF n(5)]
    by (simp add: cluster_ok_def leader_ok_def Let_def n(1-4) h(1,2))
  moreover have "messages_ok (c\<lparr>cl_leader := n\<rparr>)"
    using assms(1) by (simp add: cluster_ok_def messages_ok_def Let_def n(1,6) h)
  moreover have "\<forall>i\<in>set (cluster_peers n). backup_ok (c\<lparr>cl_leader := n\<rparr>) i"
    using assms(1) by (simp add: cluster_ok_def backup_ok_def Let_def n(1,6) h(2))
  ultimately show ?thesis by (simp add: cluster_ok_def)
qed

text \<open>The invariant on a larger cluster: what has to be shown anew is what a step adds.\<close>

lemma backup_ok_grow:
  assumes "backup_ok c i" and "grows c c'" and "cl_backup c' i = cl_backup c i"
  shows "backup_ok c' i"
proof -
  have "map_of (accept_log (cl_leader c)) \<subseteq>\<^sub>m map_of (accept_log (cl_leader c'))"
    using assms(2) by (simp add: grows_def)
  then show ?thesis
    using assms(1,3) chosen_grow [OF assms(2)] map_le_trans
    unfolding backup_ok_def Let_def by metis
qed

lemma propose_ok:
  assumes ok: "cluster_ok c" and fresh: "cr_timestamp req \<notin> pending_or_completed_ts (cl_leader c)"
    and msg: "plain_entry msg"
  shows "cluster_ok (c\<lparr>cl_leader := propose_request req call msg (cl_leader c)\<rparr>)"
proof -
  define n where "n = cl_leader c"
  define s where "s = last_seqnum n + 1"
  define e where "e = msg\<lparr>ae_seqnum := s\<rparr>"
  define m where "m = propose_request req call msg n"
  let ?c = "c\<lparr>cl_leader := m\<rparr>"
  note eff = propose_effect [OF fresh [folded n_def] s_def e_def m_def]
  have L: "leader_ok c" "messages_ok c" "\<forall>i\<in>set (cluster_peers n). backup_ok c i"
    using ok by (auto simp: cluster_ok_def n_def)
  have new: "map_of (accept_log n) s = None"
  proof (rule ccontr)
    assume "map_of (accept_log n) s \<noteq> None"
    then obtain x where "map_of (accept_log n) s = Some x" by blast
    then have "s \<le> last_seqnum n" using L(1) unfolding leader_ok_def Let_def n_def by blast
    then show False by (simp add: s_def)
  qed
  have g: "grows c ?c" using eff(1,7) new by (auto simp: grows_def n_def map_le_def)
  have peers: "cluster_peers m = cluster_peers n" using eff(7) by (rule cluster_peers_config)
  have "plain_entry e" "ae_seqnum e = s" using msg by (simp_all add: e_def plain_entry_def)
  moreover have "node_id n \<in> holders ?c s" using eff(1,7) by (simp add: holders_def same_config_def)
  ultimately have "leader_ok ?c"
    using L(1) holders_grow [OF g] chosen_grow [OF g]
    unfolding leader_ok_def Let_def n_def [symmetric]
    by (auto simp: eff(1-5) s_def split: if_splits) (fastforce simp: s_def)+
  moreover have "messages_ok ?c"
    using L(2) growsD(1) [OF g] holders_grow [OF g, THEN subsetD] chosen_grow [OF g] \<open>ae_seqnum e = s\<close>
    unfolding messages_ok_def Let_def n_def [symmetric]
    by (auto simp: eff(1,9) peers n_def [symmetric])
  moreover have "\<forall>i\<in>set (cluster_peers m). backup_ok ?c i"
    using L(3) backup_ok_grow [OF _ g] by (simp add: peers)
  ultimately show ?thesis by (simp add: cluster_ok_def m_def n_def)
qed

lemma request_ok:
  assumes "cluster_ok c" and "HandleClientRequest now req call (cl_leader c) = Inr m"
    and "intra_request (cl_leader c) req"
  shows "cluster_ok (c\<lparr>cl_leader := m\<rparr>)"
proof -
  from request_term [OF assms(2,3)] show ?thesis
  proof
    assume "proposes (cl_leader c) m"
    then obtain r call' msg k where k: "calm (cl_leader c) k"
      and p: "cr_timestamp r \<notin> pending_or_completed_ts k" "plain_entry msg" "m = propose_request r call' msg k"
      unfolding proposes_def by blast
    have "cluster_ok (c\<lparr>cl_leader := k\<rparr>)" using assms(1) calm_term [OF k] by (rule frame_ok)
    from propose_ok [OF this, of r msg call'] p show ?thesis by simp
  qed (rule frame_ok [OF assms(1) calm_term])
qed

lemma count_ok:
  assumes ok: "cluster_ok c" and "ak_node_id a \<in> holders c (ak_seqnum a)"
  shows "cluster_ok (c\<lparr>cl_leader := count_phase1 a (cl_leader c)\<rparr>)"
proof -
  let ?n = "count_phase1 a (cl_leader c)"
  have same: "accept_log ?n = accept_log (cl_leader c)" "same_config (cl_leader c) ?n"
    by (simp_all add: count_phase1_def same_config_def)
  have h: "holders (c\<lparr>cl_leader := ?n\<rparr>) = holders c" "chosen (c\<lparr>cl_leader := ?n\<rparr>) = chosen c"
    using cluster_peers_config [OF same(2)] same
    by (auto simp: fun_eq_iff holders_def chosen_def same_config_def)
  have p: "cluster_peers ?n = cluster_peers (cl_leader c)" by (rule cluster_peers_config [OF same(2)])
  have c: "accepted_count ?n s k = accepted_count (cl_leader c) s k \<union>
      (if s = ak_seqnum a \<and> k = b_counter (ak_ballot a) then {ak_node_id a} else {})" for s k
    by (simp add: count_phase1_def)
  have sel: "last_seqnum ?n = last_seqnum (cl_leader c)" "pending_entries ?n = pending_entries (cl_leader c)"
    "entries_to_commit ?n = entries_to_commit (cl_leader c)" "outbox ?n = outbox (cl_leader c)"
    by (simp_all add: count_phase1_def)
  show ?thesis
    using ok assms(2)
    by (auto simp: cluster_ok_def leader_ok_def messages_ok_def backup_ok_def Let_def h p c sel same(1)
        split: if_splits)
qed

lemma commit_ok:
  assumes ok: "cluster_ok c" and q: "quorum_phase1 a (cl_leader c)"
    and e: "map_of (accept_log (cl_leader c)) (ak_seqnum a) = Some e"
    and ce: "ce_seqnum ce = ak_seqnum a" "ce_request ce = ae_request e" "ce_two_pc_status ce = []"
  shows "cluster_ok (c\<lparr>cl_leader := BroadcastCommit ce (remember_commit (ak_seqnum a) ce (cl_leader c))\<rparr>)"
proof -
  let ?s = "ak_seqnum a"
  let ?n = "BroadcastCommit ce (remember_commit ?s ce (cl_leader c))"
  have same: "accept_log ?n = accept_log (cl_leader c)" "same_config (cl_leader c) ?n"
    "last_seqnum ?n = last_seqnum (cl_leader c)" "pending_entries ?n = pending_entries (cl_leader c)"
    "accepted_count ?n = accepted_count (cl_leader c)"
    by (simp_all add: BroadcastCommit_def broadcast_cluster_def emits_def remember_commit_def same_config_def)
  have h: "holders (c\<lparr>cl_leader := ?n\<rparr>) = holders c" "chosen (c\<lparr>cl_leader := ?n\<rparr>) = chosen c"
    using cluster_peers_config [OF same(2)] same
    by (auto simp: fun_eq_iff holders_def chosen_def same_config_def)
  have p: "cluster_peers ?n = cluster_peers (cl_leader c)" by (rule cluster_peers_config [OF same(2)])
  have out: "outbox ?n = outbox (cl_leader c) @ map (\<lambda>i. CallCommit i ce) (cluster_peers (cl_leader c))"
    by (simp add: BroadcastCommit_def broadcast_cluster_def emits_def remember_commit_def cluster_peers_def
        in_my_range_def)
  have com: "map_of (entries_to_commit ?n) t = Some x \<Longrightarrow>
      map_of (entries_to_commit (cl_leader c)) t = Some x \<or> t = ?s \<and> x = ce" for t x
    by (auto simp: BroadcastCommit_def broadcast_cluster_def emits_def remember_commit_def split: if_splits)
  obtain k where "int (card (accepted_count (cl_leader c) ?s k)) = f_max (cl_leader c) + 1"
    using q by (auto simp: quorum_phase1_def Let_def)
  moreover have "card (accepted_count (cl_leader c) ?s k) \<le> card (holders c ?s)"
    using ok by (intro card_mono) (simp_all add: cluster_ok_def leader_ok_def Let_def)
  ultimately have ch: "chosen c ?s (ce_request ce)" using e ce(2) by (simp add: chosen_def)
  have "leader_ok (c\<lparr>cl_leader := ?n\<rparr>)"
    using ok com ch ce(3)
    unfolding cluster_ok_def leader_ok_def Let_def h by (simp add: same) metis
  moreover have "messages_ok (c\<lparr>cl_leader := ?n\<rparr>)"
    using ok ch ce unfolding cluster_ok_def messages_ok_def Let_def h by (auto simp: same(1) out p)
  moreover have "\<forall>i\<in>set (cluster_peers ?n). backup_ok (c\<lparr>cl_leader := ?n\<rparr>) i"
    using ok unfolding cluster_ok_def backup_ok_def Let_def h by (simp add: same(1) p)
  ultimately show ?thesis by (simp add: cluster_ok_def)
qed

lemma accepted_effect:
  assumes ok: "cluster_ok c" and a: "a \<in> cl_acks c" and run: "HandleAccept now a (cl_leader c) = Inr m"
  obtains (ignored) "m = cl_leader c"
  | (counted) k e where "calm (count_phase1 a (cl_leader c)) k" "ak_node_id a \<in> holders c (ak_seqnum a)"
      "map_of (accept_log k) (ak_seqnum a) = Some e"
      "m = k \<or> quorum_phase1 a k \<and> commits_plain (ak_seqnum a) k e m"
proof -
  let ?n = "cl_leader c" and ?s = "ak_seqnum a"
  have L: "leader_ok c" and M: "messages_ok c" using ok by (auto simp: cluster_ok_def)
  have ack: "ak_accepted a \<Longrightarrow> ak_status a = [] \<and> ak_phase a \<noteq> 2 \<and> ak_node_id a \<in> holders c ?s"
    using M a by (simp add: messages_ok_def Let_def)
  define e where "e = the (map_of (accept_log ?n) ?s)"
  have e: "map_of (accept_log ?n) ?s = Some e \<and> ae_seqnum e = ?s" if "ak_accepted a"
  proof -
    have "map_of (accept_log ?n) ?s \<noteq> None" using ack [OF that] by (auto simp: holders_def split: if_splits)
    then show ?thesis using L by (auto simp: e_def leader_ok_def Let_def)
  qed
  have pend: "pending_entries ?n ?s = None \<or> pending_entries ?n ?s = Some e" if "ak_accepted a"
    using L e [OF that] by (cases "pending_entries ?n ?s") (auto simp: leader_ok_def Let_def)
  from HandleAccept_term [OF run leader_facts [OF ok], of e] ack e pend
  consider "m = ?n" | k where "calm (count_phase1 a ?n) k" "ak_accepted a"
      "m = k \<or> quorum_phase1 a k \<and> commits_plain ?s k e m" by blast
  then show thesis
  proof cases
    case (2 k)
    moreover have "map_of (accept_log k) ?s = Some e"
      using 2(1) e [OF 2(2)] by (simp add: calm_defs count_phase1_def)
    ultimately show thesis using ack by (intro counted) auto
  qed (rule ignored)
qed

lemma accepted_ok:
  assumes ok: "cluster_ok c" and a: "a \<in> cl_acks c" and run: "HandleAccept now a (cl_leader c) = Inr m"
  shows "cluster_ok (c\<lparr>cl_leader := m\<rparr>)"
  using ok a run
proof (cases rule: accepted_effect)
  case (counted k e)
  let ?s = "ak_seqnum a"
  have "cluster_ok (c\<lparr>cl_leader := count_phase1 a (cl_leader c)\<rparr>)"
    using ok counted(2) by (intro count_ok) simp_all
  from frame_ok [OF this, of k] calm_term [OF counted(1)] have okk: "cluster_ok (c\<lparr>cl_leader := k\<rparr>)" by simp
  from counted(4) show ?thesis
  proof
    assume "quorum_phase1 a k \<and> commits_plain ?s k e m"
    then obtain ce where q: "quorum_phase1 a k" and ce: "ce_seqnum ce = ?s" "ce_request ce = ae_request e"
        "ce_two_pc_status ce = []" and fr: "advances (BroadcastCommit ce (remember_commit ?s ce k)) m"
      unfolding commits_plain_def by blast
    from commit_ok [OF okk, of a e ce] q ce counted(3)
    have "cluster_ok (c\<lparr>cl_leader := BroadcastCommit ce (remember_commit ?s ce k)\<rparr>)" by simp
    from frame_ok [OF this, of m] advances_term [OF fr] show ?thesis by simp
  qed (use okk in simp)
qed (use ok in simp)

text \<open>Steps of a backup.\<close>

lemma backup_step_ok:
  assumes ok: "cluster_ok c" and i: "i \<in> set (cluster_peers (cl_leader c))"
    and c': "c' = c\<lparr>cl_backup := (cl_backup c)(i := b), cl_acks := acks\<rparr>"
    and grow: "map_of (accept_log (cl_backup c i)) \<subseteq>\<^sub>m map_of (accept_log b)" and new: "backup_ok c' i"
    and acks: "\<And>a. a \<in> acks \<Longrightarrow> a \<in> cl_acks c \<or> (ak_accepted a \<longrightarrow> ak_status a = [] \<and> ak_phase a \<noteq> 2 \<and>
      ak_node_id a \<in> holders c' (ak_seqnum a))"
  shows "cluster_ok c'"
proof -
  have g: "grows c c'" using grow by (simp add: c' grows_def)
  have l: "cl_leader c' = cl_leader c" by (simp add: c')
  have "leader_ok c'"
    using ok holders_grow [OF g] chosen_grow [OF g] unfolding cluster_ok_def leader_ok_def Let_def l by blast
  moreover have "messages_ok c'"
  proof -
    have "cl_acks c' = acks" by (simp add: c')
    then show ?thesis
      using ok acks holders_grow [OF g] chosen_grow [OF g]
      unfolding cluster_ok_def messages_ok_def Let_def l by blast
  qed
  moreover have "backup_ok c' j" if "j \<in> set (cluster_peers (cl_leader c))" for j
  proof (cases "j = i")
    case False
    then show ?thesis using ok that by (intro backup_ok_grow [OF _ g]) (auto simp: cluster_ok_def c')
  qed (use new in simp)
  ultimately show ?thesis by (simp add: cluster_ok_def l)
qed

lemma proposed_ok:
  assumes ok: "cluster_ok c" and e: "CallAccept i e \<in> set (outbox (cl_leader c))"
    and run: "HandlePropose now e (cl_backup c i) = Inr (a, b)"
  shows "cluster_ok (c\<lparr>cl_backup := (cl_backup c)(i := b), cl_acks := insert a (cl_acks c)\<rparr>)"
    (is "cluster_ok ?c")
proof -
  let ?s = "ae_seqnum e" and ?L = "map_of (accept_log (cl_leader c))" and ?B = "map_of (accept_log (cl_backup c i))"
  have i: "i \<in> set (cluster_peers (cl_leader c))" and le: "?L ?s = Some e"
    using ok e unfolding cluster_ok_def messages_ok_def Let_def by blast+
  have B: "backup_ok c i" and plain: "plain_entry e"
    using ok i le by (auto simp: cluster_ok_def leader_ok_def Let_def)
  have b: "node_id (cl_backup c i) = i" "role (cl_backup c i) = BACKUP" "?B \<subseteq>\<^sub>m ?L"
    using B by (simp_all add: backup_ok_def Let_def)
  note eff = HandlePropose_term [OF run b(2) plain]
  have log: "map_of (accept_log b) = ?B \<or> ak_accepted a \<and> ?B ?s = None \<and> map_of (accept_log b) = ?B(?s \<mapsto> e)"
    using eff by (auto split: if_splits)
  have sub: "map_of (accept_log b) \<subseteq>\<^sub>m ?L"
    using log map_le_SomeD [OF b(3)] le by (intro map_leI) (auto split: if_splits)
  have grow: "?B \<subseteq>\<^sub>m map_of (accept_log b)" using log by (auto simp: map_le_def)
  have g: "grows c ?c" using grow by (simp add: grows_def)
  have "ak_accepted a \<Longrightarrow> map_of (accept_log b) ?s = Some e"
  proof -
    assume acc: "ak_accepted a"
    show "map_of (accept_log b) ?s = Some e"
    proof (cases "?B ?s")
      case None
      then show ?thesis using eff acc by simp
    next
      case (Some x)
      then show ?thesis using eff acc map_le_SomeD [OF b(3) Some] le by simp
    qed
  qed
  then have h: "ak_accepted a \<Longrightarrow> ak_node_id a \<in> holders ?c (ak_seqnum a)"
    using eff le i b(1) by (auto simp: holders_def)
  have "backup_ok ?c i"
    using B eff sub chosen_grow [OF g] b(1) unfolding backup_ok_def Let_def by simp
  then show ?thesis
    by (rule backup_step_ok [OF ok i refl grow]) (use eff h in auto)
qed

lemma committed_ok:
  assumes ok: "cluster_ok c" and e: "CallCommit i e \<in> set (outbox (cl_leader c))"
    and run: "HandleCommit now e (cl_backup c i) = Inr b"
  shows "cluster_ok (c\<lparr>cl_backup := (cl_backup c)(i := b)\<rparr>)" (is "cluster_ok ?c")
proof -
  have i: "i \<in> set (cluster_peers (cl_leader c))" and st: "ce_two_pc_status e = []"
    and ch: "chosen c (ce_seqnum e) (ce_request e)"
    using ok e unfolding cluster_ok_def messages_ok_def Let_def by blast+
  have B: "backup_ok c i" using ok i by (simp add: cluster_ok_def)
  from HandleCommit_term [OF run backup_facts [OF ok i] st]
  have eff: "accept_log b = accept_log (cl_backup c i) \<and> node_id b = node_id (cl_backup c i) \<and>
      role b = role (cl_backup c i) \<and>
      (\<forall>s x. map_of (entries_to_commit b) s = Some x \<longrightarrow>
        map_of (entries_to_commit (cl_backup c i)) s = Some x \<or> s = ce_seqnum e \<and> x = e)"
    by (auto simp: advances_def calm_defs same_config_def remember_commit_def split: if_splits)
  have g: "grows c ?c" using eff by (simp add: grows_def)
  have "backup_ok ?c i"
    using B eff chosen_grow [OF g] ch st unfolding backup_ok_def Let_def by (simp, metis)
  moreover have "?c = c\<lparr>cl_backup := (cl_backup c)(i := b), cl_acks := cl_acks c\<rparr>" by simp
  ultimately show ?thesis using backup_step_ok [OF ok i, of ?c "cl_acks c" b] eff by simp
qed

lemma cluster_ok_step: "cluster_step c c' \<Longrightarrow> cluster_ok c \<Longrightarrow> cluster_ok c'"
  by (erule cluster_stepE) (auto intro: request_ok proposed_ok accepted_ok committed_ok)

section \<open>The ledgers\<close>

text \<open>All nodes start at the same balances and shard map, with nothing executed.\<close>

definition aligned :: "cluster \<Rightarrow> bool" where
  "aligned c \<longleftrightarrow>
     last_executed_seq (cl_leader c) = 0 \<and>
     (\<forall>i\<in>set (cluster_peers (cl_leader c)).
        last_executed_seq (cl_backup c i) = 0 \<and> accounts (cl_backup c i) = accounts (cl_leader c) \<and>
        shard_map (cl_backup c i) = shard_map (cl_leader c))"

definition on_ledger :: "int cvec \<Rightarrow> (int \<Rightarrow> int) \<Rightarrow> node \<Rightarrow> bool" where
  "on_ledger a shard n \<longleftrightarrow> executed_ok a n \<and> shard_map n = shard"

definition ledgers_ok :: "int cvec \<Rightarrow> (int \<Rightarrow> int) \<Rightarrow> cluster \<Rightarrow> bool" where
  "ledgers_ok a shard c \<longleftrightarrow>
     on_ledger a shard (cl_leader c) \<and>
     (\<forall>i\<in>set (cluster_peers (cl_leader c)). on_ledger a shard (cl_backup c i))"

lemma on_ledger_keeps: "keeps_ledger n m \<Longrightarrow> on_ledger a shard n \<Longrightarrow> on_ledger a shard m"
  by (simp add: keeps_ledger_def on_ledger_def)

lemma aligned_ledgers: "aligned c \<Longrightarrow> ledgers_ok (accounts (cl_leader c)) (shard_map (cl_leader c)) c"
  by (auto simp: aligned_def ledgers_ok_def on_ledger_def executed_ok_def)

lemma ledgers_leader:
  "ledgers_ok a shard c \<Longrightarrow> keeps_ledger (cl_leader c) m \<Longrightarrow> ledgers_ok a shard (c\<lparr>cl_leader := m\<rparr>)"
  using cluster_peers_config [of "cl_leader c" m]
  by (auto simp: ledgers_ok_def keeps_ledger_def intro: on_ledger_keeps [unfolded keeps_ledger_def])

lemma ledgers_backup:
  "ledgers_ok a shard c \<Longrightarrow> (on_ledger a shard (cl_backup c i) \<Longrightarrow> on_ledger a shard b) \<Longrightarrow>
   ledgers_ok a shard (c\<lparr>cl_backup := (cl_backup c)(i := b), cl_acks := x\<rparr>)"
  by (simp add: ledgers_ok_def)

lemma accepted_keeps:
  assumes "cluster_ok c" and "a \<in> cl_acks c" and "HandleAccept now a (cl_leader c) = Inr m"
  shows "keeps_ledger (cl_leader c) m"
  using assms
proof (cases rule: accepted_effect)
  case (counted k e)
  have "keeps_ledger (cl_leader c) k"
    using count_keeps advances_keeps [OF calm_advances [OF counted(1)]] by (rule keeps_ledger_trans)
  with counted(4) show ?thesis using commits_keeps keeps_ledger_trans by blast
qed (simp add: keeps_ledger_def)

lemma proposed_keeps:
  assumes ok: "cluster_ok c" and e: "CallAccept i e \<in> set (outbox (cl_leader c))"
    and run: "HandlePropose now e (cl_backup c i) = Inr (a, b)" and "on_ledger x shard (cl_backup c i)"
  shows "on_ledger x shard b"
proof -
  have i: "i \<in> set (cluster_peers (cl_leader c))" and "map_of (accept_log (cl_leader c)) (ae_seqnum e) = Some e"
    using ok e unfolding cluster_ok_def messages_ok_def Let_def by blast+
  then have "role (cl_backup c i) = BACKUP" "plain_entry e"
    using ok by (auto simp: cluster_ok_def backup_ok_def leader_ok_def Let_def)
  note eff = HandlePropose_term [OF run this]
  show ?thesis using eff assms(4) by (auto simp: on_ledger_def intro: executed_okI)
qed

lemma committed_keeps:
  assumes ok: "cluster_ok c" and e: "CallCommit i e \<in> set (outbox (cl_leader c))"
    and run: "HandleCommit now e (cl_backup c i) = Inr b"
  shows "keeps_ledger (cl_backup c i) b"
proof -
  have i: "i \<in> set (cluster_peers (cl_leader c))" and st: "ce_two_pc_status e = []"
    using ok e unfolding cluster_ok_def messages_ok_def Let_def by blast+
  from HandleCommit_term [OF run backup_facts [OF ok i] st] show ?thesis
    using keeps_ledger_trans remember_keeps advances_keeps calm_advances advances_refl by metis
qed

lemma ledgers_step:
  assumes "cluster_step c c'" and ok: "cluster_ok c" and l: "ledgers_ok a shard c"
  shows "ledgers_ok a shard c'"
proof -
  have commit: "ledgers_ok a shard (c\<lparr>cl_backup := (cl_backup c)(i := n)\<rparr>)"
    if "CallCommit i e \<in> set (outbox (cl_leader c))" "HandleCommit now e (cl_backup c i) = Inr n" for i e now n
    using ledgers_backup [where x = "cl_acks c", OF l on_ledger_keeps [OF committed_keeps [OF ok that]]] by simp
  show ?thesis
    using assms(1)
    by (rule cluster_stepE)
      (auto intro: commit ledgers_leader [OF l request_keeps] ledgers_leader [OF l accepted_keeps [OF ok]]
        ledgers_backup [OF l proposed_keeps [OF ok]])
qed

lemma reachable_ok:
  assumes "rtranclp cluster_step c0 c" and "fresh_cluster c0"
  shows "cluster_ok c" and "aligned c0 \<Longrightarrow> ledgers_ok (accounts (cl_leader c0)) (shard_map (cl_leader c0)) c"
proof -
  have "cluster_ok c \<and> (aligned c0 \<longrightarrow> ledgers_ok (accounts (cl_leader c0)) (shard_map (cl_leader c0)) c)"
    using assms by (induction rule: rtranclp_induct) (auto simp: fresh_ok aligned_ledgers intro: cluster_ok_step ledgers_step)
  then show "cluster_ok c" "aligned c0 \<Longrightarrow> ledgers_ok (accounts (cl_leader c0)) (shard_map (cl_leader c0)) c"
    by blast+
qed

text \<open>The log of the leader as a sequence of requests.\<close>

definition requests_of :: "node \<Rightarrow> int \<Rightarrow> client_request option" where
  "requests_of n s = map_option ae_request (map_of (accept_log n) s)"

lemma on_leader_ledger:
  assumes "on_ledger a shard n" and "\<And>s ce. map_of (entries_to_commit n) s = Some ce \<Longrightarrow> chosen c s (ce_request ce)"
  shows "accounts n = ledger shard (requests_of (cl_leader c)) (last_executed_seq n) a"
proof -
  have "map_option ce_request (map_of (entries_to_commit n) s) = requests_of (cl_leader c) s"
    if s: "1 \<le> s" "s \<le> last_executed_seq n" for s
  proof -
    obtain ce where "map_of (entries_to_commit n) s = Some ce"
      using assms(1) s unfolding on_ledger_def executed_ok_def by blast
    with assms(2) [OF this] show ?thesis by (auto simp: chosen_def requests_of_def)
  qed
  then have "ledger shard (\<lambda>s. map_option ce_request (map_of (entries_to_commit n) s)) (last_executed_seq n) a =
      ledger shard (requests_of (cl_leader c)) (last_executed_seq n) a" by (rule ledger_cong)
  then show ?thesis using assms(1) by (auto simp: on_ledger_def executed_ok_def)
qed

section \<open>A term of three nodes\<close>

text \<open>One request proposed, accepted by backup 2, committed, and learnt by backup 2.\<close>

definition demo_cluster :: cluster where
  "demo_cluster = \<lparr>cl_leader = demo_ready\<lparr>first_txn_received := False, k_print_log := False\<rparr>,
     cl_backup = \<lambda>i. (demo_node i)\<lparr>k_print_log := False, timer_running := True\<rparr>, cl_acks = {}\<rparr>"

definition demo_proposal :: accepted_entry where
  "demo_proposal = no_entry\<lparr>ae_ballot := Ballot 1 1, ae_node_id := 1, ae_seqnum := 1,
     ae_request := demo_request ''1'' ''2'' 4 7\<rparr>"

definition demo_learnt :: commit_entry where
  "demo_learnt = no_commit\<lparr>ce_ballot := Ballot 1 1, ce_seqnum := 1, ce_request := demo_request ''1'' ''2'' 4 7\<rparr>"

definition demo_proposing :: node where
  "demo_proposing = propose_request (demo_request ''1'' ''2'' 4 7) demo_call (demo_proposal\<lparr>ae_seqnum := 0\<rparr>)
   ((cl_leader demo_cluster)\<lparr>balance_locks := CVec 9001 ((vat (vec_fill 9001 False))(1 := True, 2 := True))\<rparr>)"

lemma demo_requested: "HandleClientRequest 0 (demo_request ''1'' ''2'' 4 7) demo_call (cl_leader demo_cluster) = Inr demo_proposing"
  by (simp add: demo_cluster_def HandleClientRequest_def Let_def plog_def bootstraps_def demo_ready_def
     ProcessClientRequest_def known_reply_def lock_and_propose_def lock_accounts_def
      try_lock_def demo_proposing_def accept_message_def demo_proposal_def no_entry_def)


lemma demo_proposing_sel [simp]:
  "alive demo_proposing" "role demo_proposing = LEADER" "k_print_log demo_proposing = False"
  "node_id demo_proposing = 1" "current_ballot demo_proposing = Ballot 1 1" "f_max demo_proposing = 1" "cluster_peers demo_proposing = [2, 3]"
  "peers demo_proposing = [1, 2, 3, 4, 5, 6, 7, 8, 9]" "range_lo demo_proposing = 1" "range_hi demo_proposing = 3"
  "accept_log demo_proposing = [(1, demo_proposal)]" "pending_entries demo_proposing = [1 \<mapsto> demo_proposal]"
  "accepted_count demo_proposing = (\<lambda>_ _. {})(1 := (\<lambda>_. {})(1 := {1}))"
  "outbox demo_proposing = [CallAccept 2 demo_proposal, CallAccept 3 demo_proposal]"
  "entries_to_commit demo_proposing = []" "last_executed_seq demo_proposing = 0"
  "executed_entries demo_proposing = {}" "accounts demo_proposing = initial_accounts"
  "shard_map demo_proposing = demo_shards" "pending_client_calls demo_proposing = [(1, demo_call)]"
  "balance_locks demo_proposing = CVec 9001 ((vat (vec_fill 9001 False))(1 := True, 2 := True))"
  "client_ids demo_proposing = [''A'']" "max_seqnum_in_new_view demo_proposing = 0"
  by (simp_all add: demo_proposing_def propose_request_def demo_cluster_def demo_ready_def Let_def
      demo_proposal_def no_entry_def plog_def log_put_def count_insert_def broadcast_cluster_def emits_def
      cluster_peers_def in_my_range_def)

definition demo_follower :: "node \<Rightarrow> bool" where
  "demo_follower m \<longleftrightarrow> map_of (entries_to_commit m) 1 = Some demo_learnt \<and> last_executed_seq m = 1 \<and>
     alive m \<and> role m = BACKUP \<and> k_print_log m = False \<and> node_id m = 2 \<and>
     highest_promised_ballot m = Ballot 1 1 \<and> last_leader_msg_received m = 0 \<and> accept_log m = [(1, demo_proposal)]"

lemma demo_accepts:
  "\<exists>b. HandlePropose 0 demo_proposal (cl_backup demo_cluster 2) = Inr (demo_ack, b) \<and>
     (\<exists>m. HandleCommit 0 demo_learnt b = Inr m \<and> demo_follower m)"
  by (simp add: HandlePropose_def demo_proposal_def no_entry_def demo_cluster_def no_ack_def plog_def
      accept_proposal_def Let_def ballot_less_iff SetNewLeader_def log_put_def ResetElectionTimer_def
      FillAcceptAck_def demo_ack_def StartElectionTimer_def HandleCommit_def demo_learnt_def no_commit_def remember_commit_def 
      exec_loop_go exec_loop_stop execute_at_def execute_committed_def
      exec_intra [of _ 1 2] valid_accounts_def transferred_def apply_known_outcome_def
      finish_as_backup_def demo_follower_def)

definition demo_leads :: "node \<Rightarrow> bool" where
  "demo_leads k \<longleftrightarrow> cluster_peers k = [2, 3] \<and> last_executed_seq k = 1 \<and>
     map_of (accept_log k) 1 = Some demo_proposal \<and> node_id k = 1 \<and> f_max k = 1 \<and> current_ballot k = Ballot 1 1"

lemma demo_commits_learnt: "\<exists>m. HandleAccept 0 demo_ack demo_proposing = Inr m \<and>
    CallCommit 2 demo_learnt \<in> set (outbox m) \<and> demo_leads m"
  by (simp add: demo_leads_def HandleAccept_def plog_def Let_def count_phase1_def quorum_phase1_def count_insert_def
      CommitEntry_def entry_for_commit_def BroadcastCommit_def broadcast_cluster_def emits_def
      remember_commit_def exec_loop_go exec_loop_stop execute_at_def execute_committed_def
      exec_intra [of _ 1 2] valid_accounts_def transferred_def apply_known_outcome_def no_commit_def
      finish_as_leader_def take_client_call_def SendClientReply_def call_client_def client_name_def
      emit_def respond_client_def demo_learnt_def demo_proposal_def no_entry_def demo_call_def cluster_peers_def in_my_range_def)

lemma demo_cluster_fresh: "fresh_cluster demo_cluster"
  by (simp add: fresh_cluster_def demo_cluster_def demo_ready_def)

lemma demo_cluster_aligned: "aligned demo_cluster"
  by (simp add: aligned_def demo_cluster_def demo_ready_def)

lemma demo_run:
  "\<exists>c. rtranclp cluster_step demo_cluster c \<and> demo_leads (cl_leader c) \<and> demo_follower (cl_backup c 2) \<and>
     cl_backup c 3 = cl_backup demo_cluster 3"
proof -
  obtain b m k where b: "HandlePropose 0 demo_proposal (cl_backup demo_cluster 2) = Inr (demo_ack, b)"
    and m: "HandleCommit 0 demo_learnt b = Inr m" "demo_follower m"
    and k: "HandleAccept 0 demo_ack demo_proposing = Inr k" "CallCommit 2 demo_learnt \<in> set (outbox k)" "demo_leads k"
    using demo_accepts demo_commits_learnt by blast
  let ?c1 = "demo_cluster\<lparr>cl_leader := demo_proposing\<rparr>"
  let ?c2 = "?c1\<lparr>cl_backup := (cl_backup ?c1)(2 := b), cl_acks := insert demo_ack (cl_acks ?c1)\<rparr>"
  let ?c3 = "?c2\<lparr>cl_leader := k\<rparr>"
  let ?c4 = "?c3\<lparr>cl_backup := (cl_backup ?c3)(2 := m)\<rparr>"
  have "cluster_step demo_cluster ?c1"
    by (rule cluster_step.request [OF _ demo_requested]) (simp add: intra_request_def demo_cluster_def)
  moreover have "cluster_step ?c1 ?c2" by (rule cluster_step.propose [of _ demo_proposal _ 0]) (simp_all add: b)
  moreover have "cluster_step ?c2 ?c3" by (rule cluster_step.accepted [of demo_ack _ 0]) (simp_all add: k)
  moreover have "cluster_step ?c3 ?c4" by (rule cluster_step.commit [of _ demo_learnt _ 0]) (simp_all add: k m)
  ultimately have "rtranclp cluster_step demo_cluster ?c4"
    by (meson rtranclp.rtrancl_refl rtranclp.rtrancl_into_rtrancl)
  then show ?thesis using k m by (intro exI [of _ ?c4]) simp
qed

section \<open>Agreement\<close>

text \<open>
  C2: replication within the first term, for requests inside one shard. A leader and its backups start
  with empty logs, and clients send transfers between accounts of one shard only. Whatever
  messages are lost, repeated or reordered: when a backup has learnt that a request is committed under a
  number, that request is the leader's entry for the number and at least \<^verbatim>\<open>f_ + 1\<close> nodes
  of the cluster hold it in their logs, so two backups never commit different requests under one number.
  Later terms are another matter (\<open>two_view_changes_diverge\<close>), and so are transfers
  between shards, whose second phase replaces an entry.
\<close>

theorem committed_is_chosen:
  assumes "fresh_cluster c0" and "rtranclp cluster_step c0 c"
    and "i \<in> set (cluster_peers (cl_leader c))"
    and "map_of (entries_to_commit (cl_backup c i)) s = Some ce"
  shows "(\<exists>e. map_of (accept_log (cl_leader c)) s = Some e \<and> ae_request e = ce_request ce) \<and>
    f_max (cl_leader c) + 1 \<le> int (card {j \<in> insert (node_id (cl_leader c)) (set (cluster_peers (cl_leader c))).
      map_of (accept_log (if j = node_id (cl_leader c) then cl_leader c else cl_backup c j)) s =
        map_of (accept_log (cl_leader c)) s}) \<and>
    (\<forall>j ce'. j \<in> set (cluster_peers (cl_leader c)) \<and>
       map_of (entries_to_commit (cl_backup c j)) s = Some ce' \<longrightarrow> ce_request ce' = ce_request ce)"
proof -
  have ok: "cluster_ok c" using reachable_ok(1) [OF assms(2,1)] .
  have chosen: "chosen c s (ce_request x)"
    if "j \<in> set (cluster_peers (cl_leader c))" "map_of (entries_to_commit (cl_backup c j)) s = Some x" for j x
    using ok that by (simp add: cluster_ok_def backup_ok_def Let_def)
  have "node_id (cl_leader c) \<notin> set (cluster_peers (cl_leader c))" by (simp add: cluster_peers_def)
  then have "holders c s \<subseteq> {j \<in> insert (node_id (cl_leader c)) (set (cluster_peers (cl_leader c))).
      map_of (accept_log (if j = node_id (cl_leader c) then cl_leader c else cl_backup c j)) s =
        map_of (accept_log (cl_leader c)) s}"
    by (auto simp: holders_def split: if_splits)
  then have "card (holders c s) \<le> card {j \<in> insert (node_id (cl_leader c)) (set (cluster_peers (cl_leader c))).
      map_of (accept_log (if j = node_id (cl_leader c) then cl_leader c else cl_backup c j)) s =
        map_of (accept_log (cl_leader c)) s}"
    by (intro card_mono) simp_all
  then show ?thesis
    using chosen [OF assms(3,4)] chosen unfolding chosen_def by (auto intro: order_trans)
qed

theorem committed_is_chosen_witness:
  "\<exists>c e. rtranclp cluster_step demo_cluster c \<and> map_of (entries_to_commit (cl_backup c 2)) 1 = Some demo_learnt \<and>
     map_of (accept_log (cl_leader c)) 1 = Some e \<and> ae_request e = demo_request ''1'' ''2'' 4 7"
proof -
  obtain c where run: "rtranclp cluster_step demo_cluster c" and c: "2 \<in> set (cluster_peers (cl_leader c))"
      "map_of (entries_to_commit (cl_backup c 2)) 1 = Some demo_learnt"
    using demo_run by (auto simp: demo_leads_def demo_follower_def)
  from committed_is_chosen [OF demo_cluster_fresh run c] run c(2)
  show ?thesis by (auto simp: demo_learnt_def)
qed

text \<open>
  C4: the cluster as one state machine, in the first term and for requests inside one shard. A leader
  and its backups start with empty logs and equal balances, and clients send transfers between
  accounts of one shard only. In every run of the term, with messages lost, repeated or reordered, the
  balances of the leader and of each backup are those of the ledger specification: the initial balances
  with the requests of the leader's log applied in order of their numbers, up to the node's position. So two
  nodes at the same position have equal balances. With transfers between shards they
  need not have: \<open>decision_overtaking_preparation\<close>.
\<close>

theorem replicas_execute_one_log:
  assumes "fresh_cluster c0" and "aligned c0" and "rtranclp cluster_step c0 c"
    and "i \<in> set (cluster_peers (cl_leader c))"
  shows "accounts (cl_leader c) = ledger (shard_map (cl_leader c0)) (requests_of (cl_leader c))
      (last_executed_seq (cl_leader c)) (accounts (cl_leader c0)) \<and>
    accounts (cl_backup c i) = ledger (shard_map (cl_leader c0)) (requests_of (cl_leader c))
      (last_executed_seq (cl_backup c i)) (accounts (cl_leader c0))"
proof -
  have ok: "cluster_ok c" and l: "ledgers_ok (accounts (cl_leader c0)) (shard_map (cl_leader c0)) c"
    using reachable_ok [OF assms(3,1)] assms(2) by blast+
  have n: "on_ledger (accounts (cl_leader c0)) (shard_map (cl_leader c0)) (cl_leader c)"
    "on_ledger (accounts (cl_leader c0)) (shard_map (cl_leader c0)) (cl_backup c i)"
    using l assms(4) by (auto simp: ledgers_ok_def)
  have "chosen c s (ce_request ce)"
    if "map_of (entries_to_commit (cl_leader c)) s = Some ce \<or> map_of (entries_to_commit (cl_backup c i)) s = Some ce"
    for s ce
    using ok that assms(4) unfolding cluster_ok_def leader_ok_def backup_ok_def Let_def by blast
  then show ?thesis using on_leader_ledger [OF n(1)] on_leader_ledger [OF n(2)] by blast
qed

theorem replicas_execute_one_log_witness:
  "\<exists>c. rtranclp cluster_step demo_cluster c \<and> last_executed_seq (cl_backup c 2) = 1 \<and>
     balance (cl_backup c 2) 1 = 6 \<and> balance (cl_backup c 2) 2 = 14 \<and> balance (cl_leader c) 2 = 14"
proof -
  obtain c where run: "rtranclp cluster_step demo_cluster c" and i: "2 \<in> set (cluster_peers (cl_leader c))"
    and c: "last_executed_seq (cl_backup c 2) = 1" "last_executed_seq (cl_leader c) = 1"
      "map_of (accept_log (cl_leader c)) 1 = Some demo_proposal"
    using demo_run by (auto simp: demo_leads_def demo_follower_def)
  have "requests_of (cl_leader c) 1 = Some (demo_request ''1'' ''2'' 4 7)"
    by (simp add: requests_of_def c demo_proposal_def)
  then have "ledger demo_shards (requests_of (cl_leader c)) 1 initial_accounts =
      apply_request demo_shards (demo_request ''1'' ''2'' 4 7) initial_accounts"
    using ledger_Suc [of 0 "requests_of (cl_leader c)"] by simp
  moreover have "shard_map (cl_leader demo_cluster) = demo_shards"
    "accounts (cl_leader demo_cluster) = initial_accounts"
    by (simp_all add: demo_cluster_def demo_ready_def)
  ultimately show ?thesis
    using replicas_execute_one_log [OF demo_cluster_fresh demo_cluster_aligned run i] run c(1,2)
    by (auto simp: apply_request_def)
qed

end
