(* ===== verification/Succession.thy ===== *)
theory Succession
  imports Agreement
begin

text \<open>
  The end of a term: while the old leader goes on, backups time out, promise, and one of them is
  elected. The step relation of \<open>Agreement\<close> is extended by timer turns, PREPARE messages and
  promises, each by its handler; every message can be lost, repeated or reordered, and a candidate
  may hear any promise of a backup. The old leader is out of the candidates' reach, as after a
  failure, but its own messages are still delivered. An elected node leaves the term; its state is
  kept in \<open>el_new\<close>.
\<close>

section \<open>Elections during a term\<close>

record election =
  el_cluster :: cluster
  el_new :: "int \<Rightarrow> node option"

definition set_backup :: "int \<Rightarrow> node \<Rightarrow> election \<Rightarrow> election" where
  "set_backup i n x =
     x\<lparr>el_cluster := (el_cluster x)\<lparr>cl_backup := (cl_backup (el_cluster x))(i := n)\<rparr>\<rparr>"

definition in_term :: "int \<Rightarrow> election \<Rightarrow> bool" where
  "in_term i x \<longleftrightarrow> i \<in> set (cluster_peers (cl_leader (el_cluster x))) \<and> el_new x i = None"

text \<open>The ballot of the term, and a campaign above it.\<close>

abbreviation term_ballot :: "election \<Rightarrow> ballot" where
  "term_ballot x \<equiv> current_ballot (cl_leader (el_cluster x))"

definition campaigns_above :: "ballot \<Rightarrow> node \<Rightarrow> bool" where
  "campaigns_above lb n \<longleftrightarrow> lb < Ballot (b_counter (current_ballot n) + 1) (node_id n)"

inductive election_step :: "election \<Rightarrow> election \<Rightarrow> bool" where
  in_the_term: "cluster_step (el_cluster x) c \<Longrightarrow>
    (\<And>i. el_new x i \<noteq> None \<Longrightarrow> cl_backup c i = cl_backup (el_cluster x) i) \<Longrightarrow>
    election_step x (x\<lparr>el_cluster := c\<rparr>)"
| timer: "in_term i x \<Longrightarrow> campaigns_above (term_ballot x) (cl_backup (el_cluster x) i) \<Longrightarrow>
    election_step x (set_backup i (timer_turn now (cl_backup (el_cluster x) i)) x)"
| prepare: "in_term i x \<Longrightarrow> v \<in> set (cluster_peers (cl_leader (el_cluster x))) \<Longrightarrow>
    CallPrepare i q \<in> set (outbox (cl_backup (el_cluster x) v)) \<Longrightarrow>
    HandlePrepare now q call (cl_backup (el_cluster x) i) = Inr n \<Longrightarrow>
    election_step x (set_backup i n x)"
| promise: "in_term v x \<Longrightarrow> i \<in> set (cluster_peers (cl_leader (el_cluster x))) \<Longrightarrow>
    RespondPrepare call r \<in> set (outbox (cl_backup (el_cluster x) i)) \<Longrightarrow>
    HandlePromise now r (cl_backup (el_cluster x) v) = Inr n \<Longrightarrow> role n = BACKUP \<Longrightarrow>
    election_step x (set_backup v n x)"
| elected: "in_term v x \<Longrightarrow> i \<in> set (cluster_peers (cl_leader (el_cluster x))) \<Longrightarrow>
    RespondPrepare call r \<in> set (outbox (cl_backup (el_cluster x) i)) \<Longrightarrow>
    HandlePromise now r (cl_backup (el_cluster x) v) = Inr n \<Longrightarrow> role n = LEADER \<Longrightarrow>
    election_step x (x\<lparr>el_new := (el_new x)(v \<mapsto> n)\<rparr>)"

text \<open>The start: a fresh term whose backups have neither campaigned nor promised.\<close>

definition fresh_election :: "election \<Rightarrow> bool" where
  "fresh_election x \<longleftrightarrow> fresh_cluster (el_cluster x) \<and> el_new x = Map.empty \<and>
     (\<forall>i\<in>set (cluster_peers (cl_leader (el_cluster x))). let b = cl_backup (el_cluster x) i in
        outbox b = [] \<and> pending_promise_call b = None \<and> \<not> waiting_for_promises b \<and>
        received_promise_logs b = [] \<and> f_max b = f_max (cl_leader (el_cluster x)))"

section \<open>Voters\<close>

text \<open>A node that has promised a ballot above the term accepts nothing of the term any more.\<close>

definition sealed :: "ballot \<Rightarrow> node \<Rightarrow> bool" where
  "sealed lb n \<longleftrightarrow> lb < highest_promised_ballot n"

text \<open>What a step of a backup may do to its votes.\<close>

definition votes :: "ballot \<Rightarrow> node \<Rightarrow> node \<Rightarrow> bool" where
  "votes lb n m \<longleftrightarrow>
     f_max m = f_max n \<and> node_id m = node_id n \<and>
     (sealed lb n \<longrightarrow> sealed lb m \<and> accept_log m = accept_log n) \<and>
     (omap_ok (accept_log n) \<longrightarrow> omap_ok (accept_log m)) \<and>
     (\<forall>p q. CallPrepare p q \<in> set (outbox m) \<longrightarrow> CallPrepare p q \<in> set (outbox n) \<or> lb < pq_ballot q) \<and>
     (\<forall>c r. RespondPrepare c r \<in> set (outbox m) \<and> pr_promised r \<longrightarrow>
        RespondPrepare c r \<in> set (outbox n) \<or>
        sealed lb m \<and> pr_node_id r = node_id m \<and> pr_accept_log r = map snd (accept_log m)) \<and>
     (pending_promise_call m \<noteq> None \<longrightarrow> pending_promise_call n \<noteq> None \<or> sealed lb m)"

text \<open>What it does to its campaign: nothing, or it starts one.\<close>

definition same_campaign :: "ballot \<Rightarrow> node \<Rightarrow> node \<Rightarrow> bool" where
  "same_campaign lb n m \<longleftrightarrow>
     received_promise_logs m = received_promise_logs n \<and>
     (waiting_for_promises m \<longrightarrow>
        waiting_for_promises n \<and> promises_received m = promises_received n \<or>
        sealed lb m \<and> promises_received m = {node_id m})"

text \<open>The invariant of a backup, given the states \<open>B\<close> of all of them.\<close>

definition voter_ok :: "ballot \<Rightarrow> int set \<Rightarrow> (int \<Rightarrow> node) \<Rightarrow> int \<Rightarrow> bool" where
  "voter_ok lb P B i \<longleftrightarrow>
     (let b = B i in
      node_id b = i \<and> omap_ok (accept_log b) \<and>
      (\<forall>p q. CallPrepare p q \<in> set (outbox b) \<longrightarrow> lb < pq_ballot q) \<and>
      (\<forall>c r. RespondPrepare c r \<in> set (outbox b) \<and> pr_promised r \<longrightarrow>
         sealed lb b \<and> pr_node_id r = i \<and> pr_accept_log r = map snd (accept_log b)) \<and>
      (pending_promise_call b \<noteq> None \<longrightarrow> sealed lb b) \<and>
      (waiting_for_promises b \<longrightarrow>
         sealed lb b \<and> promises_received b \<subseteq> insert i (fst ` set (received_promise_logs b))) \<and>
      (\<forall>j es. (j, es) \<in> set (received_promise_logs b) \<longrightarrow>
         j \<in> P \<and> sealed lb (B j) \<and> es = map snd (accept_log (B j))))"

lemma votes_refl: "votes lb n n"
  by (simp add: votes_def)

lemma voter_ok_other:
  assumes "voter_ok lb P B j" and "j \<noteq> i" and "votes lb (B i) m"
  shows "voter_ok lb P (B(i := m)) j"
  using assms unfolding voter_ok_def votes_def Let_def by auto

lemma voter_ok_self:
  assumes ok: "voter_ok lb P B i" and v: "votes lb (B i) m" and c: "same_campaign lb (B i) m"
  shows "voter_ok lb P (B(i := m)) i"
proof -
  have seal: "sealed lb (B i) \<Longrightarrow> sealed lb m \<and> accept_log m = accept_log (B i)"
    using v by (simp add: votes_def)
  have "j \<in> P \<and> sealed lb ((B(i := m)) j) \<and> es = map snd (accept_log ((B(i := m)) j))"
    if "(j, es) \<in> set (received_promise_logs m)" for j es
    using that ok c seal unfolding voter_ok_def same_campaign_def Let_def by (cases "j = i") auto
  moreover have "sealed lb m \<and> pr_node_id r = i \<and> pr_accept_log r = map snd (accept_log m)"
    if "RespondPrepare k r \<in> set (outbox m)" "pr_promised r" for k r
    using that ok v seal unfolding voter_ok_def votes_def Let_def by metis
  moreover have "sealed lb m \<and> promises_received m \<subseteq> insert i (fst ` set (received_promise_logs m))"
    if w: "waiting_for_promises m"
  proof -
    have "node_id m = i" "received_promise_logs m = received_promise_logs (B i)"
      using ok v c by (simp_all add: voter_ok_def votes_def same_campaign_def Let_def)
    moreover have "sealed lb (B i) \<and> promises_received (B i) \<subseteq> insert i (fst ` set (received_promise_logs (B i)))"
      if "waiting_for_promises (B i)"
      using ok that by (simp add: voter_ok_def Let_def)
    moreover have "waiting_for_promises (B i) \<and> promises_received m = promises_received (B i) \<or>
        sealed lb m \<and> promises_received m = {node_id m}"
      using c w by (simp add: same_campaign_def)
    ultimately show ?thesis using seal by auto
  qed
  moreover have "node_id m = i \<and> omap_ok (accept_log m)"
    "\<forall>p q. CallPrepare p q \<in> set (outbox m) \<longrightarrow> lb < pq_ballot q"
    "pending_promise_call m \<noteq> None \<longrightarrow> sealed lb m"
    using ok v seal unfolding voter_ok_def votes_def Let_def by metis+
  ultimately show ?thesis unfolding voter_ok_def Let_def fun_upd_same by blast
qed

section \<open>What each handler does to the votes\<close>

lemma quiet_votes:
  assumes "term_frame n m"
  shows "CallPrepare p q \<in> set (outbox m) \<longleftrightarrow> CallPrepare p q \<in> set (outbox n)"
    and "RespondPrepare c r \<in> set (outbox m) \<longleftrightarrow> RespondPrepare c r \<in> set (outbox n)"
proof -
  obtain as where "outbox m = outbox n @ as" "list_all quiet_action as"
    using assms by (auto simp: term_frame_def)
  then show "CallPrepare p q \<in> set (outbox m) \<longleftrightarrow> CallPrepare p q \<in> set (outbox n)"
    "RespondPrepare c r \<in> set (outbox m) \<longleftrightarrow> RespondPrepare c r \<in> set (outbox n)"
    by (auto simp: list_all_iff)
qed

lemma term_votes:
  assumes "term_frame n m"
  shows "votes lb n m" and "same_campaign lb n m"
  using assms quiet_votes [OF assms]
  by (simp_all add: votes_def same_campaign_def term_frame_def same_promises_def same_config_def sealed_def)

lemma votes_trans:
  assumes nk: "votes lb n k" and km: "votes lb k m"
  shows "votes lb n m"
proof -
  have "RespondPrepare c r \<in> set (outbox n) \<or>
      sealed lb m \<and> pr_node_id r = node_id m \<and> pr_accept_log r = map snd (accept_log m)"
    if "RespondPrepare c r \<in> set (outbox m)" "pr_promised r" for c r
    using that assms unfolding votes_def by metis
  moreover have "CallPrepare p q \<in> set (outbox n) \<or> lb < pq_ballot q"
    if "CallPrepare p q \<in> set (outbox m)" for p q
    using that assms unfolding votes_def by blast
  moreover have "pending_promise_call n \<noteq> None \<or> sealed lb m" if "pending_promise_call m \<noteq> None"
    using that assms unfolding votes_def by metis
  ultimately show ?thesis using assms unfolding votes_def by simp
qed

lemma campaign_refl: "same_campaign lb n n"
  by (simp add: same_campaign_def)

lemma campaign_trans:
  "same_campaign lb n k \<Longrightarrow> votes lb k m \<Longrightarrow> same_campaign lb k m \<Longrightarrow> same_campaign lb n m"
  unfolding same_campaign_def votes_def by metis

lemma remember_votes: "votes lb n (remember_commit s ce n)" "same_campaign lb n (remember_commit s ce n)"
  by (simp_all add: remember_commit_def votes_def same_campaign_def sealed_def)

lemma HandleCommit_votes:
  assumes "HandleCommit now ce n = Inr m" and "no_outcomes n" and "plain_commits n"
    and "ce_two_pc_status ce = []"
  shows "votes lb n m" and "same_campaign lb n m"
proof -
  consider "m = n" | k where "calm n k" "advances (remember_commit (ce_seqnum ce) ce k) m"
    using HandleCommit_term [OF assms] by blast
  then have "votes lb n m \<and> same_campaign lb n m"
  proof cases
    case 1
    then show ?thesis by (simp add: votes_refl campaign_refl)
  next
    case 2
    let ?r = "remember_commit (ce_seqnum ce) ce k"
    have f: "term_frame n k" "term_frame ?r m" using 2 by (simp_all add: calm_term advances_term)
    then show ?thesis
      by (meson votes_trans campaign_trans term_votes [OF f(1)] term_votes [OF f(2)] remember_votes)
  qed
  then show "votes lb n m" "same_campaign lb n m" by blast+
qed

lemma HandlePropose_votes:
  assumes "HandlePropose now e n = Inr (a, m)" and "role n = BACKUP" and "plain_entry e" and "ae_ballot e = lb"
  shows "votes lb n m" and "same_campaign lb n m"
proof -
  have new: "ae_new_leader e = 0" using assms(3) by (simp add: plain_entry_def)
  note p = HandlePropose_promises [OF assms(1,2) new] and t = HandlePropose_term [OF assms(1-3)]
  have "sealed lb n \<Longrightarrow> sealed lb m \<and> accept_log m = accept_log n"
    using p(1,2) assms(4) by (auto simp: sealed_def)
  moreover have "omap_ok (accept_log n) \<Longrightarrow> omap_ok (accept_log m)"
    using t by (auto split: if_splits intro: omap_ok_put)
  ultimately show "votes lb n m" using p t by (simp add: votes_def)
  show "same_campaign lb n m" using p by (simp add: same_campaign_def)
qed

lemma SendPromise_votes:
  assumes "pending_promise_call n \<noteq> None \<Longrightarrow> sealed lb n"
  shows "votes lb n (SendPromise n)" and "same_campaign lb n (SendPromise n)"
  using assms
  by (auto simp: votes_def same_campaign_def SendPromise_def emit_def promise_reply_def sealed_def
      split: option.split)

lemma SendPrepare_votes:
  assumes "lb < b"
  shows "votes lb n (SendPrepare now b n)" and "sealed lb (SendPrepare now b n)"
  using assms
  by (auto simp: votes_def sealed_def SendPrepare_def Let_def broadcast_cluster_def emits_def plog_def)

lemma SendPrepare_campaign:
  "received_promise_logs (SendPrepare now b n) = received_promise_logs n"
  "promises_received (SendPrepare now b n) = promises_received n"
  "node_id (SendPrepare now b n) = node_id n"
  by (simp_all add: SendPrepare_def Let_def broadcast_cluster_def emits_def plog_def)

lemma OnElectionTimeout_votes:
  assumes above: "campaigns_above lb n" and pend: "pending_promise_call n \<noteq> None \<Longrightarrow> sealed lb n"
  shows "votes lb n (OnElectionTimeout now n)" and "same_campaign lb n (OnElectionTimeout now n)"
proof -
  let ?b = "Ballot (b_counter (current_ballot n) + 1) (node_id n)"
  let ?n1 = "n\<lparr>waiting_for_promises := True, promises_received := {node_id n}\<rparr>"
  have p: "votes lb n ?n1" by (simp add: votes_def sealed_def)
  have pend1: "pending_promise_call ?n1 \<noteq> None \<Longrightarrow> sealed lb ?n1" using pend by (simp add: sealed_def)
  let ?k = "\<lambda>k. if pending_promise_call k \<noteq> None then SendPromise k else k"
  have k: "votes lb n (?k ?n1)" "votes lb n (?k n)" "same_campaign lb n (?k n)"
    using votes_trans [OF p SendPromise_votes(1) [OF pend1]] p SendPromise_votes [of n lb, OF pend]
    by (auto simp: votes_refl same_campaign_def)
  have same: "received_promise_logs (?k ?n1) = received_promise_logs n" "promises_received (?k ?n1) = {node_id n}"
    "node_id (?k ?n1) = node_id n"
    by (auto simp: SendPromise_def emit_def split: option.split)
  have b: "lb < ?b" using above by (simp add: campaigns_above_def)
  let ?m = "SendPrepare now ?b (?k ?n1)"
  have m: "votes lb n ?m" by (rule votes_trans [OF k(1) SendPrepare_votes(1) [OF b]])
  have "same_campaign lb n ?m"
    using SendPrepare_votes(2) [OF b] same by (simp add: same_campaign_def SendPrepare_campaign)
  moreover have "OnElectionTimeout now n \<in> {n, ?m, ?k n}"
    by (simp add: OnElectionTimeout_def Let_def)
  ultimately show "votes lb n (OnElectionTimeout now n)" "same_campaign lb n (OnElectionTimeout now n)"
    using m k(2,3) votes_refl [of lb n] campaign_refl [of lb n] by (metis insertE singletonD)+
qed

lemma timer_turn_votes:
  assumes "campaigns_above lb n" and "pending_promise_call n \<noteq> None \<Longrightarrow> sealed lb n"
  shows "votes lb n (timer_turn now n)" and "same_campaign lb n (timer_turn now n)"
proof -
  let ?k = "RespondAndClearNewViewCallData (n\<lparr>election_reset := False\<rparr>)"
  have k: "votes lb n ?k" "same_campaign lb n ?k"
    by (simp_all add: votes_def same_campaign_def sealed_def RespondAndClearNewViewCallData_def emit_def
        split: option.split)
  have "campaigns_above lb ?k" "pending_promise_call ?k \<noteq> None \<Longrightarrow> sealed lb ?k"
    using assms
    by (simp_all add: campaigns_above_def sealed_def RespondAndClearNewViewCallData_def emit_def split: option.splits)
  note t = OnElectionTimeout_votes [OF this]
  have "votes lb n (n\<lparr>election_reset := False\<rparr>)" "same_campaign lb n (n\<lparr>election_reset := False\<rparr>)"
    by (simp_all add: votes_def same_campaign_def sealed_def)
  moreover have "timer_turn now n \<in> {n, n\<lparr>election_reset := False\<rparr>, OnElectionTimeout now ?k}"
    by (simp add: timer_turn_def Let_def)
  ultimately show "votes lb n (timer_turn now n)" "same_campaign lb n (timer_turn now n)"
    using votes_trans [OF k(1) t(1)] campaign_trans [OF k(2) t] votes_refl [of lb n] campaign_refl [of lb n]
    by (metis insertE singletonD)+
qed

lemma HandlePrepare_votes:
  assumes "HandlePrepare now q call n = Inr m" and "role n = BACKUP" and "lb < pq_ballot q"
  shows "votes lb n m" and "same_campaign lb n m"
proof -
  let ?n2 = "(plog (''<PREPARE, '' @ ballot_ToString (pq_ballot q) @ ''> '' @ newline) n)\<lparr>last_prepare_received := now\<rparr>"
  let ?n4 = "?n2\<lparr>in_election := True, highest_promised_ballot := pq_ballot q, pending_promise_call := Some call\<rparr>"
  let ?no = "\<lparr>pr_ballot = current_ballot n, pr_node_id = node_id n, pr_promised = False, pr_accept_log = []\<rparr>"
  consider "m = n" | "m = ?n4" | "m = SendPromise ?n4"
    | "m = (emit (RespondPrepare call ?no) ?n2)\<lparr>pending_promise_call := None\<rparr>"
    using assms(1,2) by (auto simp: HandlePrepare_def Let_def split: if_splits)
  then have "votes lb n m \<and> same_campaign lb n m"
  proof cases
    case 1
    then show ?thesis by (simp add: votes_refl campaign_refl)
  next
    case 2
    with assms(3) show ?thesis by (simp add: votes_def same_campaign_def sealed_def plog_def)
  next
    case 3
    have n4: "votes lb n ?n4" "same_campaign lb n ?n4" and "sealed lb ?n4"
      using assms(3) by (simp_all add: votes_def same_campaign_def sealed_def plog_def)
    then have "votes lb ?n4 m" "same_campaign lb ?n4 m" using 3 SendPromise_votes [of ?n4 lb] by blast+
    with n4 show ?thesis using votes_trans campaign_trans by blast
  next
    case 4
    then show ?thesis by (auto simp: votes_def same_campaign_def sealed_def plog_def emit_def)
  qed
  then show "votes lb n m" "same_campaign lb n m" by blast+
qed

section \<open>A promise heard by a candidate\<close>

lemma set_put_promise_log:
  "set (put_promise_log j es logs) \<subseteq> insert (j, es) (set logs)"
  "insert j (fst ` set logs) \<subseteq> fst ` set (put_promise_log j es logs)"
proof -
  show "set (put_promise_log j es logs) \<subseteq> insert (j, es) (set logs)"
    by (auto simp: put_promise_log_def split: if_splits)
  have "fst ` set (map (\<lambda>p. if fst p = j then (j, es) else p) logs) = fst ` set logs"
    unfolding set_map image_image by (rule image_cong) auto
  then show "insert j (fst ` set logs) \<subseteq> fst ` set (put_promise_log j es logs)"
    by (auto simp: put_promise_log_def)
qed

definition heard :: "promise_response \<Rightarrow> node \<Rightarrow> node" where
  "heard r n = n\<lparr>promises_received := insert (pr_node_id r) (promises_received n),
     received_promise_logs := put_promise_log (pr_node_id r) (pr_accept_log r) (received_promise_logs n)\<rparr>"

lemma HandlePromise_cases:
  assumes "HandlePromise now r n = Inr m" and "role n = BACKUP"
  obtains (ignored) "m = n \<or> m = plog (promise_line r n) n"
  | (counted) "waiting_for_promises n" "pr_promised r" "m = heard r (plog (promise_line r n) n)"
  | (elected) "waiting_for_promises n" "pr_promised r" "role m = LEADER"
      "take_leadership now (heard r (plog (promise_line r n) n)) = Inr m"
      "f_max n + 1 \<le> int (card (insert (pr_node_id r) (promises_received n)))"
proof -
  let ?h = "heard r (plog (promise_line r n) n)"
  have f: "f_max ?h = f_max n" "promises_received ?h = insert (pr_node_id r) (promises_received n)"
    by (simp_all add: heard_def)
  consider "m = n \<or> m = plog (promise_line r n) n"
    | "waiting_for_promises n" "pr_promised r"
      "(if int (card (promises_received ?h)) \<ge> f_max ?h + 1 then take_leadership now ?h else Inr ?h) = Inr m"
    using assms by (auto simp: HandlePromise_def Let_def heard_def split: if_splits)
  then show thesis
  proof cases
    case 2
    show ?thesis
    proof (cases "f_max n + 1 \<le> int (card (insert (pr_node_id r) (promises_received n)))")
      case True
      then have "take_leadership now ?h = Inr m" using 2(3) f by simp
      then show ?thesis using elected 2(1,2) True take_leadership_view by blast
    next
      case False
      then show ?thesis using counted 2 f by simp
    qed
  qed (rule ignored)
qed

lemma heard_votes: "votes lb n (heard r (plog l n))"
  by (simp add: heard_def votes_def sealed_def plog_def)

lemma plog_votes: "votes lb n (plog l n)" "same_campaign lb n (plog l n)"
  by (simp_all add: votes_def same_campaign_def sealed_def plog_def)

lemma voter_ok_heard:
  assumes ok: "voter_ok lb P B v" and w: "waiting_for_promises (B v)"
    and r: "voter_ok lb P B i" "RespondPrepare k r \<in> set (outbox (B i))" "pr_promised r" "i \<in> P"
  shows "voter_ok lb P (B(v := heard r (plog l (B v)))) v"
proof -
  let ?m = "heard r (plog l (B v))"
  have i: "pr_node_id r = i" "sealed lb (B i)" "pr_accept_log r = map snd (accept_log (B i))"
    using r unfolding voter_ok_def Let_def by blast+
  have same: "accept_log ?m = accept_log (B v)" "highest_promised_ballot ?m = highest_promised_ballot (B v)"
    "outbox ?m = outbox (B v)" "pending_promise_call ?m = pending_promise_call (B v)" "node_id ?m = node_id (B v)"
    "waiting_for_promises ?m = waiting_for_promises (B v)"
    "promises_received ?m = insert i (promises_received (B v))"
    "received_promise_logs ?m = put_promise_log i (map snd (accept_log (B i))) (received_promise_logs (B v))"
    by (simp_all add: heard_def plog_def i)
  have s: "sealed lb ((B(v := ?m)) j) = sealed lb (B j)" "accept_log ((B(v := ?m)) j) = accept_log (B j)" for j
    using same by (simp_all add: sealed_def)
  have "j \<in> P \<and> sealed lb (B j) \<and> es = map snd (accept_log (B j))"
    if "(j, es) \<in> set (received_promise_logs ?m)" for j es
    using that ok i r(4) set_put_promise_log(1) [of i "map snd (accept_log (B i))" "received_promise_logs (B v)"]
    unfolding same voter_ok_def Let_def by blast
  moreover have "promises_received ?m \<subseteq> insert v (fst ` set (received_promise_logs ?m))"
    using ok w set_put_promise_log(2) [of i "received_promise_logs (B v)" "map snd (accept_log (B i))"]
    unfolding same voter_ok_def Let_def by blast
  moreover have "node_id ?m = v \<and> omap_ok (accept_log ?m)" "sealed lb ?m"
    "\<forall>p q. CallPrepare p q \<in> set (outbox ?m) \<longrightarrow> lb < pq_ballot q"
    "\<forall>c r. RespondPrepare c r \<in> set (outbox ?m) \<and> pr_promised r \<longrightarrow>
       pr_node_id r = v \<and> pr_accept_log r = map snd (accept_log ?m)"
    using ok w unfolding voter_ok_def Let_def same sealed_def by blast+
  ultimately show ?thesis unfolding voter_ok_def Let_def s fun_upd_same by blast
qed

section \<open>The heir's log\<close>

text \<open>A new leader inherits from a quorum of sealed backups.\<close>

definition inherits :: "node \<Rightarrow> node \<Rightarrow> bool" where
  "inherits b m \<longleftrightarrow> (\<forall>s e. map_of (accept_log b) s = Some e \<longrightarrow>
     (\<exists>e'. map_of (accept_log m) s = Some e' \<and> ae_request e' = ae_request e))"

definition heir_ok :: "cluster \<Rightarrow> node \<Rightarrow> bool" where
  "heir_ok c m \<longleftrightarrow> (\<exists>Q \<subseteq> set (cluster_peers (cl_leader c)). f_max (cl_leader c) + 1 \<le> int (card Q) \<and>
     (\<forall>q\<in>Q. sealed (current_ballot (cl_leader c)) (cl_backup c q) \<and> inherits (cl_backup c q) m))"

text \<open>All logs of the term are parts of one log, so the merge cannot choose a foreign value.\<close>

lemma elected_inherits:
  assumes run: "take_leadership now n = Inr m" and ord: "omap_ok (accept_log n)"
    and own: "map_of (accept_log n) \<subseteq>\<^sub>m L" and key: "\<And>s e. L s = Some e \<Longrightarrow> ae_seqnum e = s"
    and told: "\<And>j es. (j, es) \<in> set (received_promise_logs n) \<Longrightarrow>
      es = map snd (accept_log (B j)) \<and> omap_ok (accept_log (B j)) \<and> map_of (accept_log (B j)) \<subseteq>\<^sub>m L"
    and q: "q = n \<or> (\<exists>j es. (j, es) \<in> set (received_promise_logs n) \<and> q = B j)"
  shows "inherits q m"
  unfolding inherits_def
proof (intro allI impI)
  fix s e assume e: "map_of (accept_log q) s = Some e"
  have part: "L (ae_seqnum b) = Some b" if "b \<in> set (promised_entries n)" for b
  proof -
    from that obtain j es where j: "(j, es) \<in> set (received_promise_logs n)" "b \<in> set es"
      by (auto simp: promised_entries_def)
    with told obtain k where "(k, b) \<in> set (accept_log (B j))" "omap_ok (accept_log (B j))"
      by fastforce
    then have "map_of (accept_log (B j)) k = Some b" by (intro map_of_is_SomeI omap_ok_distinct)
    then have "L k = Some b" using told [OF j(1)] map_le_SomeD by metis
    then show ?thesis using key by blast
  qed
  have Ls: "L s = Some e"
    using e q own told map_le_SomeD by metis
  have "e \<in> set (promised_entries n) \<and> ae_seqnum e = s \<or> map_of (accept_log n) s = Some e"
    using e q key [OF Ls] told by (force simp: promised_entries_def dest: map_of_SomeD)
  from take_leadership_log [OF run ord this] obtain e' b where
    e': "map_of (accept_log m) s = Some e'" "same_proposal e' b"
    and b: "b \<in> set (promised_entries n) \<and> ae_seqnum b = s \<or> map_of (accept_log n) s = Some b" by blast
  have "L s = Some b" using b part own map_le_SomeD by metis
  then have "b = e" using Ls by simp
  moreover have "ae_request e' = ae_request b"
    using e'(2) unfolding same_proposal_def by (metis accepted_entry.select_convs(3) accepted_entry.surjective accepted_entry.update_convs(8))
  ultimately show "\<exists>e'. map_of (accept_log m) s = Some e' \<and> ae_request e' = ae_request e" using e'(1) by auto
qed

section \<open>The invariant of an election\<close>

definition election_ok :: "election \<Rightarrow> bool" where
  "election_ok x \<longleftrightarrow>
     (let c = el_cluster x; L = cl_leader c; P = set (cluster_peers L) in
      cluster_ok c \<and>
      (\<forall>s e. map_of (accept_log L) s = Some e \<longrightarrow> ae_ballot e = current_ballot L) \<and>
      (\<forall>i\<in>P. f_max (cl_backup c i) = f_max L \<and> voter_ok (current_ballot L) P (cl_backup c) i) \<and>
      (\<forall>v m. el_new x v = Some m \<longrightarrow> heir_ok c m))"

lemma fresh_election_ok:
  assumes "fresh_election x"
  shows "election_ok x"
proof -
  have f: "fresh_cluster (el_cluster x)" "el_new x = Map.empty" using assms by (simp_all add: fresh_election_def)
  have v: "voter_ok lb P (cl_backup (el_cluster x)) i" "f_max (cl_backup (el_cluster x) i) = f_max (cl_leader (el_cluster x))"
    if "i \<in> set (cluster_peers (cl_leader (el_cluster x)))" for lb P i
    using assms that by (auto simp: fresh_election_def fresh_cluster_def voter_ok_def Let_def omap_ok_def)
  have "accept_log (cl_leader (el_cluster x)) = []" using f(1) by (simp add: fresh_cluster_def Let_def)
  then show ?thesis using fresh_ok [OF f(1)] f(2) v unfolding election_ok_def Let_def by simp
qed

lemma heir_ok_backup:
  assumes "heir_ok c m" and "votes (current_ballot (cl_leader c)) (cl_backup c i) n"
  shows "heir_ok (c\<lparr>cl_backup := (cl_backup c)(i := n), cl_acks := k\<rparr>) m"
proof -
  obtain Q where Q: "Q \<subseteq> set (cluster_peers (cl_leader c))" "f_max (cl_leader c) + 1 \<le> int (card Q)"
    "\<forall>q\<in>Q. sealed (current_ballot (cl_leader c)) (cl_backup c q) \<and> inherits (cl_backup c q) m"
    using assms(1) unfolding heir_ok_def by blast
  have "sealed (current_ballot (cl_leader c)) (((cl_backup c)(i := n)) q) \<and> inherits (((cl_backup c)(i := n)) q) m"
    if "q \<in> Q" for q
    using Q(3) that assms(2) unfolding votes_def inherits_def by (cases "q = i") auto
  with Q(1,2) show ?thesis unfolding heir_ok_def by (intro exI [of _ Q]) simp
qed

text \<open>A step of one backup, and a step of the leader.\<close>

lemma backup_election_ok:
  assumes x: "election_ok x" and i: "i \<in> set (cluster_peers (cl_leader (el_cluster x)))"
    and v: "votes (term_ballot x) (cl_backup (el_cluster x) i) n"
    and self: "voter_ok (term_ballot x) (set (cluster_peers (cl_leader (el_cluster x))))
      ((cl_backup (el_cluster x))(i := n)) i"
    and c': "c' = (el_cluster x)\<lparr>cl_backup := (cl_backup (el_cluster x))(i := n), cl_acks := k\<rparr>"
    and ok: "cluster_ok c'"
  shows "election_ok (x\<lparr>el_cluster := c'\<rparr>)"
proof -
  let ?c = "el_cluster x" and ?P = "set (cluster_peers (cl_leader (el_cluster x)))"
  have L: "cl_leader c' = cl_leader ?c" "cl_backup c' = (cl_backup ?c)(i := n)" by (simp_all add: c')
  have "f_max (cl_backup c' j) = f_max (cl_leader ?c) \<and> voter_ok (term_ballot x) ?P (cl_backup c') j"
    if j: "j \<in> ?P" for j
  proof (cases "j = i")
    case True
    then show ?thesis using self v x i unfolding L election_ok_def Let_def votes_def by simp
  next
    case False
    have "voter_ok (term_ballot x) ?P (cl_backup ?c) j" "f_max (cl_backup ?c j) = f_max (cl_leader ?c)"
      using x j unfolding election_ok_def Let_def by blast+
    then show ?thesis using voter_ok_other [of _ _ "cl_backup ?c" j i n] v False unfolding L by simp
  qed
  moreover have "heir_ok c' m" if "el_new x w = Some m" for w m
    using x that v unfolding c' election_ok_def Let_def by (blast intro: heir_ok_backup)
  ultimately show ?thesis
    using x ok unfolding election_ok_def Let_def by (simp add: L)
qed

lemma leader_election_ok:
  assumes x: "election_ok x" and ok: "cluster_ok ((el_cluster x)\<lparr>cl_leader := n\<rparr>)"
    and same: "same_config (cl_leader (el_cluster x)) n" "current_ballot n = term_ballot x"
    and log: "\<And>s e. map_of (accept_log n) s = Some e \<Longrightarrow> ae_ballot e = term_ballot x"
  shows "election_ok (x\<lparr>el_cluster := (el_cluster x)\<lparr>cl_leader := n\<rparr>\<rparr>)"
proof -
  have p: "cluster_peers n = cluster_peers (cl_leader (el_cluster x))" "f_max n = f_max (cl_leader (el_cluster x))"
    using cluster_peers_config [OF same(1)] same(1) by (simp_all add: same_config_def)
  have "heir_ok ((el_cluster x)\<lparr>cl_leader := n\<rparr>) m" if "el_new x w = Some m" for w m
    using x that unfolding election_ok_def Let_def heir_ok_def by (simp add: p same(2))
  then show ?thesis using x ok log unfolding election_ok_def Let_def by (simp add: p same(2))
qed

text \<open>Voting leaves what the term knows of a backup.\<close>

definition votes_only :: "node \<Rightarrow> node \<Rightarrow> bool" where
  "votes_only n m \<longleftrightarrow> node_id m = node_id n \<and> role m = role n \<and> accept_log m = accept_log n \<and>
     entries_to_commit m = entries_to_commit n"

lemma votes_only_ok:
  assumes ok: "cluster_ok c" and i: "i \<in> set (cluster_peers (cl_leader c))" and v: "votes_only (cl_backup c i) n"
  shows "cluster_ok (c\<lparr>cl_backup := (cl_backup c)(i := n)\<rparr>)"
proof -
  let ?c = "c\<lparr>cl_backup := (cl_backup c)(i := n)\<rparr>"
  have B: "backup_ok c i" using ok i by (simp add: cluster_ok_def)
  have g: "grows c ?c" using v by (simp add: grows_def votes_only_def)
  have "backup_ok ?c i"
    using B v chosen_grow [OF g] unfolding backup_ok_def votes_only_def Let_def by simp
  moreover have "?c = c\<lparr>cl_backup := (cl_backup c)(i := n), cl_acks := cl_acks c\<rparr>" by simp
  ultimately show ?thesis using backup_step_ok [OF ok i, of ?c "cl_acks c" n] v by (simp add: votes_only_def)
qed

lemma voting_election_ok:
  assumes x: "election_ok x" and i: "i \<in> set (cluster_peers (cl_leader (el_cluster x)))"
    and v: "votes (term_ballot x) (cl_backup (el_cluster x) i) n" "votes_only (cl_backup (el_cluster x) i) n"
    and self: "voter_ok (term_ballot x) (set (cluster_peers (cl_leader (el_cluster x))))
      ((cl_backup (el_cluster x))(i := n)) i"
  shows "election_ok (set_backup i n x)"
proof -
  let ?c = "(el_cluster x)\<lparr>cl_backup := (cl_backup (el_cluster x))(i := n)\<rparr>"
  have "cluster_ok (el_cluster x)" using x unfolding election_ok_def Let_def by blast
  from votes_only_ok [OF this i v(2)] have "cluster_ok ?c" .
  moreover have "?c = (el_cluster x)\<lparr>cl_backup := (cl_backup (el_cluster x))(i := n),
      cl_acks := cl_acks (el_cluster x)\<rparr>" by simp
  ultimately have "election_ok (x\<lparr>el_cluster := ?c\<rparr>)" by (intro backup_election_ok [OF x i v(1) self])
  then show ?thesis by (simp add: set_backup_def)
qed

section \<open>Every step keeps the invariant\<close>

lemma timer_turn_votes_only: "votes_only n (timer_turn now n)"
  by (simp add: votes_only_def timer_turn_def OnElectionTimeout_def RespondAndClearNewViewCallData_def
      SendPromise_def SendPrepare_def broadcast_cluster_def emits_def emit_def plog_def Let_def split: option.split)

lemma HandlePrepare_votes_only:
  "HandlePrepare now q call n = Inr m \<Longrightarrow> role n = BACKUP \<Longrightarrow> votes_only n m"
  by (auto simp: votes_only_def HandlePrepare_def SendPromise_def emit_def plog_def Let_def
      split: if_splits option.splits)

lemma heard_votes_only: "votes_only n (heard r (plog l n))" "votes_only n (plog l n)"
  by (simp_all add: votes_only_def heard_def plog_def)

lemma election_okD:
  assumes "election_ok x" and "i \<in> set (cluster_peers (cl_leader (el_cluster x)))"
  shows "cluster_ok (el_cluster x)" and "role (cl_backup (el_cluster x) i) = BACKUP"
    and "voter_ok (term_ballot x) (set (cluster_peers (cl_leader (el_cluster x)))) (cl_backup (el_cluster x)) i"
    and "map_of (accept_log (cl_backup (el_cluster x) i)) \<subseteq>\<^sub>m map_of (accept_log (cl_leader (el_cluster x)))"
    and "f_max (cl_backup (el_cluster x) i) = f_max (cl_leader (el_cluster x))"
  using assms unfolding election_ok_def cluster_ok_def backup_ok_def Let_def by blast+

lemma timer_step_ok:
  assumes x: "election_ok x" and i: "in_term i x"
    and above: "campaigns_above (term_ballot x) (cl_backup (el_cluster x) i)"
  shows "election_ok (set_backup i (timer_turn now (cl_backup (el_cluster x) i)) x)"
proof -
  have p: "i \<in> set (cluster_peers (cl_leader (el_cluster x)))" using i by (simp add: in_term_def)
  note d = election_okD [OF x p]
  have "pending_promise_call (cl_backup (el_cluster x) i) \<noteq> None \<Longrightarrow> sealed (term_ballot x) (cl_backup (el_cluster x) i)"
    using d(3) unfolding voter_ok_def Let_def by blast
  note v = timer_turn_votes [OF above this]
  show ?thesis
    by (rule voting_election_ok [OF x p v(1) timer_turn_votes_only voter_ok_self [OF d(3) v]])
qed

lemma prepare_step_ok:
  assumes x: "election_ok x" and i: "in_term i x" and v: "v \<in> set (cluster_peers (cl_leader (el_cluster x)))"
    and q: "CallPrepare i q \<in> set (outbox (cl_backup (el_cluster x) v))"
    and run: "HandlePrepare now q call (cl_backup (el_cluster x) i) = Inr n"
  shows "election_ok (set_backup i n x)"
proof -
  have p: "i \<in> set (cluster_peers (cl_leader (el_cluster x)))" using i by (simp add: in_term_def)
  note d = election_okD [OF x p]
  have "term_ballot x < pq_ballot q" using election_okD(3) [OF x v] q unfolding voter_ok_def Let_def by blast
  note vt = HandlePrepare_votes [OF run d(2) this]
  show ?thesis
    by (rule voting_election_ok [OF x p vt(1) HandlePrepare_votes_only [OF run d(2)] voter_ok_self [OF d(3) vt]])
qed

lemma promise_step_ok:
  assumes x: "election_ok x" and v: "in_term v x" and i: "i \<in> set (cluster_peers (cl_leader (el_cluster x)))"
    and r: "RespondPrepare call r \<in> set (outbox (cl_backup (el_cluster x) i))"
    and run: "HandlePromise now r (cl_backup (el_cluster x) v) = Inr n" and role: "role n = BACKUP"
  shows "election_ok (set_backup v n x)"
proof -
  have p: "v \<in> set (cluster_peers (cl_leader (el_cluster x)))" using v by (simp add: in_term_def)
  note d = election_okD [OF x p] and d' = election_okD [OF x i]
  from run d(2) show ?thesis
  proof (cases rule: HandlePromise_cases)
    case ignored
    have "votes (term_ballot x) (cl_backup (el_cluster x) v) n" "same_campaign (term_ballot x) (cl_backup (el_cluster x) v) n"
      "votes_only (cl_backup (el_cluster x) v) n"
      using ignored votes_refl campaign_refl plog_votes heard_votes_only(2) by (auto simp: votes_only_def)
    then show ?thesis using voting_election_ok [OF x p] voter_ok_self [OF d(3)] by blast
  next
    case counted
    show ?thesis unfolding counted(3)
      by (rule voting_election_ok [OF x p heard_votes heard_votes_only(1)
            voter_ok_heard [OF d(3) counted(1) d'(3) r counted(2) i]])
  next
    case elected
    then show ?thesis using role by simp
  qed
qed

lemma elected_step_ok:
  assumes x: "election_ok x" and v: "in_term v x" and i: "i \<in> set (cluster_peers (cl_leader (el_cluster x)))"
    and r: "RespondPrepare call r \<in> set (outbox (cl_backup (el_cluster x) i))"
    and run: "HandlePromise now r (cl_backup (el_cluster x) v) = Inr m" and role: "role m = LEADER"
  shows "election_ok (x\<lparr>el_new := (el_new x)(v \<mapsto> m)\<rparr>)"
proof -
  let ?c = "el_cluster x" and ?P = "set (cluster_peers (cl_leader (el_cluster x)))"
  let ?L = "map_of (accept_log (cl_leader ?c))" and ?B = "cl_backup ?c"
  have p: "v \<in> ?P" using v by (simp add: in_term_def)
  note d = election_okD [OF x p] and d' = election_okD [OF x i]
  have key: "ae_seqnum e = s" if "?L s = Some e" for s e
    using d(1) that unfolding cluster_ok_def leader_ok_def Let_def by blast
  have "heir_ok ?c m"
    using run d(2)
  proof (cases rule: HandlePromise_cases)
    case elected
    let ?h = "heard r (plog (promise_line r (?B v)) (?B v))"
    have h: "accept_log ?h = accept_log (?B v)" "promises_received ?h = insert (pr_node_id r) (promises_received (?B v))"
      by (simp_all add: heard_def)
    have hv: "voter_ok (term_ballot x) ?P (?B(v := ?h)) v"
      by (rule voter_ok_heard [OF d(3) elected(1) d'(3) r elected(2) i])
    then have w: "sealed (term_ballot x) ?h" "promises_received ?h \<subseteq> insert v (fst ` set (received_promise_logs ?h))"
      using elected(1) unfolding voter_ok_def Let_def by (simp_all add: heard_def plog_def)
    have same: "sealed (term_ballot x) ((?B(v := ?h)) j) = sealed (term_ballot x) (?B j)"
      "accept_log ((?B(v := ?h)) j) = accept_log (?B j)" for j
      using h by (simp_all add: sealed_def heard_def plog_def)
    have told: "j \<in> ?P \<and> sealed (term_ballot x) (?B j) \<and> es = map snd (accept_log (?B j))"
      if "(j, es) \<in> set (received_promise_logs ?h)" for j es
      using hv that unfolding voter_ok_def Let_def same by simp
    have inh: "inherits q m" if "q = ?h \<or> (\<exists>j es. (j, es) \<in> set (received_promise_logs ?h) \<and> q = ?B j)" for q
    proof (rule elected_inherits [where B = ?B and L = ?L, OF elected(4) _ _ key _ that])
      show "omap_ok (accept_log ?h)" "map_of (accept_log ?h) \<subseteq>\<^sub>m ?L"
        using d(3,4) unfolding h voter_ok_def Let_def by simp_all
      fix j es assume j: "(j, es) \<in> set (received_promise_logs ?h)"
      with told election_okD(3,4) [OF x, of j]
      show "es = map snd (accept_log (?B j)) \<and> omap_ok (accept_log (?B j)) \<and> map_of (accept_log (?B j)) \<subseteq>\<^sub>m ?L"
        unfolding voter_ok_def Let_def by blast
    qed
    let ?Q = "promises_received ?h"
    have each: "q \<in> ?P \<and> sealed (term_ballot x) (?B q) \<and> inherits (?B q) m" if q: "q \<in> ?Q" for q
    proof (cases "q = v")
      case True
      have "inherits (?B v) m" using inh [of ?h] h(1) by (simp add: inherits_def)
      then show ?thesis using True p w(1) by (simp add: sealed_def heard_def plog_def)
    next
      case False
      then obtain es where "(q, es) \<in> set (received_promise_logs ?h)" using q w(2) by auto
      then show ?thesis using told inh by blast
    qed
    have "f_max (cl_leader ?c) + 1 \<le> int (card ?Q)" using elected(5) d(5) unfolding h(2) by simp
    with each show ?thesis unfolding heir_ok_def by (intro exI [of _ ?Q]) blast
  qed (use role d(2) in \<open>auto simp: plog_def heard_def\<close>)
  then show ?thesis using x unfolding election_ok_def Let_def by auto
qed

text \<open>Steps of the term itself.\<close>

lemma leader_step_election:
  assumes x: "election_ok x" and ok: "cluster_ok ((el_cluster x)\<lparr>cl_leader := n\<rparr>)"
    and same: "same_config (cl_leader (el_cluster x)) n" "current_ballot n = term_ballot x"
      "accept_log n = accept_log (cl_leader (el_cluster x))"
  shows "election_ok (x\<lparr>el_cluster := (el_cluster x)\<lparr>cl_leader := n\<rparr>\<rparr>)"
  using leader_election_ok [OF x ok same(1,2)] x unfolding same(3) election_ok_def Let_def by blast

lemma request_election_ok:
  assumes x: "election_ok x" and run: "HandleClientRequest now req call (cl_leader (el_cluster x)) = Inr n"
    and intra: "intra_request (cl_leader (el_cluster x)) req"
  shows "election_ok (x\<lparr>el_cluster := (el_cluster x)\<lparr>cl_leader := n\<rparr>\<rparr>)"
proof -
  have c: "cluster_ok (el_cluster x)" using x unfolding election_ok_def Let_def by blast
  note ok = request_ok [OF c run intra]
  have log: "ae_ballot e = term_ballot x" if "map_of (accept_log (cl_leader (el_cluster x))) s = Some e" for s e
    using x that unfolding election_ok_def Let_def by blast
  from request_term [OF run intra] show ?thesis
  proof
    assume "calm (cl_leader (el_cluster x)) n"
    then show ?thesis
      by (intro leader_step_election [OF x ok]) (simp_all add: calm_defs same_promises_def)
  next
    assume "proposes (cl_leader (el_cluster x)) n"
    then obtain r call' msg k where k: "calm (cl_leader (el_cluster x)) k"
      and p: "cr_timestamp r \<notin> pending_or_completed_ts k" "ae_ballot msg = current_ballot k"
        "n = propose_request r call' msg k"
      unfolding proposes_def by blast
    note eff = propose_effect [OF p(1) refl refl p(3)]
    have kb: "same_config (cl_leader (el_cluster x)) k" "current_ballot k = term_ballot x"
      "accept_log k = accept_log (cl_leader (el_cluster x))"
      using k by (simp_all add: calm_defs same_promises_def)
    have "same_config (cl_leader (el_cluster x)) n" using kb(1) eff(7) by (rule same_config_trans)
    moreover have "current_ballot n = term_ballot x" using eff(12) kb(2) by (simp add: same_promises_def)
    moreover have "ae_ballot e = term_ballot x" if "map_of (accept_log n) s = Some e" for s e
      using that log p(2) kb(2) unfolding eff(1) kb(3) by (auto split: if_splits)
    ultimately show ?thesis by (rule leader_election_ok [OF x ok])
  qed
qed

lemma accepted_election_ok:
  assumes x: "election_ok x" and a: "a \<in> cl_acks (el_cluster x)"
    and run: "HandleAccept now a (cl_leader (el_cluster x)) = Inr n"
  shows "election_ok (x\<lparr>el_cluster := (el_cluster x)\<lparr>cl_leader := n\<rparr>\<rparr>)"
proof -
  have c: "cluster_ok (el_cluster x)" using x unfolding election_ok_def Let_def by blast
  have "same_config (cl_leader (el_cluster x)) n \<and> current_ballot n = term_ballot x \<and>
      accept_log n = accept_log (cl_leader (el_cluster x))"
    using c a run
  proof (cases rule: accepted_effect)
    case (counted k e)
    have k: "same_config (cl_leader (el_cluster x)) k \<and> current_ballot k = term_ballot x \<and>
        accept_log k = accept_log (cl_leader (el_cluster x))"
      using counted(1) by (simp add: calm_defs same_promises_def same_config_def count_phase1_def)
    from counted(4) show ?thesis
    proof
      assume "quorum_phase1 a k \<and> commits_plain (ak_seqnum a) k e n"
      then obtain ce where "advances (BroadcastCommit ce (remember_commit (ak_seqnum a) ce k)) n"
        unfolding commits_plain_def by blast
      then have "same_config k n \<and> current_ballot n = current_ballot k \<and> accept_log n = accept_log k"
        by (simp add: advances_def term_frame_def same_promises_def same_config_def BroadcastCommit_def
            broadcast_cluster_def emits_def remember_commit_def)
      then show ?thesis using k same_config_trans by auto
    qed (use k in simp)
  qed (simp add: same_config_def)
  then show ?thesis using leader_step_election [OF x accepted_ok [OF c a run]] by blast
qed

lemma proposed_election_ok:
  assumes x: "election_ok x" and e: "CallAccept i e \<in> set (outbox (cl_leader (el_cluster x)))"
    and run: "HandlePropose now e (cl_backup (el_cluster x) i) = Inr (a, n)"
  shows "election_ok (x\<lparr>el_cluster := (el_cluster x)\<lparr>cl_backup := (cl_backup (el_cluster x))(i := n),
    cl_acks := insert a (cl_acks (el_cluster x))\<rparr>\<rparr>)"
proof -
  have c: "cluster_ok (el_cluster x)" using x unfolding election_ok_def Let_def by blast
  have i: "i \<in> set (cluster_peers (cl_leader (el_cluster x)))" and
    le: "map_of (accept_log (cl_leader (el_cluster x))) (ae_seqnum e) = Some e"
    using c e unfolding cluster_ok_def messages_ok_def Let_def by blast+
  have "plain_entry e" "ae_ballot e = term_ballot x"
    using x le unfolding election_ok_def cluster_ok_def leader_ok_def Let_def by blast+
  note d = election_okD [OF x i] and v = HandlePropose_votes [OF run election_okD(2) [OF x i] this]
  show ?thesis
    by (rule backup_election_ok [OF x i v(1) voter_ok_self [OF d(3) v] refl proposed_ok [OF c e run]])
qed

lemma committed_election_ok:
  assumes x: "election_ok x" and e: "CallCommit i ce \<in> set (outbox (cl_leader (el_cluster x)))"
    and run: "HandleCommit now ce (cl_backup (el_cluster x) i) = Inr n"
  shows "election_ok (x\<lparr>el_cluster := (el_cluster x)\<lparr>cl_backup := (cl_backup (el_cluster x))(i := n)\<rparr>\<rparr>)"
proof -
  let ?c = "(el_cluster x)\<lparr>cl_backup := (cl_backup (el_cluster x))(i := n)\<rparr>"
  have c: "cluster_ok (el_cluster x)" using x unfolding election_ok_def Let_def by blast
  have i: "i \<in> set (cluster_peers (cl_leader (el_cluster x)))" and st: "ce_two_pc_status ce = []"
    using c e unfolding cluster_ok_def messages_ok_def Let_def by blast+
  note d = election_okD [OF x i] and v = HandleCommit_votes [OF run backup_facts [OF c i] st]
  have "?c = (el_cluster x)\<lparr>cl_backup := (cl_backup (el_cluster x))(i := n), cl_acks := cl_acks (el_cluster x)\<rparr>"
    by simp
  then show ?thesis
    by (rule backup_election_ok [OF x i v(1) voter_ok_self [OF d(3) v] _ committed_ok [OF c e run]])
qed

lemma election_ok_step: "election_step x x' \<Longrightarrow> election_ok x \<Longrightarrow> election_ok x'"
proof (induction rule: election_step.induct)
  case (in_the_term x c)
  from in_the_term(1) show ?case
    by (rule cluster_stepE)
      (use in_the_term(3) in \<open>auto intro: request_election_ok proposed_election_ok accepted_election_ok committed_election_ok\<close>)
qed (auto intro: timer_step_ok prepare_step_ok promise_step_ok elected_step_ok)

lemma reachable_election_ok: "rtranclp election_step x0 x \<Longrightarrow> fresh_election x0 \<Longrightarrow> election_ok x"
  by (induction rule: rtranclp_induct) (auto intro: fresh_election_ok election_ok_step)

section \<open>An election after a commit\<close>

text \<open>
  The run of \<open>Agreement\<close> goes on: backup 3, which has heard nothing, times out; backup 2 promises and
  reports the request; node 3 is elected.
\<close>

definition demo_timing :: node where
  "demo_timing = timer_turn 1000 (cl_backup demo_cluster 3)"

definition demo_campaign :: prepare_request where
  "demo_campaign = \<lparr>pq_ballot = Ballot 1 3, pq_node_id = 3\<rparr>"

definition demo_promise :: promise_response where
  "demo_promise = \<lparr>pr_ballot = Ballot 1 3, pr_node_id = 2, pr_promised = True, pr_accept_log = [demo_proposal]\<rparr>"

lemma demo_proposal_sel [simp]:
  "ae_seqnum demo_proposal = 1" "ae_ballot demo_proposal = Ballot 1 1" "ae_phase2_result demo_proposal = []"
  "ae_two_pc_status demo_proposal = []" "ae_request demo_proposal = demo_request ''1'' ''2'' 4 7"
  by (simp_all add: demo_proposal_def no_entry_def)

lemma demo_timing_state:
  "demo_timing = (demo_node 3)\<lparr>k_print_log := False, timer_running := True, election_reset := False,
     waiting_for_promises := True, promises_received := {3}, current_ballot := Ballot 1 3,
     highest_promised_ballot := Ballot 1 3, last_prepare_received := 1000, in_election := True,
     outbox := [CallPrepare 1 demo_campaign, CallPrepare 2 demo_campaign]\<rparr>"
proof -
  have "election_reset (demo_node 3) = False" by (simp add: demo_node_def PaxosNode_init_def Let_def)
  then show ?thesis
    by (simp add: demo_timing_def demo_cluster_def timer_turn_def RespondAndClearNewViewCallData_def
        OnElectionTimeout_def SendPrepare_def Let_def plog_def broadcast_cluster_def emits_def cluster_peers_def
        in_my_range_def demo_campaign_def ballot_less_iff prepare_cooldown_def)
qed

lemma demo_promises:
  assumes "demo_follower b"
  shows "\<exists>n. HandlePrepare 1000 demo_campaign 0 b = Inr n \<and> RespondPrepare 0 demo_promise \<in> set (outbox n) \<and>
    map_of (entries_to_commit n) 1 = Some demo_learnt"
  using assms
  by (simp add: demo_follower_def HandlePrepare_def demo_campaign_def Let_def plog_def ballot_less_iff
      prepare_cooldown_def SendPromise_def emit_def promise_reply_def demo_promise_def)

lemma demo_merged: "fold merge_entry [demo_proposal] [] = [(1, demo_proposal)]"
  by (simp add: merge_entry_def merge_choose_def carry_outcome_def)

lemma demo_elected: "\<exists>m. HandlePromise 1000 demo_promise demo_timing = Inr m \<and> role m = LEADER"
  by (simp add: HandlePromise_def demo_promise_def demo_timing_state plog_def
      take_leadership_def OnElectionComplete_def InformClustersOfElection_def SendNewView_def send_new_view_to_def
      emits_def emit_def Let_def BecomeLeader_def StartHeartbeat_def StopElectionTimer_def
      FillMissingNoOps_def MergeAcceptLogsFromPromises_def promised_entries_def put_promise_log_def
      demo_merged [simplified] seed_entry_def fill_gap_def omap_max_key_def in_my_range_def)

section \<open>Nothing committed is lost\<close>

text \<open>
  C3: the view change that ends the first term keeps what was committed, for requests inside one shard.
  Take a cluster of \<^verbatim>\<open>2 f_ + 1\<close> nodes whose leader starts with empty logs everywhere, clients that
  send transfers between accounts of one shard only, and any run in which that leader goes on while backups
  campaign above its ballot. Whenever a backup has been elected, each request that any node still in the
  old term has learnt as committed, before or after the election, is in the new leader's log
  under its number. Nothing is said of later terms: what a second view change keeps is
  refuted by \<open>two_view_changes_diverge\<close>.
\<close>

theorem view_change_keeps_committed:
  assumes "fresh_election x0" and "rtranclp election_step x0 x" and "el_new x v = Some m"
    and "int (card (insert (node_id (cl_leader (el_cluster x))) (set (cluster_peers (cl_leader (el_cluster x)))))) =
      2 * f_max (cl_leader (el_cluster x)) + 1"
    and "map_of (entries_to_commit n) s = Some ce"
    and "n = cl_leader (el_cluster x) \<or> (\<exists>i\<in>set (cluster_peers (cl_leader (el_cluster x))). n = cl_backup (el_cluster x) i)"
  shows "\<exists>e. map_of (accept_log m) s = Some e \<and> ae_request e = ce_request ce"
proof -
  let ?c = "el_cluster x" and ?L = "cl_leader (el_cluster x)"
  let ?M = "insert (node_id ?L) (set (cluster_peers ?L))"
  have ok: "election_ok x" by (rule reachable_election_ok [OF assms(2,1)])
  then have c: "cluster_ok ?c" unfolding election_ok_def Let_def by blast
  have "chosen ?c s (ce_request ce)"
    using c assms(5,6) unfolding cluster_ok_def leader_ok_def backup_ok_def Let_def by blast
  then obtain e where e: "map_of (accept_log ?L) s = Some e" "ae_request e = ce_request ce"
    and H: "f_max ?L + 1 \<le> int (card (holders ?c s))" by (auto simp: chosen_def)
  have "heir_ok ?c m" using ok assms(3) unfolding election_ok_def Let_def by blast
  then obtain Q where Q: "Q \<subseteq> set (cluster_peers ?L)" "f_max ?L + 1 \<le> int (card Q)"
    "\<forall>q\<in>Q. inherits (cl_backup ?c q) m" unfolding heir_ok_def by blast
  have sub: "holders ?c s \<union> Q \<subseteq> ?M" using Q(1) by (auto simp: holders_def)
  have "holders ?c s \<inter> Q \<noteq> {}"
  proof
    assume "holders ?c s \<inter> Q = {}"
    moreover have "finite Q" using Q(1) finite_subset by blast
    ultimately have "card (holders ?c s \<union> Q) = card (holders ?c s) + card Q" by (simp add: card_Un_disjoint)
    moreover have "card (holders ?c s \<union> Q) \<le> card ?M" using sub by (intro card_mono) simp_all
    ultimately show False using H Q(2) assms(4) by linarith
  qed
  then obtain q where q: "q \<in> holders ?c s" "q \<in> Q" by blast
  have "q \<noteq> node_id ?L" using q(2) Q(1) by (auto simp: cluster_peers_def)
  then have "map_of (accept_log (cl_backup ?c q)) s = Some e" using q(1) e(1) by (simp add: holders_def)
  then show ?thesis using Q(3) q(2) e(2) unfolding inherits_def by metis
qed

lemma demo_fresh_election: "fresh_election \<lparr>el_cluster = demo_cluster, el_new = Map.empty\<rparr>"
proof -
  have "pending_promise_call (demo_node i) = None" "waiting_for_promises (demo_node i) = False"
    "received_promise_logs (demo_node i) = []" for i
    by (simp_all add: demo_node_def PaxosNode_init_def Let_def)
  then show ?thesis
    using demo_cluster_fresh by (simp add: fresh_election_def Let_def) (simp add: demo_cluster_def demo_ready_def)
qed

text \<open>Steps of the term are steps of the longer run while nobody has been elected.\<close>

lemma term_run_election:
  "rtranclp cluster_step c c' \<Longrightarrow>
   rtranclp election_step \<lparr>el_cluster = c, el_new = Map.empty\<rparr> \<lparr>el_cluster = c', el_new = Map.empty\<rparr>"
proof (induction rule: rtranclp_induct)
  case (step k c')
  have "election_step \<lparr>el_cluster = k, el_new = Map.empty\<rparr>
      (\<lparr>el_cluster = k, el_new = Map.empty\<rparr>\<lparr>el_cluster := c'\<rparr>)"
    by (rule election_step.in_the_term) (use step(2) in simp_all)
  with step(3) show ?case by simp
qed simp

theorem view_change_keeps_committed_witness:
  "\<exists>x m e. rtranclp election_step \<lparr>el_cluster = demo_cluster, el_new = Map.empty\<rparr> x \<and> el_new x 3 = Some m \<and>
     map_of (entries_to_commit (cl_backup (el_cluster x) 2)) 1 = Some demo_learnt \<and>
     map_of (accept_log m) 1 = Some e \<and> ae_request e = demo_request ''1'' ''2'' 4 7"
proof -
  obtain c where run: "rtranclp cluster_step demo_cluster c" and k: "demo_leads (cl_leader c)"
    and b: "demo_follower (cl_backup c 2)" and three: "cl_backup c 3 = cl_backup demo_cluster 3"
    using demo_run by blast
  from k have k': "cluster_peers (cl_leader c) = [2, 3]" "current_ballot (cl_leader c) = Ballot 1 1"
    "node_id (cl_leader c) = 1" "f_max (cl_leader c) = 1" by (simp_all add: demo_leads_def)
  obtain n where n: "HandlePrepare 1000 demo_campaign 0 (cl_backup c 2) = Inr n"
      "RespondPrepare 0 demo_promise \<in> set (outbox n)" "map_of (entries_to_commit n) 1 = Some demo_learnt" using demo_promises [OF b] by blast
  obtain m where m: "HandlePromise 1000 demo_promise demo_timing = Inr m" "role m = LEADER"
    using demo_elected by blast
  let ?x0 = "\<lparr>el_cluster = demo_cluster, el_new = Map.empty\<rparr>" and ?x1 = "\<lparr>el_cluster = c, el_new = Map.empty\<rparr>"
  let ?x2 = "set_backup 3 demo_timing ?x1"
  let ?x3 = "set_backup 2 n ?x2"
  let ?x4 = "?x3\<lparr>el_new := (el_new ?x3)(3 \<mapsto> m)\<rparr>"
  have t: "demo_timing = timer_turn 1000 (cl_backup (el_cluster ?x1) 3)" by (simp add: demo_timing_def three)
  have "election_step ?x1 ?x2" unfolding t
    by (rule election_step.timer)
      (simp_all add: in_term_def k' three campaigns_above_def demo_cluster_def ballot_less_iff)
  moreover have "election_step ?x2 ?x3"
    by (rule election_step.prepare [of _ _ 3 demo_campaign 1000 0])
      (use n in \<open>simp_all add: set_backup_def in_term_def k' demo_timing_state\<close>)
  moreover have "election_step ?x3 ?x4"
    by (rule election_step.elected [of _ _ 2 0 demo_promise 1000])
      (use n m in \<open>simp_all add: set_backup_def in_term_def k'\<close>)
  ultimately have r: "rtranclp election_step ?x0 ?x4"
    using term_run_election [OF run] by (meson rtranclp.rtrancl_into_rtrancl)
  have "el_new ?x4 3 = Some m" by simp
  from view_change_keeps_committed [OF demo_fresh_election r this _ n(3)] r n(3) show ?thesis
    by (auto simp: set_backup_def k' demo_learnt_def)
qed

end
