(* ===== verification/Network.thy ===== *)
theory Network
  imports Succession
begin

text \<open>
  Every node on an equal footing: any of them can take requests, campaign, lead and be replaced, any
  number of times, and each handles whatever the others sent, in any order and any number of times.
  Over two view changes the nodes of one cluster no longer agree.
\<close>

section \<open>The network\<close>

text \<open>\<open>n_acks\<close> holds the answers to ACCEPT calls with the node that called. A PREPARE or
  NEW-VIEW from node \<open>v\<close> arrives as call number \<open>nat v\<close>, so its answer is known to be for \<open>v\<close>.\<close>

record network =
  n_node :: "int \<Rightarrow> node"
  n_acks :: "(int \<times> ack) set"

definition set_node :: "int \<Rightarrow> node \<Rightarrow> network \<Rightarrow> network" where
  "set_node i n x = x\<lparr>n_node := (n_node x)(i := n)\<rparr>"

definition sent_by :: "network \<Rightarrow> int \<Rightarrow> action \<Rightarrow> bool" where
  "sent_by x v a \<longleftrightarrow> a \<in> set (outbox (n_node x v))"

inductive net_step :: "network \<Rightarrow> network \<Rightarrow> bool" where
  request: "cr_two_pc_msg req = [] \<Longrightarrow> HandleClientRequest now req (ClientCall c req) (n_node x i) = Inr n \<Longrightarrow>
    net_step x (set_node i n x)"
| forwarded: "sent_by x v (CallClientRequest i req) \<Longrightarrow>
    HandleClientRequest now req (ClientCall c req) (n_node x i) = Inr n \<Longrightarrow> net_step x (set_node i n x)"
| timer: "net_step x (set_node i (timer_turn now (n_node x i)) x)"
| prepare: "sent_by x v (CallPrepare i q) \<Longrightarrow> HandlePrepare now q (nat v) (n_node x i) = Inr n \<Longrightarrow>
    net_step x (set_node i n x)"
| promise: "sent_by x i (RespondPrepare (nat v) r) \<Longrightarrow> HandlePromise now r (n_node x v) = Inr n \<Longrightarrow>
    net_step x (set_node v n x)"
| new_view: "sent_by x v (CallNewView i q) \<Longrightarrow> HandleNewView now q (nat v) (n_node x i) = Inr n \<Longrightarrow>
    net_step x (set_node i n x)"
| propose: "sent_by x v (CallAccept i e) \<Longrightarrow> HandlePropose now e (n_node x i) = Inr (a, n) \<Longrightarrow>
    net_step x ((set_node i n x)\<lparr>n_acks := insert (v, a) (n_acks x)\<rparr>)"
| accepted: "(v, a) \<in> n_acks x \<Longrightarrow> HandleAccept now a (n_node x v) = Inr n \<Longrightarrow>
    net_step x (set_node v n x)"
| accept_ack: "sent_by x i (CallAcceptAck v a) \<Longrightarrow> HandleAccept now a (n_node x v) = Inr n \<Longrightarrow>
    net_step x (set_node v n x)"
| commit: "sent_by x v (CallCommit i e) \<Longrightarrow> HandleCommit now e (n_node x i) = Inr n \<Longrightarrow>
    net_step x (set_node i n x)"
| two_pc: "sent_by x v (CallTwoPC i msg) \<Longrightarrow> TwoPC_dispatch now msg (n_node x i) = Inr n \<Longrightarrow>
    net_step x (set_node i n x)"
| retry: "TransactionRetryLoop_pass now (n_node x i) = Inr n \<Longrightarrow> net_step x (set_node i n x)"

section \<open>Two view changes\<close>

text \<open>
  Node 1 leads and logs a request, but its ACCEPTs are lost. Node 3 is elected with the promise of node
  2 and proposes another request under the same number; node 1 steps down, acknowledges it, but keeps
  its own entry. Node 3 commits. Then node 2 is elected with the promise of node 1, which reports its
  old entry.
\<close>

definition other_call :: client_call where
  "other_call = ClientCall 51 (demo_request ''2'' ''1'' 3 8)"

definition other_proposal :: accepted_entry where
  "other_proposal = no_entry\<lparr>ae_ballot := Ballot 1 3, ae_node_id := 3, ae_seqnum := 1,
     ae_request := demo_request ''2'' ''1'' 3 8\<rparr>"

definition other_ack :: ack where
  "other_ack = no_ack\<lparr>ak_ballot := Ballot 1 3, ak_node_id := 1, ak_accepted := True, ak_seqnum := 1\<rparr>"

definition second_prepare :: prepare_request where
  "second_prepare = \<lparr>pq_ballot = Ballot 2 2, pq_node_id = 2\<rparr>"

definition empty_promise :: promise_response where
  "empty_promise = \<lparr>pr_ballot = Ballot 1 3, pr_node_id = 2, pr_promised = True, pr_accept_log = []\<rparr>"

definition old_promise :: promise_response where
  "old_promise = \<lparr>pr_ballot = Ballot 2 2, pr_node_id = 1, pr_promised = True, pr_accept_log = [demo_proposal]\<rparr>"

definition second_view :: new_view_request where
  "second_view = \<lparr>nv_ballot = Ballot 2 2, nv_accept_log = [demo_proposal]\<rparr>"

definition second_ack :: ack where
  "second_ack = no_ack\<lparr>ak_ballot := Ballot 2 2, ak_node_id := 1, ak_accepted := True, ak_seqnum := 1\<rparr>"

lemmas elect_defs = HandlePromise_def plog_def take_leadership_def OnElectionComplete_def
  InformClustersOfElection_def SendNewView_def send_new_view_to_def emits_def emit_def Let_def
  BecomeLeader_def StartHeartbeat_def StopElectionTimer_def FillMissingNoOps_def
  MergeAcceptLogsFromPromises_def promised_entries_def put_promise_log_def
  seed_entry_def fill_gap_def omap_max_key_def in_my_range_def new_view_entries_def

lemmas commit_defs = HandleAccept_def plog_def Let_def count_phase1_def quorum_phase1_def count_insert_def
  CommitEntry_def entry_for_commit_def BroadcastCommit_def broadcast_cluster_def emits_def
  remember_commit_def exec_loop_go exec_loop_stop execute_at_def execute_committed_def
  exec_intra [of _ 1 2] exec_intra [of _ 2 1] valid_accounts_def transferred_def apply_known_outcome_def no_commit_def
  finish_as_leader_def take_client_call_def SendClientReply_def call_client_def client_name_def
  emit_def respond_client_def cluster_peers_def in_my_range_def

lemmas request_defs = HandleClientRequest_def Let_def plog_def bootstraps_def ProcessClientRequest_def
  known_reply_def lock_and_propose_def lock_accounts_def try_lock_def accept_message_def propose_request_def
  log_put_def

lemmas demote_defs = DemoteToBackup_def step_down_def StopHeartbeat_def reset_in_flights_def respond_pending_calls_def

lemmas timer_defs = timer_turn_def RespondAndClearNewViewCallData_def OnElectionTimeout_def SendPrepare_def
  prepare_cooldown_def

text \<open>Node 3 is elected, proposes and commits.\<close>

definition executed_first :: "commit_entry \<Rightarrow> int \<Rightarrow> node \<Rightarrow> bool" where
  "executed_first ce b n \<longleftrightarrow>
     last_executed_seq n = 1 \<and> balance n 1 = b \<and> map_of (entries_to_commit n) 1 = Some ce"

lemma third_commits:
  "\<exists>a. HandlePromise 1000 empty_promise demo_timing = Inr a \<and>
     (\<exists>b. HandleClientRequest 1200 (demo_request ''2'' ''1'' 3 8) other_call a = Inr b \<and>
        CallAccept 1 other_proposal \<in> set (outbox b) \<and>
        (\<exists>c. HandleAccept 1600 other_ack b = Inr c \<and>
           executed_first (entry_for_commit other_ack other_proposal) 13 c))"
  by (simp add: elect_defs empty_promise_def demo_timing_state)
    (simp add: executed_first_def request_defs commit_defs other_proposal_def other_ack_def no_entry_def no_ack_def other_call_def)

text \<open>Node 1 acknowledges the other request and then reports and acknowledges its own.\<close>

lemma other_proposal_sel [simp]:
  "ae_ballot other_proposal = Ballot 1 3" "ae_new_leader other_proposal = 0" "ae_seqnum other_proposal = 1"
  "ae_two_pc_status other_proposal = []" "ae_request other_proposal = demo_request ''2'' ''1'' 3 8"
  by (simp_all add: other_proposal_def no_entry_def)

lemma demo_proposing_more [simp]:
  "highest_promised_ballot demo_proposing = Ballot 0 0" "wal demo_proposing = []"
  "shard_map demo_proposing 1 = 1" "queued_client_requests demo_proposing = []"
  "timer_running demo_proposing = False"
  by (simp_all add: demo_proposing_def propose_request_def demo_cluster_def demo_ready_def Let_def
      demo_proposal_def no_entry_def plog_def log_put_def broadcast_cluster_def emits_def)

definition reports_old :: "node \<Rightarrow> bool" where
  "reports_old a \<longleftrightarrow> (\<exists>b. HandlePrepare 3000 second_prepare 2 a = Inr b \<and>
     RespondPrepare 2 old_promise \<in> set (outbox b) \<and>
     (\<exists>c. HandleNewView 3000 second_view 2 b = Inr c \<and> CallAcceptAck 2 second_ack \<in> set (outbox c)))"

lemma first_keeps: "\<exists>a. HandlePropose 1500 other_proposal demo_proposing = Inr (other_ack, a) \<and> reports_old a"
  unfolding reports_old_def
  by (simp add: HandlePropose_def plog_def demote_defs ballot_less_iff accept_proposal_def SetNewLeader_def
      StartElectionTimer_def ResetElectionTimer_def log_put_def FillAcceptAck_def other_ack_def no_ack_def
      emits_def bindE_def,
    simp add: HandlePrepare_def second_prepare_def plog_def ballot_less_iff
    prepare_cooldown_def SendPromise_def emit_def promise_reply_def old_promise_def bindE_def Let_def)
    (simp add: HandleNewView_def second_view_def Let_def plog_def ResetElectionTimer_def SetNewLeader_def
     OnElectionComplete_def process_new_view_def adopt_entry_def new_view_ack_def call_peer_def emit_def
     second_ack_def no_ack_def)

text \<open>Node 2 promises, campaigns twice, is elected with the old entry and commits it.\<close>

definition demo_promised :: node where
  "demo_promised = (demo_node 2)\<lparr>k_print_log := False, timer_running := True, last_prepare_received := 1000,
     in_election := True, highest_promised_ballot := Ballot 1 3, outbox := [RespondPrepare 3 empty_promise],
     pending_promise_call := None, election_reset := False, queued_client_requests := []\<rparr>"

lemma demo_node_idle [simp]:
  "election_reset (demo_node i) = False" "pending_promise_call (demo_node i) = None"
  "queued_client_requests (demo_node i) = []" "received_promise_logs (demo_node i) = []"
  "newview_call_data (demo_node i) = None"
  by (simp_all add: demo_node_def PaxosNode_init_def Let_def)

lemma second_promises:
  "HandlePrepare 1000 demo_campaign 3 (cl_backup demo_cluster 2) = Inr demo_promised"
  by (simp add: demo_cluster_def HandlePrepare_def plog_def demo_campaign_def ballot_less_iff Let_def
    prepare_cooldown_def SendPromise_def emit_def promise_reply_def empty_promise_def demo_promised_def demo_node_def PaxosNode_init_def)

definition demo_campaigning :: node where
  "demo_campaigning = timer_turn 3000 (timer_turn 2000 demo_promised)"

lemma demo_campaigning_state:
  "demo_campaigning = demo_promised\<lparr>waiting_for_promises := True, promises_received := {2},
     current_ballot := Ballot 2 2, highest_promised_ballot := Ballot 2 2, last_prepare_received := 3000,
     outbox := [RespondPrepare 3 empty_promise, CallPrepare 1 \<lparr>pq_ballot = Ballot 1 2, pq_node_id = 2\<rparr>,
       CallPrepare 3 \<lparr>pq_ballot = Ballot 1 2, pq_node_id = 2\<rparr>, CallPrepare 1 second_prepare,
       CallPrepare 3 second_prepare]\<rparr>"
proof -
  have "timer_turn 2000 demo_promised = demo_promised\<lparr>waiting_for_promises := True, promises_received := {2},
     current_ballot := Ballot 1 2, last_prepare_received := 2000,
     outbox := [RespondPrepare 3 empty_promise, CallPrepare 1 \<lparr>pq_ballot = Ballot 1 2, pq_node_id = 2\<rparr>,
       CallPrepare 3 \<lparr>pq_ballot = Ballot 1 2, pq_node_id = 2\<rparr>]\<rparr>"
    by (simp add: timer_defs demo_promised_def Let_def plog_def broadcast_cluster_def emits_def cluster_peers_def
        in_my_range_def ballot_less_iff)
  then show ?thesis
    by (simp add: demo_campaigning_def) (simp add: timer_defs demo_promised_def Let_def plog_def broadcast_cluster_def
      emits_def cluster_peers_def in_my_range_def ballot_less_iff second_prepare_def)
qed

lemma second_commits:
  "\<exists>c. HandlePromise 3000 old_promise demo_campaigning = Inr c \<and> CallNewView 1 second_view \<in> set (outbox c) \<and>
     (\<exists>d. HandleAccept 3000 second_ack c = Inr d \<and>
        executed_first (entry_for_commit second_ack demo_proposal) 6 d)"
  by (simp add: elect_defs old_promise_def demo_campaigning_state demo_promised_def demo_merged [simplified])
    (simp add: executed_first_def second_view_def second_ack_def no_ack_def commit_defs accept_log_at_def)

definition demo_network :: network where
  "demo_network = \<lparr>n_node = (\<lambda>i. if i = 1 then cl_leader demo_cluster else cl_backup demo_cluster i), n_acks = {}\<rparr>"

lemma first_view_change:
  "\<exists>x. rtranclp net_step demo_network x \<and> reports_old (n_node x 1) \<and> n_node x 2 = demo_promised \<and>
     executed_first (entry_for_commit other_ack other_proposal) 13 (n_node x 3)"
proof -
  obtain a3 b3 c3 where three: "HandlePromise 1000 empty_promise demo_timing = Inr a3"
      "HandleClientRequest 1200 (demo_request ''2'' ''1'' 3 8) other_call a3 = Inr b3"
      "CallAccept 1 other_proposal \<in> set (outbox b3)" "HandleAccept 1600 other_ack b3 = Inr c3"
      "executed_first (entry_for_commit other_ack other_proposal) 13 c3"
    using third_commits by blast
  obtain a1 where one: "HandlePropose 1500 other_proposal demo_proposing = Inr (other_ack, a1)" "reports_old a1"
    using first_keeps by blast
  let ?x1 = "set_node 1 demo_proposing demo_network"
  let ?x2 = "set_node 3 demo_timing ?x1"
  let ?x3 = "set_node 2 demo_promised ?x2"
  let ?x4 = "set_node 3 a3 ?x3"
  let ?x5 = "set_node 3 b3 ?x4"
  let ?x6 = "(set_node 1 a1 ?x5)\<lparr>n_acks := insert (3, other_ack) (n_acks ?x5)\<rparr>"
  let ?x7 = "set_node 3 c3 ?x6"
  note sets = set_node_def sent_by_def
  have "net_step demo_network ?x1"
    by (rule net_step.request [of "demo_request ''1'' ''2'' 4 7" 0 50])
      (simp_all add: demo_network_def demo_requested [unfolded demo_call_def])
  moreover have "net_step ?x1 ?x2"
    using net_step.timer [of ?x1 3 1000] by (simp add: demo_timing_def sets demo_network_def)
  moreover have "net_step ?x2 ?x3"
    by (rule net_step.prepare [of _ 3 _ demo_campaign 1000])
      (simp_all add: sets demo_timing_state demo_network_def second_promises)
  moreover have "net_step ?x3 ?x4"
    by (rule net_step.promise [of _ 2 3 empty_promise 1000]) (simp_all add: sets demo_promised_def three)
  moreover have "net_step ?x4 ?x5"
    by (rule net_step.request [of "demo_request ''2'' ''1'' 3 8" 1200 51])
      (simp_all add: sets three(2) [unfolded other_call_def])
  moreover have "net_step ?x5 ?x6"
    by (rule net_step.propose [of _ 3 _ other_proposal 1500]) (simp_all add: sets three one)
  moreover have "net_step ?x6 ?x7"
    by (rule net_step.accepted [of _ other_ack _ 1600]) (simp_all add: sets three)
  ultimately have "rtranclp net_step demo_network ?x7"
    by (meson rtranclp.rtrancl_refl rtranclp.rtrancl_into_rtrancl)
  then show ?thesis using one three by (intro exI [of _ ?x7]) (simp add: sets)
qed

lemma second_view_change:
  assumes "reports_old (n_node x 1)" and "n_node x 2 = demo_promised"
  shows "\<exists>y. rtranclp net_step x y \<and> n_node y 3 = n_node x 3 \<and>
    executed_first (entry_for_commit second_ack demo_proposal) 6 (n_node y 2)"
proof -
  obtain b1 c1 where one: "HandlePrepare 3000 second_prepare 2 (n_node x 1) = Inr b1"
      "RespondPrepare 2 old_promise \<in> set (outbox b1)"
      "HandleNewView 3000 second_view 2 b1 = Inr c1" "CallAcceptAck 2 second_ack \<in> set (outbox c1)"
    using assms(1) unfolding reports_old_def by blast
  obtain c2 d2 where two: "HandlePromise 3000 old_promise demo_campaigning = Inr c2"
      "CallNewView 1 second_view \<in> set (outbox c2)" "HandleAccept 3000 second_ack c2 = Inr d2"
      "executed_first (entry_for_commit second_ack demo_proposal) 6 d2"
    using second_commits by blast
  let ?x1 = "set_node 2 (timer_turn 2000 demo_promised) x"
  let ?x2 = "set_node 2 demo_campaigning ?x1"
  let ?x3 = "set_node 1 b1 ?x2"
  let ?x4 = "set_node 2 c2 ?x3"
  let ?x5 = "set_node 1 c1 ?x4"
  let ?x6 = "set_node 2 d2 ?x5"
  note sets = set_node_def sent_by_def
  have "net_step x ?x1" using net_step.timer [of x 2 2000] assms(2) by (simp add: sets)
  moreover have "net_step ?x1 ?x2"
    using net_step.timer [of ?x1 2 3000] by (simp add: sets demo_campaigning_def)
  moreover have "net_step ?x2 ?x3"
    by (rule net_step.prepare [of _ 2 _ second_prepare 3000]) (simp_all add: sets demo_campaigning_state one)
  moreover have "net_step ?x3 ?x4"
    by (rule net_step.promise [of _ 1 2 old_promise 3000]) (simp_all add: sets one two)
  moreover have "net_step ?x4 ?x5"
    by (rule net_step.new_view [of _ 2 _ second_view 3000]) (simp_all add: sets one two)
  moreover have "net_step ?x5 ?x6"
    by (rule net_step.accept_ack [of _ 1 _ second_ack 3000]) (simp_all add: sets one two)
  ultimately have "rtranclp net_step x ?x6"
    by (meson rtranclp.rtrancl_refl rtranclp.rtrancl_into_rtrancl)
  then show ?thesis using two by (intro exI [of _ ?x6]) (simp add: sets)
qed

text \<open>
  C28: agreement does not survive two view changes. From the start of the sample deployment, with node 1
  leading, some run of the handlers of the three nodes ends with nodes 2 and 3 having committed and
  executed different requests as number 1, so that their balances differ: a backup acknowledges
  a proposal whose number its log already holds, without putting it there, and reports the old entry to
  the next candidate.
\<close>

theorem two_view_changes_diverge:
  "\<exists>x a b. rtranclp net_step demo_network x \<and>
     map_of (entries_to_commit (n_node x 2)) 1 = Some a \<and> ce_request a = demo_request ''1'' ''2'' 4 7 \<and>
     map_of (entries_to_commit (n_node x 3)) 1 = Some b \<and> ce_request b = demo_request ''2'' ''1'' 3 8 \<and>
     last_executed_seq (n_node x 2) = 1 \<and> last_executed_seq (n_node x 3) = 1 \<and>
     balance (n_node x 2) 1 = 6 \<and> balance (n_node x 3) 1 = 13"
proof -
  obtain x where x: "rtranclp net_step demo_network x" "reports_old (n_node x 1)" "n_node x 2 = demo_promised"
    "executed_first (entry_for_commit other_ack other_proposal) 13 (n_node x 3)"
    using first_view_change by blast
  then obtain y where y: "rtranclp net_step x y" "n_node y 3 = n_node x 3"
    "executed_first (entry_for_commit second_ack demo_proposal) 6 (n_node y 2)"
    using second_view_change by blast
  have "ce_request (entry_for_commit second_ack demo_proposal) = demo_request ''1'' ''2'' 4 7"
    "ce_request (entry_for_commit other_ack other_proposal) = demo_request ''2'' ''1'' 3 8"
    by (simp_all add: entry_for_commit_def)
  with x(4) y have "map_of (entries_to_commit (n_node y 2)) 1 = Some (entry_for_commit second_ack demo_proposal) \<and>
      map_of (entries_to_commit (n_node y 3)) 1 = Some (entry_for_commit other_ack other_proposal)"
    by (simp add: executed_first_def)
  with x y show ?thesis
    by (intro exI [of _ y]) (auto simp: executed_first_def entry_for_commit_def)
qed

end
