(* ===== verification/CrossShard.thy ===== *)
theory CrossShard
  imports Network
begin

text \<open>
  A cross-shard transfer over the network of \<open>Network\<close>: the leaders of two clusters and one backup
  of each. The coordinator gives up on a participant that does not answer in time; the late answer is
  still obeyed.
\<close>

section \<open>A pass of the retry loop with one slot in use\<close>

lemma retry_slot_frame:
  assumes "retry_slot now i n = Inr m"
  shows "vsize (in_flight_prepares m) = vsize (in_flight_prepares n)"
    and "j \<noteq> i \<Longrightarrow> vat (in_flight_prepares m) j = vat (in_flight_prepares n) j"
  using assms
  by (auto simp: retry_slot_def HandlePreparedTimeout_def propose_second_phase_def broadcast_cluster_def emits_def
      log_put_def call_peer_def emit_def Let_def exn_simps split: if_splits)

lemma retry_idle:
  "\<forall>j\<in>set js. 0 \<le> j \<and> j < vsize (in_flight_prepares n) \<and> \<not> slot_due now (vat (in_flight_prepares n) j) \<Longrightarrow>
   foldE (retry_slot now) js n = Inr n"
  by (induction js) (auto simp: retry_slot_def)

lemma retry_one:
  assumes "0 \<le> i" and "i < vsize (in_flight_prepares n)"
    and "\<forall>j. j \<noteq> i \<longrightarrow> \<not> slot_due now (vat (in_flight_prepares n) j)"
  shows "TransactionRetryLoop_pass now n = retry_slot now i n"
proof -
  let ?s = "vsize (in_flight_prepares n)"
  have split: "[0..?s - 1] = [0..i - 1] @ i # [i + 1..?s - 1]"
    using assms(1,2) upto_split2 [of 0 "i - 1" "?s - 1"] upto_rec1 [of i "?s - 1"] by (cases "0 < i") auto
  have "foldE (retry_slot now) [0..i - 1] n = Inr n"
    by (rule retry_idle) (use assms in auto)
  moreover have "foldE (retry_slot now) [i + 1..?s - 1] m = Inr m" if "retry_slot now i n = Inr m" for m
    by (rule retry_idle) (use assms retry_slot_frame [OF that] in auto)
  ultimately show ?thesis
    unfolding TransactionRetryLoop_pass_def split foldE_append
    by (cases "retry_slot now i n") simp_all
qed

section \<open>A late answer\<close>

text \<open>
  Node 1 coordinates a transfer of 4 units from item 1 to item 3001 of cluster 2, whose leader is node
  4. Each of them has one backup that answers.
\<close>

definition cross_request :: client_request where
  "cross_request = demo_request ''1'' ''3001'' 4 7"

definition cross_prepare :: client_request where
  "cross_prepare = cross_request\<lparr>cr_two_pc_msg := ''PREPARE'', cr_from_node := 1\<rparr>"

definition demo_coord :: node where
  "demo_coord = cl_leader demo_cluster"

definition demo_part :: node where
  "demo_part = (demo_node 4)\<lparr>role := LEADER, current_ballot := Ballot 1 4, leader_id := 4,
     in_election := False, first_txn_received := False, k_print_log := False\<rparr>"

definition coord_entry :: accepted_entry where
  "coord_entry = no_entry\<lparr>ae_ballot := Ballot 1 1, ae_node_id := 1, ae_seqnum := 1, ae_request := cross_request,
     ae_two_pc_status := ''COORD'', ae_m := cross_request\<rparr>"

definition coord_ack :: ack where
  "coord_ack = no_ack\<lparr>ak_ballot := Ballot 1 1, ak_node_id := 2, ak_accepted := True, ak_seqnum := 1,
     ak_status := ''COORD''\<rparr>"

definition abort_entry :: accepted_entry where
  "abort_entry = coord_entry\<lparr>ae_m := cross_prepare, ae_two_pc_status := ''A_COORD''\<rparr>"

definition abort_ack :: ack where
  "abort_ack = coord_ack\<lparr>ak_status := ''A_COORD'', ak_phase := 2\<rparr>"

definition late_answer :: twopc_msg where
  "late_answer = \<lparr>tm_type = ''PREPARED'', tm_s = ''1'', tm_r = ''3001'', tm_amt = 4, tm_m = cross_prepare\<rparr>"

definition late_decision :: twopc_msg where
  "late_decision = late_answer\<lparr>tm_type := ''COMMIT''\<rparr>"

definition late_entry :: accepted_entry where
  "late_entry = coord_entry\<lparr>ae_request := cross_prepare, ae_m := cross_prepare, ae_two_pc_status := ''C_COORD''\<rparr>"

definition late_ack :: ack where
  "late_ack = abort_ack\<lparr>ak_status := ''C_COORD''\<rparr>"

text \<open>What clients were told, in order; then what is left to do of each node's part.\<close>

definition told :: "bool list \<Rightarrow> node \<Rightarrow> bool" where
  "told bs n \<longleftrightarrow> [rp_success r. CallClientReply c r \<leftarrow> outbox n] = bs"

definition obeys_late :: "node \<Rightarrow> bool" where
  "obeys_late e \<longleftrightarrow> (\<exists>f. TwoPC_dispatch 4000 late_answer e = Inr f \<and>
     CallTwoPC 4 late_decision \<in> set (outbox f) \<and> CallAccept 2 late_entry \<in> set (outbox f) \<and>
     (\<exists>g. HandleAccept 4000 late_ack f = Inr g \<and> CallTwoPC 4 late_decision \<in> set (outbox g) \<and>
        balance g 1 = 10 \<and> wal g = [] \<and> told [False, True] g))"

definition gives_up :: "node \<Rightarrow> bool" where
  "gives_up b \<longleftrightarrow> (\<exists>c. TransactionRetryLoop_pass 2000 b = Inr c \<and>
     (\<exists>d. TransactionRetryLoop_pass 3000 c = Inr d \<and> CallAccept 2 abort_entry \<in> set (outbox d) \<and>
     (\<exists>e. HandleAccept 3000 abort_ack d = Inr e \<and> CallClientRequest 4 cross_prepare \<in> set (outbox e) \<and>
        balance e 1 = 10 \<and> told [False] e \<and> obeys_late e)))"

definition part_entry :: accepted_entry where
  "part_entry = no_entry\<lparr>ae_ballot := Ballot 1 4, ae_node_id := 4, ae_seqnum := 1, ae_request := cross_prepare,
     ae_two_pc_status := ''P'', ae_m := cross_prepare\<rparr>"

definition part_ack :: ack where
  "part_ack = no_ack\<lparr>ak_ballot := Ballot 1 4, ak_node_id := 5, ak_accepted := True, ak_seqnum := 1,
     ak_status := ''P''\<rparr>"

definition credit_entry :: accepted_entry where
  "credit_entry = part_entry\<lparr>ae_two_pc_status := ''C''\<rparr>"

definition credit_ack :: ack where
  "credit_ack = part_ack\<lparr>ak_status := ''C'', ak_phase := 2\<rparr>"

definition credits :: "node \<Rightarrow> bool" where
  "credits b \<longleftrightarrow> (\<exists>c. TwoPC_dispatch 4500 late_decision b = Inr c \<and>
     CallAccept 5 credit_entry \<in> set (outbox c) \<and>
     (\<exists>d. HandleAccept 4500 credit_ack c = Inr d \<and> balance d 3001 = 14 \<and> wal d = []))"

lemmas sending_defs = broadcast_cluster_def emits_def emit_def cluster_peers_def in_my_range_def call_peer_def
  log_put_def count_insert_def Let_def

lemmas cross_requests = cross_prepare_def cross_request_def

lemmas cross_messages = coord_entry_def abort_entry_def late_entry_def part_entry_def credit_entry_def
  late_answer_def late_decision_def no_entry_def cross_requests

lemmas cross_answers = coord_ack_def abort_ack_def late_ack_def part_ack_def credit_ack_def no_ack_def no_commit_def

lemmas timeout_defs = retry_one [of 7] retry_slot_def slot_due_def prepare_timeout_def HandlePreparedTimeout_def
  propose_second_phase_def old_accept_of_def

lemmas decide_defs = TwoPC_dispatch_def HandlePreparedAndAborted_def StartSecondPhase_def forward_decision_def
  set_in_flight_def second_phase_entry_def second_phase_status_def propose_second_phase_def old_accept_of_def

lemmas outcome_defs = HandleAccept_def plog_def count_phase2_def quorum_phase2_def CommitEntry_def
  entry_for_commit_def BroadcastCommit_def remember_commit_def accept_log_at_def ExecuteRepeatedTwoPCEntry_def
  record_outcome_def resolve_two_pc_def wal_at_def reply_two_pc_def SendClientReplyTwoPC_def
  SendReplyToCoordLeader_def coord_reply_type_def call_client_def client_name_def set_account_def unlock_def
  wal_erase_def omap_erase_def told_def card_insert_if

text \<open>The coordinator: phase 1, the two passes of the retry loop, the abort, then the late answer.\<close>

lemma coordinator_run:
  "\<exists>a. HandleClientRequest 1000 cross_request (ClientCall 60 cross_request) demo_coord = Inr a \<and>
     CallClientRequest 4 cross_prepare \<in> set (outbox a) \<and> CallAccept 2 coord_entry \<in> set (outbox a) \<and>
     (\<exists>b. HandleAccept 1000 coord_ack a = Inr b \<and> gives_up b)"
  apply (simp add: demo_coord_def demo_cluster_def demo_ready_def request_defs cross_request_def
    send_prepare_2pc_def set_in_flight_def call_peer_def emit_def no_in_flight_def in_flight_slots_def)
  apply (simp add: cross_messages sending_defs)
  apply (simp add: commit_defs cross_answers exec_coord [of _ 1 3001] prepared_def coordinator_executed_def)
  apply (unfold gives_up_def)
  apply (simp add: timeout_defs call_peer_def emit_def)
  apply (simp add: cross_messages sending_defs)
  apply (simp add: outcome_defs cross_answers sending_defs cross_messages)
  apply (unfold obeys_late_def)
  apply (simp add: decide_defs cross_messages call_peer_def emit_def Let_def)
  apply (simp add: cross_messages sending_defs)
  apply (simp add: outcome_defs cross_answers sending_defs cross_messages)
  done

text \<open>The participant: phase 1 and its answer, then the commit it is told.\<close>

lemma participant_run:
  "\<exists>a. HandleClientRequest 3500 cross_prepare (ClientCall 61 cross_prepare) demo_part = Inr a \<and>
     CallAccept 5 part_entry \<in> set (outbox a) \<and>
     (\<exists>b. HandleAccept 3500 part_ack a = Inr b \<and> CallTwoPC 1 late_answer \<in> set (outbox b) \<and> credits b)"
  apply (simp add: demo_part_def request_defs lock_participant_def cross_requests no_entry_def sending_defs)
  apply (simp add: cross_messages)
  apply (simp add: commit_defs cross_answers exec_participant [of _ 1 3001] prepared_def)
  apply (simp add: SendReplyToCoordLeader_def coord_reply_type_def sending_defs respond_client_def exec_loop_stop
    cross_messages omap_erase_def)
  apply (unfold credits_def)
  apply (simp add: decide_defs cross_messages call_peer_def emit_def Let_def)
  apply (simp add: cross_messages sending_defs)
  apply (simp add: outcome_defs cross_answers sending_defs)
  done

section \<open>The run\<close>

text \<open>A backup that promised no higher ballot answers, and stays so.\<close>

definition ready_backup :: "int \<Rightarrow> ballot \<Rightarrow> node \<Rightarrow> bool" where
  "ready_backup i b n \<longleftrightarrow> alive n \<and> role n = BACKUP \<and> node_id n = i \<and> highest_promised_ballot n \<le> b"

definition backup_ack :: "int \<Rightarrow> accepted_entry \<Rightarrow> ack" where
  "backup_ack i e = (FillAcceptAck e no_ack (demo_node i))\<lparr>ak_accepted := True\<rparr>"

lemma ready_backup_answers:
  assumes "ready_backup i (ae_ballot e) n" and "ae_new_leader e = 0"
  shows "\<exists>m. HandlePropose now e n = Inr (backup_ack i e, m) \<and> ready_backup i (ae_ballot e) m"
  using assms
  by (auto simp: HandlePropose_def accept_proposal_def ready_backup_def backup_ack_def FillAcceptAck_def Let_def
      SetNewLeader_def log_put_def ResetElectionTimer_def plog_def no_ack_def)

lemma ack_round:
  assumes "sent_by x v (CallAccept i e)" and "ready_backup i (ae_ballot e) (n_node x i)" and "ae_new_leader e = 0"
    and "HandleAccept now (backup_ack i e) (n_node x v) = Inr n" and "i \<noteq> v"
  shows "\<exists>y p. rtranclp net_step x y \<and> n_node y = (n_node x)(i := p, v := n) \<and> ready_backup i (ae_ballot e) p"
proof -
  obtain p where p: "HandlePropose now e (n_node x i) = Inr (backup_ack i e, p)" "ready_backup i (ae_ballot e) p"
    using ready_backup_answers assms(2,3) by blast
  let ?y = "(set_node i p x)\<lparr>n_acks := insert (v, backup_ack i e) (n_acks x)\<rparr>"
  have "net_step x ?y" using assms(1) p(1) by (rule net_step.propose)
  moreover have "net_step ?y (set_node v n ?y)"
    by (rule net_step.accepted [where a = "backup_ack i e" and now = now])
      (use assms(4,5) in \<open>simp_all add: set_node_def\<close>)
  ultimately have "rtranclp net_step x (set_node v n ?y)"
    by (meson rtranclp.rtrancl_refl rtranclp.rtrancl_into_rtrancl)
  with p(2) show ?thesis by (intro exI [of _ "set_node v n ?y"]) (auto simp: set_node_def)
qed

lemma cross_acks [simp]:
  "backup_ack 2 coord_entry = coord_ack" "backup_ack 2 abort_entry = abort_ack"
  "backup_ack 2 late_entry = late_ack" "backup_ack 5 part_entry = part_ack"
  "backup_ack 5 credit_entry = credit_ack"
  by (simp_all add: backup_ack_def FillAcceptAck_def no_ack_def coord_ack_def abort_ack_def late_ack_def part_ack_def
      credit_ack_def coord_entry_def abort_entry_def late_entry_def part_entry_def credit_entry_def)

lemma cross_entries [simp]:
  "ae_ballot coord_entry = Ballot 1 1" "ae_ballot abort_entry = Ballot 1 1" "ae_ballot late_entry = Ballot 1 1"
  "ae_ballot part_entry = Ballot 1 4" "ae_ballot credit_entry = Ballot 1 4"
  "ae_new_leader coord_entry = 0" "ae_new_leader abort_entry = 0" "ae_new_leader late_entry = 0"
  "ae_new_leader part_entry = 0" "ae_new_leader credit_entry = 0"
  by (simp_all add: coord_entry_def abort_entry_def late_entry_def part_entry_def credit_entry_def no_entry_def)

definition cross_network :: network where
  "cross_network = \<lparr>n_node = (\<lambda>i. if i = 1 then demo_coord else if i = 4 then demo_part
     else cl_backup demo_cluster i), n_acks = {}\<rparr>"

lemma cross_coord: "n_node cross_network 1 = demo_coord"
  by (simp add: cross_network_def)

lemma cross_start:
  "n_node cross_network 4 = demo_part"
  "ready_backup 2 (Ballot 1 1) (n_node cross_network 2)" "ready_backup 5 (Ballot 1 4) (n_node cross_network 5)"
  by (simp_all add: cross_network_def ready_backup_def demo_cluster_def ballot_le_iff)

lemmas one_step = converse_rtranclp_into_rtranclp

lemma gave_up_run:
  "\<exists>x. rtranclp net_step cross_network x \<and> obeys_late (n_node x 1) \<and>
     sent_by x 1 (CallClientRequest 4 cross_prepare) \<and> ready_backup 2 (Ballot 1 1) (n_node x 2) \<and>
     n_node x 4 = demo_part \<and> ready_backup 5 (Ballot 1 4) (n_node x 5)"
proof -
  obtain a b where ab: "HandleClientRequest 1000 cross_request (ClientCall 60 cross_request) demo_coord = Inr a"
      "CallAccept 2 coord_entry \<in> set (outbox a)" "HandleAccept 1000 coord_ack a = Inr b" "gives_up b"
    using coordinator_run by blast
  then obtain c d e where cde: "TransactionRetryLoop_pass 2000 b = Inr c"
      "TransactionRetryLoop_pass 3000 c = Inr d" "CallAccept 2 abort_entry \<in> set (outbox d)"
      "HandleAccept 3000 abort_ack d = Inr e" "CallClientRequest 4 cross_prepare \<in> set (outbox e)" "obeys_late e"
    unfolding gives_up_def by blast
  note sets = set_node_def sent_by_def
  let ?x1 = "set_node 1 a cross_network"
  have "net_step cross_network ?x1"
    by (rule net_step.request [OF _ ab(1) [folded cross_coord]]) (simp add: cross_request_def)
  moreover obtain x2 p where two: "rtranclp net_step ?x1 x2"
      "n_node x2 = (n_node ?x1)(2 := p, 1 := b)" "ready_backup 2 (Ballot 1 1) p"
    using ack_round [of ?x1 1 2 coord_entry 1000 b] ab cross_start by (auto simp: sets)
  moreover have "net_step x2 (set_node 1 c x2)"
    by (rule net_step.retry [of 2000]) (simp add: two cde)
  moreover have "net_step (set_node 1 c x2) (set_node 1 d (set_node 1 c x2))"
    by (rule net_step.retry [of 3000]) (simp add: sets cde)
  moreover obtain x5 q where five: "rtranclp net_step (set_node 1 d (set_node 1 c x2)) x5"
      "n_node x5 = (n_node (set_node 1 d (set_node 1 c x2)))(2 := q, 1 := e)" "ready_backup 2 (Ballot 1 1) q"
    using ack_round [of "set_node 1 d (set_node 1 c x2)" 1 2 abort_entry 3000 e] two cde by (auto simp: sets)
  ultimately have "rtranclp net_step cross_network x5" by (meson one_step rtranclp_trans)
  then show ?thesis using two five cde cross_start by (intro exI [of _ x5]) (simp add: sets)
qed

lemma prepared_run:
  assumes "sent_by x 1 (CallClientRequest 4 cross_prepare)" and "n_node x 4 = demo_part"
    and "ready_backup 5 (Ballot 1 4) (n_node x 5)"
  shows "\<exists>y. rtranclp net_step x y \<and> n_node y 1 = n_node x 1 \<and> n_node y 2 = n_node x 2 \<and>
    sent_by y 4 (CallTwoPC 1 late_answer) \<and> credits (n_node y 4) \<and> ready_backup 5 (Ballot 1 4) (n_node y 5)"
proof -
  obtain a b where ab: "HandleClientRequest 3500 cross_prepare (ClientCall 61 cross_prepare) demo_part = Inr a"
      "CallAccept 5 part_entry \<in> set (outbox a)" "HandleAccept 3500 part_ack a = Inr b"
      "CallTwoPC 1 late_answer \<in> set (outbox b)" "credits b"
    using participant_run by blast
  note sets = set_node_def sent_by_def
  have "net_step x (set_node 4 a x)"
    by (rule net_step.forwarded [OF assms(1), where now = 3500 and c = 61]) (simp add: assms(2) ab(1))
  moreover obtain y p where "rtranclp net_step (set_node 4 a x) y"
      "n_node y = (n_node (set_node 4 a x))(5 := p, 4 := b)" "ready_backup 5 (Ballot 1 4) p"
    using ack_round [of "set_node 4 a x" 4 5 part_entry 3500 b] ab assms by (auto simp: sets)
  ultimately show ?thesis using ab by (intro exI [of _ y]) (auto simp: sets intro: one_step)
qed

lemma late_run:
  assumes "obeys_late (n_node x 1)" and "sent_by x 4 (CallTwoPC 1 late_answer)" and "credits (n_node x 4)"
    and "ready_backup 2 (Ballot 1 1) (n_node x 2)" and "ready_backup 5 (Ballot 1 4) (n_node x 5)"
  shows "\<exists>y. rtranclp net_step x y \<and> balance (n_node y 1) 1 = 10 \<and> wal (n_node y 1) = [] \<and>
    told [False, True] (n_node y 1) \<and> balance (n_node y 4) 3001 = 14 \<and> wal (n_node y 4) = []"
proof -
  obtain f g where fg: "TwoPC_dispatch 4000 late_answer (n_node x 1) = Inr f" "CallAccept 2 late_entry \<in> set (outbox f)"
      "HandleAccept 4000 late_ack f = Inr g" "CallTwoPC 4 late_decision \<in> set (outbox g)"
      "balance g 1 = 10" "wal g = []" "told [False, True] g"
    using assms(1) unfolding obeys_late_def by blast
  obtain c d where cd: "TwoPC_dispatch 4500 late_decision (n_node x 4) = Inr c"
      "CallAccept 5 credit_entry \<in> set (outbox c)" "HandleAccept 4500 credit_ack c = Inr d"
      "balance d 3001 = 14" "wal d = []"
    using assms(3) unfolding credits_def by blast
  note sets = set_node_def sent_by_def
  have "net_step x (set_node 1 f x)" using assms(2) fg(1) by (rule net_step.two_pc)
  moreover obtain y p where y: "rtranclp net_step (set_node 1 f x) y"
      "n_node y = (n_node (set_node 1 f x))(2 := p, 1 := g)"
    using ack_round [of "set_node 1 f x" 1 2 late_entry 4000 g] fg assms by (auto simp: sets)
  moreover have "net_step y (set_node 4 c y)"
    by (rule net_step.two_pc [of _ 1 _ late_decision 4500]) (simp_all add: y sets fg cd)
  moreover obtain z q where z: "rtranclp net_step (set_node 4 c y) z"
      "n_node z = (n_node (set_node 4 c y))(5 := q, 4 := d)"
    using ack_round [of "set_node 4 c y" 4 5 credit_entry 4500 d] y cd assms by (auto simp: sets)
  ultimately have "rtranclp net_step x z" by (meson one_step rtranclp_trans)
  then show ?thesis using y z fg cd by (intro exI [of _ z]) (simp add: sets)
qed

text \<open>
  C29: a coordinator that gave up on a participant still obeys its late answer, which creates money. In
  some run of the sample deployment node 1, after two passes of the retry loop without an answer,
  aborts, refunds the sender and tells the client that the transfer failed; the participant, which the
  abort was never sent to, prepares and answers; node 1 commits and tells it to. The receiver keeps the
  4 units, the sender has its 10, no write-ahead entry is left that could undo either, and the client
  is told failure and then success.
\<close>

theorem late_answer_creates_money:
  "balance (n_node cross_network 1) 1 = 10 \<and> balance (n_node cross_network 4) 3001 = 10 \<and>
   (\<exists>x. rtranclp net_step cross_network x \<and>
     balance (n_node x 1) 1 = 10 \<and> balance (n_node x 4) 3001 = 14 \<and>
     wal (n_node x 1) = [] \<and> wal (n_node x 4) = [] \<and>
     [rp_success r. CallClientReply c r \<leftarrow> outbox (n_node x 1)] = [False, True])"
proof -
  obtain x where x: "rtranclp net_step cross_network x" "obeys_late (n_node x 1)"
     "sent_by x 1 (CallClientRequest 4 cross_prepare)" "ready_backup 2 (Ballot 1 1) (n_node x 2)"
     "n_node x 4 = demo_part" "ready_backup 5 (Ballot 1 4) (n_node x 5)"
    using gave_up_run by blast
  then obtain y where y: "rtranclp net_step x y" "n_node y 1 = n_node x 1" "n_node y 2 = n_node x 2"
     "sent_by y 4 (CallTwoPC 1 late_answer)" "credits (n_node y 4)" "ready_backup 5 (Ballot 1 4) (n_node y 5)"
    using prepared_run by blast
  with x have "obeys_late (n_node y 1)" "ready_backup 2 (Ballot 1 1) (n_node y 2)" by simp_all
  with y late_run obtain z where "rtranclp net_step y z" "balance (n_node z 1) 1 = 10" "wal (n_node z 1) = []"
     "told [False, True] (n_node z 1)" "balance (n_node z 4) 3001 = 14" "wal (n_node z 4) = []" by blast
  with x(1) y(1) show ?thesis
    by (intro conjI exI [of _ z]) (simp_all add: told_def cross_network_def demo_coord_def demo_part_def
      demo_cluster_def demo_ready_def)
qed

end
