(* ===== verification/NodeInfo.thy ===== *)
theory NodeInfo
  imports Requests
begin

text \<open>
  The inspection and clean-up handlers of \<^verbatim>\<open>src/paxos_node.cpp\<close>:
  \<^verbatim>\<open>HandleSendNodeInfo\<close>, which the prompt uses to print logs, balances and the status of an
  entry, and \<^verbatim>\<open>HandleMoveOn\<close>, which drops the unfinished requests of a test set. Neither
  tests whether the node is alive.
\<close>

section \<open>Inspection\<close>

definition compiled_out :: string where
  "compiled_out = ''(PrintLog compiled out: PAXOS_BENCHMARK build)'' @ newline"

fun report_accounts :: "int list \<Rightarrow> node \<Rightarrow> exn + (string \<times> int) list" where
  "report_accounts [] n = Inr []"
| "report_accounts (a # as) n =
     bindE (get_account a n) (\<lambda>b. bindE (report_accounts as n) (\<lambda>r. Inr ((to_string a, b) # r)))"

definition entry_status :: "int \<Rightarrow> node \<Rightarrow> string" where
  "entry_status seq n =
     (if seq \<in> executed_entries n then ''E''
      else if map_of (entries_to_commit n) seq \<noteq> None then ''C''
      else if map_of (accept_log n) seq \<noteq> None then ''A''
      else ''X'')"

definition HandleSendNodeInfo :: "info_request \<Rightarrow> node \<Rightarrow> exn + node_info" where
  "HandleSendNodeInfo request n =
     (if iq_print_log request then
        Inr (no_info\<lparr>ni_print_log := (if k_print_log n then print_log n else compiled_out)\<rparr>)
      else if iq_print_db request then
        bindE (report_accounts (sorted_list_of_set (modified_accounts n)) n)
          (\<lambda>r. Inr (no_info\<lparr>ni_database := r\<rparr>))
      else if iq_print_status request then
        Inr (no_info\<lparr>ni_status := entry_status (iq_seqnum request) n\<rparr>)
      else if iq_print_newview request then Inr (no_info\<lparr>ni_newviews := new_view_logs n\<rparr>)
      else Inr no_info)"

text \<open>The prompt's \<^verbatim>\<open>PrintBalance\<close> (\<^verbatim>\<open>src/node_launch.cpp\<close>) asks a node for its
  database and prints every matching line, or 10 when there is none.\<close>

definition db_query :: info_request where
  "db_query = \<lparr>iq_print_log = False, iq_print_db = True, iq_print_status = False,
     iq_print_newview = False, iq_seqnum = 0\<rparr>"

fun balance_lines :: "int \<Rightarrow> (string \<times> int) list \<Rightarrow> exn + int list" where
  "balance_lines item [] = Inr []"
| "balance_lines item ((client, b) # db) =
     bindE (stoi client) (\<lambda>i. bindE (balance_lines item db) (\<lambda>r.
       Inr (if item = i then b # r else r)))"

definition PrintBalance_node :: "int \<Rightarrow> node \<Rightarrow> exn + int list" where
  "PrintBalance_node item n =
     bindE (HandleSendNodeInfo db_query n) (\<lambda>output.
     bindE (balance_lines item (ni_database output)) (\<lambda>found.
       Inr (if found = [] then [10] else found)))"

section \<open>MoveOn\<close>

text \<open>\<^verbatim>\<open>pending_entries_[seqnum]\<close> inserts a default entry when the key is missing.\<close>

definition pending_entry_at :: "int \<Rightarrow> node \<Rightarrow> accepted_entry \<times> node" where
  "pending_entry_at seq n =
     (case pending_entries n seq of
        Some e \<Rightarrow> (e, n)
      | None \<Rightarrow> (no_entry, n\<lparr>pending_entries := (pending_entries n)(seq \<mapsto> no_entry)\<rparr>))"

definition release_pending :: "int \<Rightarrow> node \<Rightarrow> exn + node" where
  "release_pending seq n =
     (let (e, n1) = pending_entry_at seq n; req = ae_request e in
      bindE (stoi (cr_from_account req)) (\<lambda>s.
      bindE (stoi (cr_to_account req)) (\<lambda>r.
      bindE (if shard_map n1 s = shard_map n1 r then unlock_both s r n1 else Inr n1) (\<lambda>n2.
        Inr (n2\<lparr>pending_client_calls := omap_erase seq (pending_client_calls n2)\<rparr>)))))"

definition HandleMoveOn :: "node \<Rightarrow> exn + (bool \<times> node)" where
  "HandleMoveOn n =
     (let to_erase = map fst (pending_client_calls n);
          n1 = emits (map (\<lambda>c. RespondClientRequest (call_id (snd c))) (pending_client_calls n)) n
      in
      bindE (foldE release_pending to_erase n1) (\<lambda>n2.
        let n3 = emits (map (\<lambda>q. RespondClientRequest (call_id (snd q))) (queued_client_requests n2)) n2
        in Inr (True, reset_in_flights (n3\<lparr>queued_client_requests := []\<rparr>))))"

section \<open>What the printed database shows\<close>

lemma report_accounts_ok:
  assumes "\<forall>a\<in>set as. 0 \<le> a \<and> a < vsize (accounts n)"
  shows "report_accounts as n = Inr (map (\<lambda>a. (to_string a, balance n a)) as)"
  using assms by (induction as) (simp_all add: get_account_def)

text \<open>Executing a list of committed entries, ignoring whether each succeeded.\<close>

definition run_entries :: "(client_request \<times> int \<times> string) list \<Rightarrow> node \<Rightarrow> exn + node" where
  "run_entries = foldE (\<lambda>(req, seq, st) n.
     bindE (ExecuteTransaction req seq st n) (\<lambda>(ok, m). Inr m))"

text \<open>The modified set is finite, inside the table, and everything outside it is untouched.\<close>

definition tracked :: "node \<Rightarrow> node \<Rightarrow> bool" where
  "tracked n m \<longleftrightarrow> finite (modified_accounts m) \<and> vsize (accounts m) = vsize (accounts n) \<and>
     (\<forall>a\<in>modified_accounts m. 0 \<le> a \<and> a < vsize (accounts m)) \<and>
     (\<forall>a. a \<notin> modified_accounts m \<longrightarrow> balance m a = balance n a)"

lemma tracked_start: "modified_accounts n = {} \<Longrightarrow> tracked n n"
  by (simp add: tracked_def)

lemma tracked_execute:
  assumes "tracked n k" and "ExecuteTransaction req seq st k = Inr (b, m)"
  shows "tracked n m"
  using assms(2)
  by (cases rule: ExecuteTransaction_cases)
    (use assms(1) in \<open>auto simp: tracked_def mark_executed_def transferred_def prepared_def\<close>)

lemma tracked_run:
  assumes "run_entries es n = Inr m" and "modified_accounts n = {}"
  shows "tracked n m"
  by (rule foldE_invariant [OF assms(1) [unfolded run_entries_def], of "tracked n"])
    (use assms(2) tracked_execute in \<open>auto simp: tracked_start exn_simps\<close>)

lemma balance_lines_report:
  assumes "\<forall>a\<in>set as. int_min \<le> a \<and> a \<le> int_max"
  shows "balance_lines item (map (\<lambda>a. (to_string a, f a)) as) =
    Inr (map (\<lambda>_. f item) (filter (\<lambda>a. a = item) as))"
  using assms by (induction as) (simp_all add: stoi_to_string)

lemma filter_eq_distinct: "distinct as \<Longrightarrow> filter (\<lambda>a. a = x) as = (if x \<in> set as then [x] else [])"
  by (induction as) (auto simp: filter_empty_conv)

text \<open>
  The prompt prints true balances. After any list of entries has been executed on a fresh
  node, under any two-phase-commit statuses, \<^verbatim>\<open>PrintBalance\<close> prints for every data item
  exactly one line, its current balance, although the node only reports the accounts it marked as
  modified and the prompt fills in 10 for the rest.
\<close>

lemma print_balance_exact:
  assumes "run_entries es (PaxosNode_init i r addrs clients smap k now kp) = Inr m"
    and "1 \<le> item" and "item \<le> num_items"
  shows "PrintBalance_node item m = Inr [balance m item]"
proof -
  let ?n = "PaxosNode_init i r addrs clients smap k now kp"
  have init: "modified_accounts ?n = {}" "accounts ?n = initial_accounts"
    by (simp_all add: PaxosNode_init_def Let_def)
  have t: "tracked ?n m" by (rule tracked_run [OF assms(1) init(1)])
  let ?as = "sorted_list_of_set (modified_accounts m)"
  have range: "\<forall>a\<in>set ?as. 0 \<le> a \<and> a < vsize (accounts m) \<and> int_min \<le> a \<and> a \<le> int_max"
    using t by (auto simp: tracked_def init int_min_def int_max_def)
  have "HandleSendNodeInfo db_query m =
      Inr (no_info\<lparr>ni_database := map (\<lambda>a. (to_string a, balance m a)) ?as\<rparr>)"
    using range by (simp add: HandleSendNodeInfo_def db_query_def report_accounts_ok)
  then show ?thesis
    using range t assms(2,3)
    by (auto simp: PrintBalance_node_def balance_lines_report filter_eq_distinct tracked_def init
        num_items_def)
qed

section \<open>What MoveOn leaves\<close>

text \<open>The request a pending call was proposed with, and whether dropping it frees an account.\<close>

definition frees :: "int \<Rightarrow> int \<Rightarrow> node \<Rightarrow> bool" where
  "frees seq a n \<longleftrightarrow>
     (let req = ae_request (fst (pending_entry_at seq n)) in
      \<exists>s r. stoi (cr_from_account req) = Inr s \<and> stoi (cr_to_account req) = Inr r \<and>
        shard_map n s = shard_map n r \<and> (a = s \<or> a = r))"

text \<open>What the release loop keeps: everything but locks, pending entries and pending calls.\<close>

definition release_frame :: "node \<Rightarrow> node \<Rightarrow> bool" where
  "release_frame n m \<longleftrightarrow>
     m = n\<lparr>pending_entries := pending_entries m, balance_locks := balance_locks m,
           pending_client_calls := pending_client_calls m\<rparr> \<and>
     (\<forall>s. fst (pending_entry_at s m) = fst (pending_entry_at s n))"

lemma release_frame_refl: "release_frame n n"
  by (simp add: release_frame_def)

lemma release_frame_trans: "release_frame a b \<Longrightarrow> release_frame b c \<Longrightarrow> release_frame a c"
  unfolding release_frame_def
  by (elim conjE ssubst [where t = c] ssubst [where t = b]) (simp add: pending_entry_at_def)

lemma release_frame_sel:
  assumes "release_frame n m"
  shows "shard_map m = shard_map n" "outbox m = outbox n" "accounts m = accounts n"
    "accept_log m = accept_log n" "queued_client_requests m = queued_client_requests n"
    "fst (pending_entry_at s m) = fst (pending_entry_at s n)"
proof -
  obtain e l c where m: "m = n\<lparr>pending_entries := e, balance_locks := l, pending_client_calls := c\<rparr>"
    using assms unfolding release_frame_def by blast
  show "shard_map m = shard_map n" "outbox m = outbox n" "accounts m = accounts n"
    "accept_log m = accept_log n" "queued_client_requests m = queued_client_requests n"
    by (simp_all add: m)
  show "fst (pending_entry_at s m) = fst (pending_entry_at s n)"
    using assms by (simp add: release_frame_def)
qed

lemma frees_frame: "release_frame n m \<Longrightarrow> frees s a m = frees s a n"
  by (simp add: frees_def release_frame_sel)

lemma pending_entry_at_frame:
  "release_frame n (snd (pending_entry_at s n))"
  "balance_locks (snd (pending_entry_at s n)) = balance_locks n"
  "pending_client_calls (snd (pending_entry_at s n)) = pending_client_calls n"
  by (auto simp: release_frame_def pending_entry_at_def split: option.splits)

lemma release_pending_effect:
  assumes "release_pending seq n = Inr m"
  shows "release_frame n m \<and> (\<forall>a. locked m a \<longleftrightarrow> locked n a \<and> \<not> frees seq a n) \<and>
    pending_client_calls m = omap_erase seq (pending_client_calls n)"
proof -
  define e n1 where "e = fst (pending_entry_at seq n)" and "n1 = snd (pending_entry_at seq n)"
  have p: "pending_entry_at seq n = (e, n1)" by (simp add: e_def n1_def)
  note f = pending_entry_at_frame [where n = n and s = seq, folded n1_def]
  obtain s r n2 where sr: "stoi (cr_from_account (ae_request e)) = Inr s"
      "stoi (cr_to_account (ae_request e)) = Inr r"
    and n2: "(if shard_map n1 s = shard_map n1 r then unlock_both s r n1 else Inr n1) = Inr n2"
    and m: "m = n2\<lparr>pending_client_calls := omap_erase seq (pending_client_calls n2)\<rparr>"
    using assms unfolding release_pending_def p Let_def prod.case by (auto elim!: bindE_InrE)
  have sm: "shard_map n1 = shard_map n" using f(1) by (rule release_frame_sel)
  have fr: "frees seq a n \<longleftrightarrow> shard_map n s = shard_map n r \<and> (a = s \<or> a = r)" for a
    using sr by (simp add: frees_def e_def [symmetric])
  show ?thesis
  proof (cases "shard_map n s = shard_map n r")
    case True
    with n2 sm have "unlock_both s r n1 = Inr n2" by simp
    then have u: "n2 = n1\<lparr>balance_locks := CVec (vsize (balance_locks n1))
        ((vat (balance_locks n1))(s := False, r := False))\<rparr>"
      by (simp add: unlock_both_Inr)
    have "release_frame n1 m" by (simp add: release_frame_def m u pending_entry_at_def split: option.split)
    with f(1) have "release_frame n m" by (rule release_frame_trans)
    then show ?thesis using f True by (auto simp: fr m u)
  next
    case False
    with n2 sm have u: "n2 = n1" by simp
    have "release_frame n1 m" by (simp add: release_frame_def m u pending_entry_at_def split: option.split)
    with f(1) have "release_frame n m" by (rule release_frame_trans)
    then show ?thesis using f False by (simp add: fr m u)
  qed
qed

lemma release_all_effect:
  assumes "foldE release_pending seqs n = Inr m"
  shows "release_frame n m \<and> (\<forall>a. locked m a \<longleftrightarrow> locked n a \<and> \<not> (\<exists>s\<in>set seqs. frees s a n)) \<and>
    pending_client_calls m = fold omap_erase seqs (pending_client_calls n)"
  using assms
proof (induction seqs arbitrary: n)
  case (Cons s seqs)
  from Cons.prems obtain k where k: "release_pending s n = Inr k" "foldE release_pending seqs k = Inr m"
    by (auto elim: bindE_InrE)
  note step = release_pending_effect [OF k(1)] and rest = Cons.IH [OF k(2)]
  from step have "release_frame n k" by simp
  then show ?case
    using step rest release_frame_trans frees_frame [OF \<open>release_frame n k\<close>] by auto
qed (simp add: release_frame_refl)

lemma fold_omap_erase: "set (fold omap_erase ks m) = {e \<in> set m. fst e \<notin> set ks}"
  by (induction ks arbitrary: m) (auto simp: omap_erase_def)

lemma HandleMoveOn_answers:
  assumes "HandleMoveOn n = Inr (ok, m)"
  shows "pending_client_calls m = []" and "queued_client_requests m = []"
    and "outbox m = outbox n @
      map (\<lambda>c. RespondClientRequest (call_id (snd c))) (pending_client_calls n) @
      map (\<lambda>q. RespondClientRequest (call_id (snd q))) (queued_client_requests n)"
proof -
  let ?n1 = "emits (map (\<lambda>c. RespondClientRequest (call_id (snd c))) (pending_client_calls n)) n"
  obtain n2 where n2: "foldE release_pending (map fst (pending_client_calls ?n1)) ?n1 = Inr n2"
    and m: "m = reset_in_flights ((emits (map (\<lambda>q. RespondClientRequest (call_id (snd q)))
        (queued_client_requests n2)) n2)\<lparr>queued_client_requests := []\<rparr>)"
    using assms by (auto simp: HandleMoveOn_def Let_def exn_simps emits_def)
  have "set (pending_client_calls n2) = {}"
    using release_all_effect [OF n2] by (auto simp: fold_omap_erase)
  then show "pending_client_calls m = []" and "queued_client_requests m = []"
    by (simp_all add: m reset_in_flights_def emits_def)
  have "release_frame ?n1 n2" using release_all_effect [OF n2] by simp
  from release_frame_sel [OF this] show "outbox m = outbox n @
      map (\<lambda>c. RespondClientRequest (call_id (snd c))) (pending_client_calls n) @
      map (\<lambda>q. RespondClientRequest (call_id (snd q))) (queued_client_requests n)"
    by (simp add: m reset_in_flights_def emits_def)
qed

text \<open>
  C33: MoveOn answers everyone and forgets no proposal. Every pending and every queued client call
  is answered exactly once and none is left; the locks it releases are exactly those of pending
  transfers inside one shard, so a pending cross-shard transfer keeps its lock; balances and the
  accept log stay, so the dropped proposals can still be committed later.
\<close>

theorem move_on_answers_all:
  assumes "HandleMoveOn n = Inr (ok, m)"
  shows "ok \<and> pending_client_calls m = [] \<and> queued_client_requests m = [] \<and>
    outbox m = outbox n @
      map (\<lambda>c. RespondClientRequest (call_id (snd c))) (pending_client_calls n) @
      map (\<lambda>q. RespondClientRequest (call_id (snd q))) (queued_client_requests n) \<and>
    (\<forall>a. locked m a \<longleftrightarrow>
       locked n a \<and> (\<nexists>s. s \<in> fst ` set (pending_client_calls n) \<and> frees s a n)) \<and>
    accounts m = accounts n \<and> accept_log m = accept_log n"
proof -
  define n1 where "n1 =
    emits (map (\<lambda>c. RespondClientRequest (call_id (snd c))) (pending_client_calls n)) n"
  obtain n2 where n2: "foldE release_pending (map fst (pending_client_calls n)) n1 = Inr n2"
    and ok: "ok" and m: "m = reset_in_flights ((emits (map (\<lambda>q. RespondClientRequest (call_id (snd q)))
        (queued_client_requests n2)) n2)\<lparr>queued_client_requests := []\<rparr>)"
    using assms by (auto simp: HandleMoveOn_def n1_def Let_def exn_simps)
  have start: "balance_locks n1 = balance_locks n" "pending_client_calls n1 = pending_client_calls n"
      "accounts n1 = accounts n" "accept_log n1 = accept_log n" "frees s a n1 = frees s a n"
      "queued_client_requests n1 = queued_client_requests n" for s a
    by (simp_all add: n1_def emits_def frees_def pending_entry_at_def split: option.split)
  note eff = release_all_effect [OF n2]
  then have fr: "release_frame n1 n2" by simp
  show ?thesis
    using HandleMoveOn_answers [OF assms] eff ok release_frame_sel [OF fr] start
    by (auto simp: m reset_in_flights_def emits_def)
qed

text \<open>A leader with one pending transfer inside its shard and one across shards.\<close>

definition demo_busy :: node where
  "demo_busy = (demo_node 1)\<lparr>
     pending_entries := [1 \<mapsto> no_entry\<lparr>ae_request := demo_request ''1'' ''2'' 4 7\<rparr>,
       2 \<mapsto> no_entry\<lparr>ae_request := demo_request ''3'' ''3001'' 4 8\<rparr>],
     pending_client_calls := [(1, ClientCall 11 no_request), (2, ClientCall 12 no_request)],
     balance_locks := CVec 9001 (\<lambda>i. i \<in> {1, 2, 3})\<rparr>"

theorem move_on_answers_all_witness:
  "\<exists>m. HandleMoveOn demo_busy = Inr (True, m) \<and>
     outbox m = [RespondClientRequest 11, RespondClientRequest 12] \<and>
     \<not> locked m 1 \<and> \<not> locked m 2 \<and> locked m 3"
proof -
  obtain m where run: "HandleMoveOn demo_busy = Inr (True, m)"
    by (simp add: HandleMoveOn_def demo_busy_def release_pending_def pending_entry_at_def emits_def
        unlock_both_def unlock_def Let_def no_entry_def)
  have f: "frees 1 1 demo_busy" "frees 1 2 demo_busy" "\<not> frees 1 3 demo_busy" "\<not> frees 2 3 demo_busy"
    by (simp_all add: frees_def pending_entry_at_def demo_busy_def no_entry_def)
  from move_on_answers_all [OF run] f run show ?thesis
    by (intro exI [of _ m]) (auto simp: demo_busy_def)
qed

end
