(* ===== verification/Dedup.thy ===== *)
theory Dedup
  imports Network NodeInfo
begin

text \<open>
  Duplicate requests. \<^verbatim>\<open>pending_or_completed_ts_\<close> holds the timestamps a node has
  proposed or inherited; no operation of the node removes one, so a request is given a sequence
  number at most once by each node, through every election, demotion, kill and reset.
\<close>

section \<open>The operations of a node\<close>

text \<open>
  One operation of the node, from the network, its threads or the console. A request is processed
  on arrival or from the queue at the end of an election.
\<close>

inductive node_step :: "node \<Rightarrow> node \<Rightarrow> bool" where
  request: "HandleClientRequest now req call n = Inr m \<Longrightarrow> node_step n m"
| process: "ProcessClientRequest now req call n = Inr m \<Longrightarrow> node_step n m"
| propose: "HandlePropose now e n = Inr (a, m) \<Longrightarrow> node_step n m"
| accepted: "HandleAccept now a n = Inr m \<Longrightarrow> node_step n m"
| commit: "HandleCommit now ce n = Inr m \<Longrightarrow> node_step n m"
| two_pc: "TwoPC_dispatch now msg n = Inr m \<Longrightarrow> node_step n m"
| retry: "TransactionRetryLoop_pass now n = Inr m \<Longrightarrow> node_step n m"
| timer: "node_step n (timer_turn now n)"
| heartbeat: "node_step n (HandleHeartbeat now n)"
| beat: "node_step n (HeartbeatLoop_turn n)"
| prepare: "HandlePrepare now p call n = Inr m \<Longrightarrow> node_step n m"
| promise: "HandlePromise now r n = Inr m \<Longrightarrow> node_step n m"
| new_view: "HandleNewView now v call n = Inr m \<Longrightarrow> node_step n m"
| new_view_done: "node_step n (OnNewViewCallFinished c n)"
| set_alive: "HandleSetAlive u n = Inr m \<Longrightarrow> node_step n m"
| move_on: "HandleMoveOn n = Inr (b, m) \<Longrightarrow> node_step n m"

section \<open>No operation forgets a timestamp\<close>

definition remembers :: "node \<Rightarrow> node \<Rightarrow> bool" where
  "remembers n m \<longleftrightarrow> pending_or_completed_ts n \<subseteq> pending_or_completed_ts m"

lemma remembers_refl [simp]: "remembers n n"
  by (simp add: remembers_def)

lemma remembers_trans: "remembers a b \<Longrightarrow> remembers b c \<Longrightarrow> remembers a c"
  by (auto simp: remembers_def)

lemma remembers_same: "pending_or_completed_ts m = pending_or_completed_ts n \<Longrightarrow> remembers n m"
  by (simp add: remembers_def)

interpretation ts: election_frame remembers
proof (unfold_locales, goal_cases)
  case (9 sw n m)
  then show ?case by (intro remembers_same recon_frame_sel(28) reconcile_frame)
qed (auto simp: remembers_def emit_def propose_request_def respond_client_def Let_def
    broadcast_cluster_def emits_def log_put_def plog_def)

lemma plain_updates_ts [simp]:
  "pending_or_completed_ts (plog s n) = pending_or_completed_ts n"
  "pending_or_completed_ts (emit act n) = pending_or_completed_ts n"
  "pending_or_completed_ts (emits as n) = pending_or_completed_ts n"
  "pending_or_completed_ts (log_put k e n) = pending_or_completed_ts n"
  "pending_or_completed_ts (queue_request req call n) = pending_or_completed_ts n"
  "pending_or_completed_ts (remember_commit k ce n) = pending_or_completed_ts n"
  "pending_or_completed_ts (count_phase1 a n) = pending_or_completed_ts n"
  "pending_or_completed_ts (count_phase2 a n) = pending_or_completed_ts n"
  "pending_or_completed_ts (broadcast_cluster f n) = pending_or_completed_ts n"
  "pending_or_completed_ts (StartElectionTimer n) = pending_or_completed_ts n"
  "pending_or_completed_ts (StopElectionTimer n) = pending_or_completed_ts n"
  "pending_or_completed_ts (ResetElectionTimer now n) = pending_or_completed_ts n"
  "pending_or_completed_ts (StartHeartbeat n) = pending_or_completed_ts n"
  "pending_or_completed_ts (SetNewLeader i b n) = pending_or_completed_ts n"
  "pending_or_completed_ts (BecomeLeader bl n) = pending_or_completed_ts n"
  "pending_or_completed_ts (SendPromise n) = pending_or_completed_ts n"
  "pending_or_completed_ts (RespondAndClearNewViewCallData n) = pending_or_completed_ts n"
  "pending_or_completed_ts (revive n) = pending_or_completed_ts n"
  by (auto simp: plog_def emit_def emits_def log_put_def queue_request_def remember_commit_def count_phase1_def
      count_phase2_def broadcast_cluster_def StartElectionTimer_def StopElectionTimer_def ResetElectionTimer_def
      StartHeartbeat_def SetNewLeader_def BecomeLeader_def SendPromise_def RespondAndClearNewViewCallData_def
      revive_def Let_def split: option.split)

lemma request_ts:
  assumes "HandleClientRequest now req call n = Inr m"
  shows "remembers n m"
proof -
  have "ProcessClientRequest now req call (plog (request_line req) n) = Inr m \<Longrightarrow> remembers (plog (request_line req) n) m"
    by (rule ts.R_process)
  then show ?thesis
    using assms by (auto simp: HandleClientRequest_def Let_def remembers_def respond_client_def split: if_splits)
qed

text \<open>Committing and executing.\<close>

lemma loop_frame_ts: "loop_frame n m \<Longrightarrow> pending_or_completed_ts m = pending_or_completed_ts n"
  by (simp add: loop_frame_def)

lemma loop_ts:
  assumes "SequentiallyExecuteCommittedEntries now n = Inr m"
  shows "pending_or_completed_ts m = pending_or_completed_ts n"
  using assms
proof (induction now n rule: SequentiallyExecuteCommittedEntries.induct)
  case (1 now n)
  show ?case
  proof (cases "map_of (entries_to_commit n) (last_executed_seq n + 1)")
    case None
    with 1(2) show ?thesis by (auto simp: exec_loop_stop)
  next
    case (Some f)
    from 1(2) Some obtain k where
      k: "execute_committed now f (n\<lparr>last_executed_seq := last_executed_seq n + 1\<rparr>) = Inr k"
        "SequentiallyExecuteCommittedEntries now k = Inr m"
      by (subst (asm) exec_loop_step) (auto elim: bindE_InrE)
    from 1(1) [OF Some k] loop_frame_ts [OF execute_committed_loop [OF k(1)]] show ?thesis by simp
  qed
qed

lemma repeated_ts: "ExecuteRepeatedTwoPCEntry ce n = Inr m \<Longrightarrow> pending_or_completed_ts m = pending_or_completed_ts n"
  by (rule loop_frame_ts [OF outcome_frame_loop [OF ExecuteRepeatedTwoPCEntry_frame]])

lemma commit_entry_ts:
  assumes "CommitEntry now a n = Inr m"
  shows "pending_or_completed_ts m = pending_or_completed_ts n"
  using assms loop_ts repeated_ts
  by (fastforce simp: CommitEntry_def Let_def BroadcastCommit_def accept_log_at_def split: if_splits option.splits)

lemma commit_after_ts:
  "CommitEntry now a k = Inr m \<Longrightarrow> remembers n k \<Longrightarrow> remembers n m"
  "SequentiallyExecuteCommittedEntries now k = Inr m \<Longrightarrow> remembers n k \<Longrightarrow> remembers n m"
  "ExecuteRepeatedTwoPCEntry ce k = Inr m \<Longrightarrow> remembers n k \<Longrightarrow> remembers n m"
  by (simp_all add: remembers_def commit_entry_ts loop_ts repeated_ts)

lemma accept_ts:
  assumes "HandleAccept now a n = Inr m"
  shows "remembers n m"
proof -
  define k where "k = (case map_of (accept_log n) (ak_seqnum a) of
    Some e \<Rightarrow> plog (accepted_line a (ae_request e)) n | None \<Rightarrow> n)"
  have k: "remembers n k" "remembers n (count_phase1 a k)" "remembers n (count_phase2 a k)"
    by (simp_all add: remembers_def k_def split: option.split)
  show ?thesis
    using assms k unfolding HandleAccept_def Let_def k_def [symmetric]
    by (auto split: if_splits elim: commit_after_ts(1))
qed

lemma commit_ts:
  assumes "HandleCommit now ce n = Inr m"
  shows "remembers n m"
proof -
  define k where "k = (if role (plog (commit_line ce) n) = BACKUP
    then ResetElectionTimer now (plog (commit_line ce) n) else plog (commit_line ce) n)"
  have k: "remembers n (remember_commit (ce_seqnum ce) ce k)" by (simp add: remembers_def k_def)
  show ?thesis
    using assms k unfolding HandleCommit_def Let_def k_def [symmetric]
    by (auto split: if_splits elim: commit_after_ts)
qed

text \<open>Two-phase commit.\<close>

lemma two_pc_ts: "TwoPC_dispatch now msg n = Inr m \<Longrightarrow> pending_or_completed_ts m = pending_or_completed_ts n"
  by (auto simp: TwoPC_dispatch_def HandlePreparedAndAborted_def HandleCommittedAndAborted_def Let_def exn_simps
      split: if_splits dest!: StartSecondPhase_loop loop_frame_ts)

lemma retry_slot_ts: "retry_slot now i n = Inr m \<Longrightarrow> pending_or_completed_ts m = pending_or_completed_ts n"
  by (auto simp: retry_slot_def Let_def call_peer_def HandlePreparedTimeout_def propose_second_phase_def exn_simps
      split: if_splits)

lemma retry_ts:
  assumes "TransactionRetryLoop_pass now n = Inr m"
  shows "pending_or_completed_ts m = pending_or_completed_ts n"
  by (rule foldE_invariant [OF assms [unfolded TransactionRetryLoop_pass_def]]) (auto dest: retry_slot_ts)

text \<open>Elections.\<close>

lemma fold_ts:
  "(\<And>x n. remembers n (f x n)) \<Longrightarrow> remembers n (fold f xs n)"
  by (rule fold_invariant' [where P = "remembers n"]) (auto intro: remembers_trans)

lemma demote_ts:
  assumes "DemoteToBackup n = Inr m"
  shows "pending_or_completed_ts m = pending_or_completed_ts n"
proof -
  have "pending_or_completed_ts m = pending_or_completed_ts (step_down n)"
    using DemoteToBackup_loop(1) [OF assms] by (intro recon_frame_sel(28)) (simp add: recon_view_def)
  then show ?thesis
    by (simp add: step_down_def reset_in_flights_def respond_pending_calls_def StopHeartbeat_def)
qed

lemma propose_ts: "HandlePropose now e n = Inr (a, m) \<Longrightarrow> pending_or_completed_ts m = pending_or_completed_ts n"
  by (auto simp: HandlePropose_def accept_proposal_def Let_def split: if_splits
      elim!: bindE_InrE dest!: demote_ts)

lemma timer_ts: "pending_or_completed_ts (timer_turn now n) = pending_or_completed_ts n"
  by (simp add: timer_turn_def OnElectionTimeout_def SendPrepare_def Let_def)

lemma beat_ts:
  "pending_or_completed_ts (HandleHeartbeat now n) = pending_or_completed_ts n"
  "pending_or_completed_ts (HeartbeatLoop_turn n) = pending_or_completed_ts n"
  "pending_or_completed_ts (OnNewViewCallFinished c n) = pending_or_completed_ts n"
  by (simp_all add: HandleHeartbeat_def HeartbeatLoop_turn_def OnNewViewCallFinished_def Let_def)

lemma prepare_ts: "HandlePrepare now p call n = Inr m \<Longrightarrow> pending_or_completed_ts m = pending_or_completed_ts n"
  by (auto simp: HandlePrepare_def Let_def split: if_splits elim!: bindE_InrE dest!: demote_ts)

lemma complete_ts: "OnElectionComplete now n = Inr m \<Longrightarrow> remembers n m"
  using ts.R_complete [of now n m] by (simp add: remembers_def)

lemma leadership_ts:
  assumes "take_leadership now n = Inr m"
  shows "remembers n m"
proof -
  let ?m = "MergeAcceptLogsFromPromises (n\<lparr>waiting_for_promises := False\<rparr>)"
  have seed: "remembers k (seed_entry p k)" for p k
    by (auto simp: remembers_def seed_entry_def Let_def)
  have "remembers k (fold seed_entry es k)" for es k
    using fold_ts [of seed_entry] seed by blast
  then have "remembers n k \<Longrightarrow> remembers n (fold seed_entry es k)" for es k
    by (blast intro: remembers_trans)
  then have "remembers n ?m"
    unfolding MergeAcceptLogsFromPromises_def Let_def by (simp add: remembers_same)
  moreover have "remembers ?m (FillMissingNoOps ?m)"
    unfolding FillMissingNoOps_def by (intro fold_ts remembers_same) (simp add: fill_gap_def)
  moreover have "remembers k (SendNewView k)" for k
    using fold_ts [of send_new_view_to k "filter (in_my_range k) (peers k)"]
    by (simp add: SendNewView_def Let_def remembers_same send_new_view_to_def)
  moreover have "remembers k (InformClustersOfElection k)" for k
    by (rule remembers_same) (simp add: InformClustersOfElection_def)
  moreover have "remembers k (BecomeLeader b k)" for b k by (simp add: remembers_same)
  ultimately have "remembers n (InformClustersOfElection (SendNewView (BecomeLeader b (FillMissingNoOps ?m))))" for b
    by (meson remembers_trans)
  with complete_ts show ?thesis using assms unfolding take_leadership_def Let_def by (blast intro: remembers_trans)
qed

lemma promise_ts:
  assumes "HandlePromise now r n = Inr m"
  shows "remembers n m"
proof -
  have "remembers n m" if "take_leadership now k = Inr m"
    "pending_or_completed_ts k = pending_or_completed_ts n" for k
    using leadership_ts [OF that(1)] that(2) by (simp add: remembers_def)
  then show ?thesis
    using assms unfolding HandlePromise_def Let_def by (auto simp: remembers_def split: if_splits)
qed

lemma new_view_ts:
  assumes "HandleNewView now v call n = Inr m"
  shows "remembers n m"
proof -
  have adopt: "pending_or_completed_ts (fold adopt_entry es k) = pending_or_completed_ts k" for es k
    by (induction es arbitrary: k) (auto simp: adopt_entry_def split: option.split)
  have process: "remembers k m" if "process_new_view v call k = Inr m" for k
    by (rule foldE_invariant [OF that [unfolded process_new_view_def Let_def]])
      (auto simp: remembers_def adopt call_peer_def split: if_splits)
  have complete: "remembers n m" if "OnElectionComplete now l = Inr j" "process_new_view v call j = Inr m"
    "remembers n l" for l j
    using complete_ts [OF that(1)] process [OF that(2)] that(3) by (blast intro: remembers_trans)
  define k where "k = (let k = (plog (new_view_line (nv_ballot v) n) n)
      \<lparr>new_view_logs := new_view_logs (plog (new_view_line (nv_ballot v) n) n) @ [v]\<rparr>
    in if role k = BACKUP \<and> alive k then ResetElectionTimer now k else k)"
  have k: "remembers n k" by (simp add: remembers_def k_def Let_def)
  let ?adopt = "SetNewLeader (b_node (nv_ballot v)) (b_counter (nv_ballot v))"
  have demoted: "remembers n (StartElectionTimer (?adopt d))" if "DemoteToBackup k = Inr d" for d
    using demote_ts [OF that] k by (simp add: remembers_def)
  have after: "remembers n m" if "remembers n d" "bindE (if role d = BACKUP
      then OnElectionComplete now ((?adopt d)\<lparr>waiting_for_promises := False\<rparr>) else Inr d)
      (process_new_view v call) = Inr m" for d
    using that(2)
  proof (rule bindE_InrE)
    fix j assume j: "(if role d = BACKUP then OnElectionComplete now ((?adopt d)\<lparr>waiting_for_promises := False\<rparr>)
      else Inr d) = Inr j" "process_new_view v call j = Inr m"
    have "remembers n ((?adopt d)\<lparr>waiting_for_promises := False\<rparr>)" using that(1) by (simp add: remembers_def)
    with j show ?thesis using complete process that(1) by (auto split: if_splits intro: remembers_trans)
  qed
  have "m = n \<or> m = emit (RespondNewView call) k \<or>
    bindE (if role k = LEADER then bindE (DemoteToBackup k) (\<lambda>d. Inr (StartElectionTimer (?adopt d))) else Inr k)
      (\<lambda>d. bindE (if role d = BACKUP
        then OnElectionComplete now ((?adopt d)\<lparr>waiting_for_promises := False\<rparr>) else Inr d)
        (process_new_view v call)) = Inr m"
    using assms unfolding HandleNewView_def Let_def k_def by (simp split: if_splits)
  then show ?thesis using k demoted after
    by (auto simp: remembers_def [of n "emit _ _"] elim!: bindE_InrE split: if_splits) (auto simp: remembers_def)
qed

text \<open>The console.\<close>

lemma kill_ts:
  assumes "kill n = Inr m"
  shows "pending_or_completed_ts m = pending_or_completed_ts n"
proof (cases "role n = BACKUP")
  case True
  with assms have "m = StopElectionTimer (n\<lparr>alive := False\<rparr>)" by (simp add: kill_def)
  then show ?thesis by simp
next
  case False
  with assms have "DemoteToBackup (n\<lparr>alive := False\<rparr>) = Inr m" by (simp add: kill_def)
  from demote_ts [OF this] show ?thesis by simp
qed

lemma set_alive_ts:
  assumes "HandleSetAlive u n = Inr m"
  shows "pending_or_completed_ts m = pending_or_completed_ts n"
proof -
  define k where "k = (let k = (if au_prompt_pause u then n\<lparr>alive_before_prompt := alive n\<rparr> else n)
    in if au_reset_state u then ResetNode k else k)"
  have k: "pending_or_completed_ts k = pending_or_completed_ts n" by (simp add: k_def)
  have c: "au_reshard u \<or> (\<exists>d. kill k = Inr d \<and> pending_or_completed_ts m = pending_or_completed_ts d) \<or>
      (\<exists>d. DemoteToBackup k = Inr d \<and> pending_or_completed_ts m = pending_or_completed_ts d) \<or>
      kill (RespondAndClearNewViewCallData k) = Inr m \<or> m = revive k \<or> m = k"
    using assms unfolding HandleSetAlive_def Let_def k_def
    by (cases "au_reshard u") (auto split: if_splits elim!: bindE_InrE)
  show ?thesis
  proof (cases "au_reshard u")
    case True
    then show ?thesis using assms by (auto simp: HandleSetAlive_def apply_reshard_def Let_def split: if_splits)
  next
    case False
    with c k show ?thesis using kill_ts demote_ts by fastforce
  qed
qed

lemma move_on_ts:
  assumes "HandleMoveOn n = Inr (b, m)"
  shows "pending_or_completed_ts m = pending_or_completed_ts n"
proof -
  let ?n1 = "emits (map (\<lambda>c. RespondClientRequest (call_id (snd c))) (pending_client_calls n)) n"
  obtain k where k: "foldE release_pending (map fst (pending_client_calls n)) ?n1 = Inr k"
    and m: "m = reset_in_flights ((emits (map (\<lambda>q. RespondClientRequest (call_id (snd q)))
        (queued_client_requests k)) k)\<lparr>queued_client_requests := []\<rparr>)"
    using assms by (auto simp: HandleMoveOn_def Let_def exn_simps)
  have "release_frame ?n1 k" using release_all_effect [OF k] by simp
  then obtain e l c where "k = ?n1\<lparr>pending_entries := e, balance_locks := l, pending_client_calls := c\<rparr>"
    unfolding release_frame_def by blast
  then show ?thesis by (simp add: m reset_in_flights_def)
qed

lemma node_step_ts:
  assumes "node_step n m"
  shows "remembers n m"
  using assms
proof (cases rule: node_step.cases)
  case request then show ?thesis by (rule request_ts)
next
  case process then show ?thesis by (rule ts.R_process)
next
  case promise then show ?thesis by (rule promise_ts)
next
  case new_view then show ?thesis by (rule new_view_ts)
next
  case accepted then show ?thesis by (rule accept_ts)
next
  case commit then show ?thesis by (rule commit_ts)
qed (simp_all add: remembers_def propose_ts two_pc_ts retry_ts timer_ts beat_ts prepare_ts set_alive_ts move_on_ts)

lemma run_ts: "rtranclp node_step n m \<Longrightarrow> remembers n m"
  by (induction rule: rtranclp_induct) (auto intro: remembers_trans node_step_ts)

section \<open>A timestamp is proposed once\<close>

lemma forward_request_seq:
  "forward_request req call n = Inr m \<Longrightarrow> last_seqnum m = last_seqnum n \<and> accept_log m = accept_log n"
  by (auto simp: forward_request_def call_peer_def emit_def exn_simps respond_client_def split: if_splits)

lemma answer_read_only_seq: "answer_read_only req call n = Inr m \<Longrightarrow> last_seqnum m = last_seqnum n"
  by (auto simp: answer_read_only_def call_client_def emit_def Let_def exn_simps split: if_splits)

lemma new_seqnum_remembered:
  assumes "ProcessClientRequest now req call n = Inr m" and "last_seqnum m \<noteq> last_seqnum n"
  shows "cr_timestamp req \<in> pending_or_completed_ts m"
proof -
  have "role n = LEADER"
    using assms forward_request_seq by (auto simp: ProcessClientRequest_def split: if_splits)
  with assms have l: "lock_and_propose now req call n = Inr m"
      and f: "cr_timestamp req \<notin> pending_or_completed_ts n"
    using answer_read_only_seq by (auto simp: ProcessClientRequest_def split: if_splits)
  from l show ?thesis
  proof (cases rule: lock_and_propose_cases)
    case (stopped s r)
    with lock_accounts_cases [OF stopped(4) f] assms(2) show ?thesis by simp
  next
    case (own s r n1)
    with lock_accounts_cases [OF own(4) f] show ?thesis using propose_fresh(4) [of req n1] f by simp
  next
    case (participant s r' ab n1)
    with lock_participant_sel [OF participant(4)] show ?thesis using propose_fresh(4) [of req n1] f by simp
  qed
qed

text \<open>
  C16: a node gives a timestamp a sequence number at most once. After a request was proposed, whatever
  the node does or suffers next (acknowledgements, commits, elections won and lost, demotion, NEW-VIEW, kill,
  revival, reset), a request with the same timestamp, from whatever account, that
  reaches \<^verbatim>\<open>ProcessClientRequest\<close> neither takes a number nor enters the log; while the node is
  leader such a request, if it names a sender, is only answered. A new leader of another node may propose the
  timestamp again if it did not inherit the entry.
\<close>

theorem timestamp_proposed_once:
  assumes "ProcessClientRequest now req call n = Inr m" and "last_seqnum m \<noteq> last_seqnum n"
    and "rtranclp node_step m k" and "cr_timestamp req' = cr_timestamp req"
  shows "(role k = LEADER \<and> cr_from_account req' \<noteq> [] \<longrightarrow>
       ProcessClientRequest now' req' call' k = Inr (respond_client call' k)) \<and>
    (\<forall>l. ProcessClientRequest now' req' call' k = Inr l \<longrightarrow>
       last_seqnum l = last_seqnum k \<and> accept_log l = accept_log k)"
proof -
  have "cr_timestamp req' \<in> pending_or_completed_ts k"
    using new_seqnum_remembered [OF assms(1,2)] run_ts [OF assms(3)] assms(4) by (auto simp: remembers_def)
  then show ?thesis
    using forward_request_seq by (auto simp: ProcessClientRequest_def respond_client_def emit_def split: if_splits)
qed

text \<open>A leader that proposed, after a turn of its timer and of its heartbeat.\<close>

theorem timestamp_proposed_once_witness:
  "\<exists>m k. ProcessClientRequest 0 (demo_request ''1'' ''2'' 4 7) demo_call demo_ready = Inr m \<and>
     last_seqnum k = 1 \<and> rtranclp node_step m k \<and>
     ProcessClientRequest 9 (demo_request ''3'' ''4'' 1 7) (ClientCall 51 no_request) k =
       Inr (respond_client (ClientCall 51 no_request) k)"
proof -
  obtain m where m: "ProcessClientRequest 0 (demo_request ''1'' ''2'' 4 7) demo_call demo_ready = Inr m"
      and seq: "last_seqnum m = 1" "role m = LEADER"
    by (simp add: ProcessClientRequest_def known_reply_def lock_and_propose_def lock_accounts_def
        try_lock_def Let_def propose_fresh(1,7))
  have run: "rtranclp node_step m (HeartbeatLoop_turn (timer_turn 3 m))"
    using rtranclp.rtrancl_into_rtrancl [OF r_into_rtranclp [of node_step, OF node_step.timer [of m 3]]
      node_step.beat [of "timer_turn 3 m"]] .
  let ?k = "HeartbeatLoop_turn (timer_turn 3 m)"
  have k: "role ?k = LEADER" "last_seqnum ?k = 1"
    using seq by (simp_all add: HeartbeatLoop_turn_def timer_turn_def Let_def OnElectionTimeout_def
      RespondAndClearNewViewCallData_def broadcast_cluster_def emits_def emit_def split: option.split)
  have "ProcessClientRequest 9 (demo_request ''3'' ''4'' 1 7) (ClientCall 51 no_request) ?k =
      Inr (respond_client (ClientCall 51 no_request) ?k)"
    using timestamp_proposed_once [OF m _ run, of "demo_request ''3'' ''4'' 1 7" 9 "ClientCall 51 no_request"] seq k
    by simp
  with m k run show ?thesis by blast
qed

end
