(* ===== verification/Launch.thy ===== *)
theory Launch
  imports Topology Messages
begin

text \<open>
  The placement of data items (\<^verbatim>\<open>src/node_launch.cpp\<close>): the initial shard map, the
  resharding of \<^verbatim>\<open>PrintReshard\<close>, and the updates the launcher sends to the nodes. A
  \<^verbatim>\<open>std::unordered_map\<close> of items is a key-sorted list; the search for an item to move reads it
  in that order.
\<close>

section \<open>The initial shard map\<close>

definition assign_item :: "int \<Rightarrow> int \<Rightarrow> int \<times> (int, int) omap \<Rightarrow> int \<times> (int, int) omap" where
  "assign_item cluster i s = (fst s + 1, omap_put (fst s) cluster (snd s))"

definition assign_cluster ::
  "int \<Rightarrow> int \<Rightarrow> int \<Rightarrow> int \<times> (int, int) omap \<Rightarrow> int \<times> (int, int) omap" where
  "assign_cluster total_items num_clusters cluster s =
     (let items_per_cluster = total_items sdiv num_clusters;
          remainder = total_items smod num_clusters;
          count = items_per_cluster + (if cluster \<le> remainder then 1 else 0)
      in fold (assign_item cluster) [0..count - 1] s)"

definition MakeShardMap :: "int \<Rightarrow> int \<Rightarrow> (int, int) omap" where
  "MakeShardMap total_items num_clusters =
     snd (fold (assign_cluster total_items num_clusters) [1..num_clusters] (1, []))"

section \<open>Resharding\<close>

text \<open>\<^verbatim>\<open>at\<close> throws on a missing key; \<^verbatim>\<open>operator[]\<close> reads 0.\<close>

definition mapping_at :: "int \<Rightarrow> (int, int) omap \<Rightarrow> exn + int" where
  "mapping_at i m = (case map_of m i of Some c \<Rightarrow> Inr c | None \<Rightarrow> Inl OutOfRange)"

definition mapping_get :: "int \<Rightarrow> (int, int) omap \<Rightarrow> int" where
  "mapping_get i m = (case map_of m i of Some c \<Rightarrow> c | None \<Rightarrow> 0)"

definition bump :: "int \<Rightarrow> int \<Rightarrow> int cvec \<Rightarrow> exn + int cvec" where
  "bump i d v = bindE (vec_get v i) (\<lambda>x. vec_set v i (x + d))"

text \<open>Step 1: a transaction loads the clusters of its items; receiver -1 marks a read.\<close>

definition load_txn :: "(int, int) omap \<Rightarrow> int \<times> int \<Rightarrow> int cvec \<Rightarrow> exn + int cvec" where
  "load_txn mapping t loads =
     bindE (mapping_at (fst t) mapping) (\<lambda>cs.
     bindE (bump cs 1 loads) (\<lambda>l1.
     if snd t \<noteq> - 1 then bindE (mapping_at (snd t) mapping) (\<lambda>cr. bump cr 1 l1) else Inr l1))"

text \<open>Step 2: cross-cluster transactions per item.\<close>

definition cross_txn :: "(int, int) omap \<Rightarrow> int \<times> int \<Rightarrow> int cvec \<Rightarrow> exn + int cvec" where
  "cross_txn mapping t cross =
     (if snd t = - 1 then Inr cross
      else bindE (mapping_at (fst t) mapping) (\<lambda>cs.
           bindE (mapping_at (snd t) mapping) (\<lambda>cr.
           if cs \<noteq> cr then bindE (bump (fst t) 1 cross) (bump (snd t) 1) else Inr cross)))"

text \<open>Step 4: move one of the two items of a cross-cluster transaction.\<close>

definition move_txn ::
  "int cvec \<Rightarrow> int \<Rightarrow> int \<times> int \<Rightarrow> (int, int) omap \<times> int cvec \<Rightarrow> exn + (int, int) omap \<times> int cvec" where
  "move_txn cross max_size t ml =
     (let (mapping, loads) = ml; s = fst t; r = snd t in
      if r = - 1 then Inr ml
      else
        let cs = mapping_get s mapping; cr = mapping_get r mapping in
        if cs = cr then Inr ml
        else
          bindE (vec_get loads cs) (\<lambda>load_s. bindE (vec_get loads cr) (\<lambda>load_r.
          bindE (vec_get cross s) (\<lambda>xs. bindE (vec_get cross r) (\<lambda>xr.
            if xs < xr \<and> load_r + 1 \<le> max_size then
              bindE (bump cr 1 loads) (\<lambda>l1. bindE (bump cs (- 1) l1) (\<lambda>l2.
                Inr (omap_put s cr mapping, l2)))
            else if load_s + 1 \<le> max_size then
              bindE (bump cs 1 loads) (\<lambda>l1. bindE (bump cr (- 1) l1) (\<lambda>l2.
                Inr (omap_put r cs mapping, l2)))
            else Inr ml)))))"

text \<open>Step 5: \<^verbatim>\<open>std::min_element\<close> and \<^verbatim>\<open>std::max_element\<close> give the first extremal index.\<close>

definition load_list :: "int cvec \<Rightarrow> int list" where
  "load_list v = map (vat v) [0..vsize v - 1]"

definition first_index :: "int \<Rightarrow> int list \<Rightarrow> int" where
  "first_index x xs = int (length (takeWhile (\<lambda>y. y \<noteq> x) xs))"

definition min_cluster :: "int cvec \<Rightarrow> int" where
  "min_cluster v = first_index (Min (set (load_list v))) (load_list v)"

definition max_cluster :: "int cvec \<Rightarrow> int" where
  "max_cluster v = first_index (Max (set (load_list v))) (load_list v)"

text \<open>The scan for an item of the fullest cluster without cross-cluster transactions.\<close>

fun find_candidate :: "int cvec \<Rightarrow> int \<Rightarrow> (int, int) omap \<Rightarrow> exn + int option" where
  "find_candidate cross cmax [] = Inr None"
| "find_candidate cross cmax ((item, cluster) # m) =
     (if cluster = cmax then
        bindE (vec_get cross item) (\<lambda>x.
          if x = 0 then Inr (Some item) else find_candidate cross cmax m)
      else find_candidate cross cmax m)"

text \<open>One round of the rebalancing loop: \<open>None\<close> when it stops.\<close>

definition rebalance_round ::
  "int cvec \<Rightarrow> int \<Rightarrow> (int, int) omap \<times> int cvec \<Rightarrow> exn + ((int, int) omap \<times> int cvec) option" where
  "rebalance_round cross max_size ml =
     (let (mapping, loads) = ml; cmin = min_cluster loads; cmax = max_cluster loads in
      bindE (vec_get loads cmax) (\<lambda>top.
        if top > max_size then
          bindE (find_candidate cross cmax mapping) (\<lambda>candidate.
            case candidate of
              None \<Rightarrow> Inr None
            | Some item \<Rightarrow>
                bindE (bump cmax (- 1) loads) (\<lambda>l1. bindE (bump cmin 1 l1) (\<lambda>l2.
                  Inr (Some (omap_put item cmin mapping, l2)))))
        else Inr None))"

partial_function (option) rebalance ::
  "int cvec \<Rightarrow> int \<Rightarrow> (int, int) omap \<times> int cvec \<Rightarrow> (exn + (int, int) omap \<times> int cvec) option" where
  "rebalance cross max_size ml =
     (case rebalance_round cross max_size ml of
        Inl e \<Rightarrow> Some (Inl e)
      | Inr None \<Rightarrow> Some (Inr ml)
      | Inr (Some ml') \<Rightarrow> rebalance cross max_size ml')"

text \<open>The size bound: \<^verbatim>\<open>avg_size * 1.3\<close>, truncated.\<close>

definition max_cluster_size :: "int \<Rightarrow> int \<Rightarrow> int" where
  "max_cluster_size total_items num_clusters = (total_items sdiv num_clusters) * 13 sdiv 10"

text \<open>The steps before the loop; the whole of \<^verbatim>\<open>Reshard\<close> is \<open>None\<close> when the loop does not end.\<close>

definition reshard_moves ::
  "int \<Rightarrow> (int \<times> int) list \<Rightarrow> (int, int) omap \<Rightarrow> int \<Rightarrow> exn + int cvec \<times> (int, int) omap \<times> int cvec" where
  "reshard_moves num_clusters transactions mapping total_items =
     bindE (foldE (load_txn mapping) transactions (vec_fill num_clusters 0)) (\<lambda>loads.
     bindE (foldE (cross_txn mapping) transactions (vec_fill (total_items + 1) 0)) (\<lambda>cross.
     bindE (foldE (move_txn cross (max_cluster_size total_items num_clusters)) transactions
              (mapping, loads)) (\<lambda>ml. Inr (cross, ml))))"

definition Reshard ::
  "int \<Rightarrow> (int \<times> int) list \<Rightarrow> (int, int) omap \<Rightarrow> int \<Rightarrow> (exn + (int, int) omap) option" where
  "Reshard num_clusters transactions mapping total_items =
     (case reshard_moves num_clusters transactions mapping total_items of
        Inl e \<Rightarrow> Some (Inl e)
      | Inr (cross, ml) \<Rightarrow>
          map_option (\<lambda>res. bindE res (\<lambda>ml'. Inr (fst ml')))
            (rebalance cross (max_cluster_size total_items num_clusters) ml))"

section \<open>Updates for the nodes\<close>

definition alive_request :: "bool \<Rightarrow> bool \<Rightarrow> bool \<Rightarrow> bool \<Rightarrow> bool \<Rightarrow> alive_update_request" where
  "alive_request is_alive fail recover prompt_user reset_state =
     \<lparr>au_is_alive = is_alive, au_kill_leader = fail, au_prompt_pause = prompt_user,
      au_recover = recover, au_reset_state = reset_state, au_reshard = False, au_shard_map = []\<rparr>"

definition SendAliveUpdateAsync ::
  "int set \<Rightarrow> int list \<Rightarrow> bool \<Rightarrow> bool \<Rightarrow> int \<Rightarrow> bool \<Rightarrow> bool \<Rightarrow> exn + (int \<times> alive_update_request) list" where
  "SendAliveUpdateAsync alive_nodes stubs fail recover mod_node prompt_user reset_state =
     (if \<not> fail \<and> \<not> recover then
        Inr (map (\<lambda>i. (i, alive_request (i \<in> alive_nodes) fail recover prompt_user reset_state)) stubs)
      else if mod_node \<in> set stubs then
        Inr [(mod_node, alive_request (\<not> fail) fail recover prompt_user reset_state)]
      else Inl OutOfRange)"

section \<open>The initial map is balanced\<close>

text \<open>The first item of a cluster.\<close>

definition first_item :: "int \<Rightarrow> int \<Rightarrow> int \<Rightarrow> int" where
  "first_item items k c = (c - 1) * (items div k) + min (c - 1) (items mod k) + 1"

lemma first_item_Suc:
  assumes "1 \<le> k" "1 \<le> c"
  shows "first_item items k (c + 1) =
    first_item items k c + items div k + (if c \<le> items mod k then 1 else 0)"
  using assms by (auto simp: first_item_def algebra_simps)

lemma first_item_mono:
  assumes "1 \<le> k" "0 \<le> items" "c \<le> d"
  shows "first_item items k c \<le> first_item items k d"
proof -
  have "(c - 1) * (items div k) \<le> (d - 1) * (items div k)"
    using assms by (intro mult_right_mono) (simp_all add: pos_imp_zdiv_nonneg_iff)
  then show ?thesis using assms(3) by (simp add: first_item_def min_def)
qed

lemma first_item_ends:
  assumes "1 \<le> k" "0 \<le> items"
  shows "first_item items k 1 = 1" "first_item items k (k + 1) = items + 1"
proof -
  have "0 \<le> items mod k" "items mod k < k" using assms by simp_all
  then show "first_item items k 1 = 1" "first_item items k (k + 1) = items + 1"
    by (simp_all add: first_item_def)
qed

lemma fold_assign_item:
  "fst (fold (assign_item c) xs s) = fst s + int (length xs)"
  "map_of (snd (fold (assign_item c) xs s)) i =
     (if fst s \<le> i \<and> i < fst s + int (length xs) then Some c else map_of (snd s) i)"
  by (induction xs arbitrary: s) (auto simp: assign_item_def)

lemma assign_cluster_effect:
  assumes "1 \<le> k" "0 \<le> items" "1 \<le> c" "fst s = first_item items k c"
  shows "fst (assign_cluster items k c s) = first_item items k (c + 1)"
    "map_of (snd (assign_cluster items k c s)) i =
       (if first_item items k c \<le> i \<and> i < first_item items k (c + 1) then Some c else map_of (snd s) i)"
proof -
  have "0 \<le> items div k" using assms by (simp add: pos_imp_zdiv_nonneg_iff)
  then show "fst (assign_cluster items k c s) = first_item items k (c + 1)"
    "map_of (snd (assign_cluster items k c s)) i =
       (if first_item items k c \<le> i \<and> i < first_item items k (c + 1) then Some c else map_of (snd s) i)"
    using assms first_item_Suc [of k c items]
    by (simp_all add: assign_cluster_def Let_def fold_assign_item algebra_simps)
qed

lemma MakeShardMap_loop:
  assumes "1 \<le> k" "0 \<le> items" "0 \<le> j"
  shows "let s = fold (assign_cluster items k) [1..j] (1, []) in
    fst s = first_item items k (j + 1) \<and>
    (\<forall>i c. map_of (snd s) i = Some c \<longleftrightarrow>
       1 \<le> c \<and> c \<le> j \<and> first_item items k c \<le> i \<and> i < first_item items k (c + 1)) \<and>
    (\<forall>i. (\<exists>c. map_of (snd s) i = Some c) \<longleftrightarrow> 1 \<le> i \<and> i < first_item items k (j + 1))"
  using assms(3)
proof (induction j rule: int_ge_induct)
  case base
  then show ?case using first_item_ends(1) [OF assms(1,2)] by simp
next
  case (step j)
  define s where "s = fold (assign_cluster items k) [1..j] (1, [])"
  have IH: "fst s = first_item items k (j + 1)"
    "\<And>i c. map_of (snd s) i = Some c \<longleftrightarrow>
       1 \<le> c \<and> c \<le> j \<and> first_item items k c \<le> i \<and> i < first_item items k (c + 1)"
    "\<And>i. (\<exists>c. map_of (snd s) i = Some c) \<longleftrightarrow> 1 \<le> i \<and> i < first_item items k (j + 1)"
    using step.IH [unfolded Let_def, folded s_def] by blast+
  have ext: "fold (assign_cluster items k) [1..j + 1] (1, []) = assign_cluster items k (j + 1) s"
    using step.hyps by (simp add: upto_rec2 s_def)
  note eff = assign_cluster_effect [OF assms(1,2) _ IH(1)]
  have c: "1 \<le> j + 1" using step.hyps by simp
  have below: "c \<le> j \<Longrightarrow> i < first_item items k (c + 1) \<Longrightarrow> i < first_item items k (j + 1)" for i c
    using first_item_mono [OF assms(1,2), of "c + 1" "j + 1"] by linarith
  have lo: "1 \<le> first_item items k (j + 1)" "first_item items k (j + 1) \<le> first_item items k (j + 1 + 1)"
    using first_item_mono [OF assms(1,2), of 1 "j + 1"] first_item_mono [OF assms(1,2), of "j + 1" "j + 1 + 1"]
      first_item_ends(1) [OF assms(1,2)] c by simp_all
  show ?case
    unfolding ext Let_def
  proof (intro conjI allI)
    show "fst (assign_cluster items k (j + 1) s) = first_item items k (j + 1 + 1)" by (rule eff(1) [OF c])
  next
    fix i d
    show "map_of (snd (assign_cluster items k (j + 1) s)) i = Some d \<longleftrightarrow>
        1 \<le> d \<and> d \<le> j + 1 \<and> first_item items k d \<le> i \<and> i < first_item items k (d + 1)"
      unfolding eff(2) [OF c] using IH(2) [of i d] below [of d i] c
      by (cases "d = j + 1") auto
  next
    fix i
    show "(\<exists>d. map_of (snd (assign_cluster items k (j + 1) s)) i = Some d) \<longleftrightarrow>
        1 \<le> i \<and> i < first_item items k (j + 1 + 1)"
      unfolding eff(2) [OF c] using IH(3) [of i] lo by auto
  qed
qed

lemma MakeShardMap_iff:
  assumes "1 \<le> k" "0 \<le> items"
  shows "map_of (MakeShardMap items k) i = Some c \<longleftrightarrow>
      1 \<le> c \<and> c \<le> k \<and> first_item items k c \<le> i \<and> i < first_item items k (c + 1)"
    and "(\<exists>c. map_of (MakeShardMap items k) i = Some c) \<longleftrightarrow> 1 \<le> i \<and> i \<le> items"
proof -
  have "0 \<le> k" using assms by simp
  note loop = MakeShardMap_loop [OF assms this, unfolded Let_def, folded MakeShardMap_def]
  show "map_of (MakeShardMap items k) i = Some c \<longleftrightarrow>
      1 \<le> c \<and> c \<le> k \<and> first_item items k c \<le> i \<and> i < first_item items k (c + 1)"
    using loop by blast
  have "(\<exists>c. map_of (MakeShardMap items k) i = Some c) \<longleftrightarrow> 1 \<le> i \<and> i < first_item items k (k + 1)"
    using loop by blast
  then show "(\<exists>c. map_of (MakeShardMap items k) i = Some c) \<longleftrightarrow> 1 \<le> i \<and> i \<le> items"
    unfolding first_item_ends(2) [OF assms] zle_add1_eq_le .
qed

text \<open>
  The initial placement covers every item and is balanced. Exactly the items from 1 to the
  total are placed; every cluster gets the same number of items, the first ones one more when the
  division leaves a remainder; clusters are consecutive ranges in increasing order.
\<close>

theorem shard_map_balanced:
  assumes "1 \<le> k" and "0 \<le> items"
  shows "(\<forall>i. (\<exists>c. map_of (MakeShardMap items k) i = Some c) \<longleftrightarrow> 1 \<le> i \<and> i \<le> items) \<and>
    (\<forall>c. 1 \<le> c \<and> c \<le> k \<longrightarrow> int (card {i. map_of (MakeShardMap items k) i = Some c}) =
       items div k + (if c \<le> items mod k then 1 else 0)) \<and>
    (\<forall>i j a b. map_of (MakeShardMap items k) i = Some a \<and> map_of (MakeShardMap items k) j = Some b \<and>
       i \<le> j \<longrightarrow> a \<le> b)"
proof (intro conjI allI impI)
  fix c assume c: "1 \<le> c \<and> c \<le> k"
  have q: "0 \<le> items div k" using assms by (simp add: pos_imp_zdiv_nonneg_iff)
  have "{i. map_of (MakeShardMap items k) i = Some c} = {first_item items k c..<first_item items k (c + 1)}"
    using c by (auto simp: MakeShardMap_iff(1) [OF assms])
  then show "int (card {i. map_of (MakeShardMap items k) i = Some c}) =
      items div k + (if c \<le> items mod k then 1 else 0)"
    using c q first_item_Suc [OF assms(1), of c items] by simp
next
  fix i j a b
  assume h: "map_of (MakeShardMap items k) i = Some a \<and> map_of (MakeShardMap items k) j = Some b \<and> i \<le> j"
  show "a \<le> b"
  proof (rule ccontr)
    assume "\<not> a \<le> b"
    then have "first_item items k (b + 1) \<le> first_item items k a"
      by (intro first_item_mono [OF assms]) simp
    with h show False by (simp add: MakeShardMap_iff(1) [OF assms])
  qed
qed (simp add: MakeShardMap_iff(2) [OF assms])

theorem shard_map_balanced_witness:
  "int (card {i. map_of (MakeShardMap 9000 3) i = Some 2}) = 3000 \<and>
   int (card {i. map_of (MakeShardMap 10 3) i = Some 1}) = 4"
proof -
  note size = shard_map_balanced [THEN conjunct2, THEN conjunct1, rule_format]
  show ?thesis using size [of 3 9000 2] size [of 3 10 1] by simp
qed

section \<open>Resharding reads past its load table\<close>

definition touches :: "(int, int) omap \<Rightarrow> int \<Rightarrow> int \<times> int \<Rightarrow> bool" where
  "touches m k t \<longleftrightarrow> map_of m (fst t) = Some k \<or> snd t \<noteq> - 1 \<and> map_of m (snd t) = Some k"

definition placed :: "(int, int) omap \<Rightarrow> int \<Rightarrow> int \<times> int \<Rightarrow> bool" where
  "placed m k t \<longleftrightarrow> (\<exists>c. map_of m (fst t) = Some c \<and> 1 \<le> c \<and> c \<le> k) \<and>
     (snd t = - 1 \<or> (\<exists>c. map_of m (snd t) = Some c \<and> 1 \<le> c \<and> c \<le> k))"

lemma load_txn_effect:
  assumes "placed m k t" and "vsize loads = k"
  shows "if touches m k t then load_txn m t loads = Inl OutOfBounds
    else \<exists>l. load_txn m t loads = Inr l \<and> vsize l = k"
  using assms
  by (auto simp: placed_def touches_def load_txn_def mapping_at_def bump_def vec_get_def vec_set_def)

lemma load_all:
  assumes "\<forall>t\<in>set ts. placed m k t" and "vsize loads = k" and "\<exists>t\<in>set ts. touches m k t"
  shows "foldE (load_txn m) ts loads = Inl OutOfBounds"
  using assms
proof (induction ts arbitrary: loads)
  case (Cons t ts)
  show ?case
  proof (cases "touches m k t")
    case True
    with load_txn_effect [of m k t loads] Cons.prems show ?thesis by simp
  next
    case False
    with load_txn_effect [of m k t loads] Cons.prems obtain l where
      l: "load_txn m t loads = Inr l" "vsize l = k" by auto
    with False Cons.IH [of l] Cons.prems show ?thesis by auto
  qed
qed simp

text \<open>
  C39: \<^verbatim>\<open>PrintReshard\<close> indexes its load table by the cluster number, which starts at 1, while the
  table starts at 0 and has one slot per cluster. As soon as one transaction of the set touches
  an item of the last cluster, it accesses the vector out of bounds.
\<close>

theorem reshard_out_of_bounds:
  assumes "1 \<le> k" and "0 \<le> items"
    and "\<forall>t\<in>set txns. 1 \<le> fst t \<and> fst t \<le> items \<and> (snd t = - 1 \<or> 1 \<le> snd t \<and> snd t \<le> items)"
    and "t \<in> set txns" and "first_item items k k \<le> fst t \<or> first_item items k k \<le> snd t"
  shows "Reshard k txns (MakeShardMap items k) items = Some (Inl OutOfBounds)"
proof -
  let ?m = "MakeShardMap items k"
  have at: "\<exists>c. map_of ?m i = Some c \<and> 1 \<le> c \<and> c \<le> k" if "1 \<le> i" "i \<le> items" for i
    using that MakeShardMap_iff [OF assms(1,2), of i] by blast
  have lst: "map_of ?m i = Some k" if "first_item items k k \<le> i" "i \<le> items" for i
    using that assms(1) first_item_ends(2) [OF assms(1,2)] by (simp add: MakeShardMap_iff(1) [OF assms(1,2)])
  have "1 \<le> first_item items k k"
    using first_item_mono [OF assms(1,2,1)] first_item_ends(1) [OF assms(1,2)] by simp
  then have "\<exists>t\<in>set txns. touches ?m k t"
    using assms(3-5) lst by (intro bexI [of _ t]) (auto simp: touches_def)
  moreover have "\<forall>t\<in>set txns. placed ?m k t"
    using assms(3) at by (auto simp: placed_def)
  ultimately have "foldE (load_txn ?m) txns (vec_fill k 0) = Inl OutOfBounds"
    by (intro load_all) auto
  then show ?thesis by (simp add: Reshard_def reshard_moves_def)
qed

theorem reshard_out_of_bounds_witness:
  "Reshard 3 [(1, 2), (3, 7000)] (MakeShardMap 9000 3) 9000 = Some (Inl OutOfBounds)"
  by (rule reshard_out_of_bounds [of _ _ _ "(3, 7000)"]) (auto simp: first_item_def)

end
