(* ===== verification/Prompt.thy ===== *)
theory Prompt
  imports NodeInfo Launch Topology
begin

text \<open>
  The terminal prompt of \<^verbatim>\<open>src/node_launch.cpp\<close>: \<^verbatim>\<open>PromptUser\<close> and its commands. The
  lines typed are a list; \<^verbatim>\<open>boost::algorithm::trim\<close> and \<^verbatim>\<open>boost::split\<close> are the
  parameters \<open>trim\<close> and \<open>split\<close>. A stub is the node that serves it, \<open>None\<close> when its process has
  ended; iteration over \<^verbatim>\<open>stubs\<close> is in the order of the list. What is printed is recorded as
  data, without the layout of the text.
\<close>

section \<open>Blocking calls\<close>

type_synonym stubs = "(int \<times> node option) list"

text \<open>\<^verbatim>\<open>stubs[i]\<close> yields a null pointer for an unknown number, and the call goes through it.\<close>

definition stub_at :: "int \<Rightarrow> stubs \<Rightarrow> exn + node option" where
  "stub_at i stubs = (case map_of stubs i of Some s \<Rightarrow> Inr s | None \<Rightarrow> Inl NullStub)"

definition GetNodeInfo :: "info_request \<Rightarrow> node option \<Rightarrow> exn + node_info" where
  "GetNodeInfo request s =
     (case s of
        None \<Rightarrow> Inl RuntimeError
      | Some n \<Rightarrow> (case HandleSendNodeInfo request n of Inl e \<Rightarrow> Inl RuntimeError | Inr reply \<Rightarrow> Inr reply))"

definition info_query :: info_request where
  "info_query = \<lparr>iq_print_log = False, iq_print_db = False, iq_print_status = False,
     iq_print_newview = False, iq_seqnum = 0\<rparr>"

fun collectE :: "('a \<Rightarrow> exn + 'b) \<Rightarrow> 'a list \<Rightarrow> exn + 'b list" where
  "collectE f [] = Inr []"
| "collectE f (x # xs) = bindE (f x) (\<lambda>y. bindE (collectE f xs) (\<lambda>ys. Inr (y # ys)))"

section \<open>Commands\<close>

datatype printed =
    Usage string
  | LogOf string string
  | DatabaseOf int "(string \<times> int) list"
  | StatusOf int string string
  | NewViewOf ballot string
  | BalanceOf int int "int list"
  | PerformanceOf int int
  | Moved int int int
  | InvalidInput

record prompt =
  p_shard_map :: "(int, int) omap"
  p_printed :: "printed list"
  p_sent :: "(int \<times> alive_update_request) list"

definition prints :: "printed list \<Rightarrow> prompt \<Rightarrow> prompt" where
  "prints ps p = p\<lparr>p_printed := p_printed p @ ps\<rparr>"

definition PrintLog :: "stubs \<Rightarrow> string list \<Rightarrow> prompt \<Rightarrow> exn + prompt" where
  "PrintLog stubs args p =
     (if length args \<noteq> 2 then Inr (prints [Usage ''PrintLog''] p)
      else bindE (stoi (args ! 1)) (\<lambda>i. bindE (stub_at i stubs) (\<lambda>s.
           bindE (GetNodeInfo (info_query\<lparr>iq_print_log := True\<rparr>) s) (\<lambda>output.
             Inr (prints [LogOf (args ! 1) (ni_print_log output)] p)))))"

definition PrintDB :: "stubs \<Rightarrow> prompt \<Rightarrow> exn + prompt" where
  "PrintDB stubs p =
     bindE (collectE (\<lambda>(i, s). bindE (GetNodeInfo (info_query\<lparr>iq_print_db := True\<rparr>) s) (\<lambda>output.
       Inr (DatabaseOf i (ni_database output)))) stubs) (\<lambda>ps. Inr (prints ps p))"

definition PrintStatus :: "stubs \<Rightarrow> string list \<Rightarrow> prompt \<Rightarrow> exn + prompt" where
  "PrintStatus stubs args p =
     (if length args \<noteq> 2 then Inr (prints [Usage ''PrintStatus''] p)
      else bindE (collectE (\<lambda>(i, s). bindE (stoi (args ! 1)) (\<lambda>q.
             bindE (GetNodeInfo (info_query\<lparr>iq_print_status := True, iq_seqnum := q\<rparr>) s) (\<lambda>output.
               Inr (StatusOf i (args ! 1) (ni_status output))))) stubs) (\<lambda>ps. Inr (prints ps p)))"

text \<open>The view messages of all nodes, one per ballot, the last one read for a ballot.\<close>

definition all_views :: "new_view_request list \<Rightarrow> (ballot, new_view_request) omap" where
  "all_views nvs = fold (\<lambda>nv. omap_put (nv_ballot nv) nv) nvs []"

definition view_log :: "new_view_request \<Rightarrow> (int, accepted_entry) omap" where
  "view_log nv = fold (\<lambda>e. omap_put (ae_seqnum e) e) (nv_accept_log nv) []"

definition PrintView :: "stubs \<Rightarrow> prompt \<Rightarrow> exn + prompt" where
  "PrintView stubs p =
     bindE (collectE (\<lambda>(i, s). bindE (GetNodeInfo (info_query\<lparr>iq_print_newview := True\<rparr>) s) (\<lambda>output.
       Inr (ni_newviews output))) stubs) (\<lambda>nvs.
     Inr (prints (map (\<lambda>(b, nv). NewViewOf b (AcceptLogToString (view_log nv))) (all_views (concat nvs))) p))"

text \<open>\<^verbatim>\<open>shard_map[item]\<close> inserts 0 for an unknown item.\<close>

definition shard_touch :: "int \<Rightarrow> (int, int) omap \<Rightarrow> (int, int) omap" where
  "shard_touch i m = (if map_of m i = None then omap_put i 0 m else m)"

definition balance_of :: "stubs \<Rightarrow> int \<Rightarrow> int \<Rightarrow> exn + printed" where
  "balance_of stubs item i =
     bindE (stub_at i stubs) (\<lambda>s. bindE (GetNodeInfo db_query s) (\<lambda>output.
     bindE (balance_lines item (ni_database output)) (\<lambda>found.
       Inr (BalanceOf i item (if found = [] then [10] else found)))))"

definition PrintBalance :: "stubs \<Rightarrow> int \<Rightarrow> string list \<Rightarrow> prompt \<Rightarrow> exn + prompt" where
  "PrintBalance stubs k args p =
     (if length args \<noteq> 2 then Inr (prints [Usage ''PrintBalance''] p)
      else bindE (stoi (args ! 1)) (\<lambda>item.
        let cluster = mapping_get item (p_shard_map p);
            per_cluster = int (length stubs) div k;
            first_node = (cluster - 1) * per_cluster + 1;
            last_node = cluster * per_cluster
        in bindE (collectE (balance_of stubs item) [first_node..last_node]) (\<lambda>ps.
             Inr (prints ps (p\<lparr>p_shard_map := shard_touch item (p_shard_map p)\<rparr>)))))"

definition reshard_update :: "(int, int) omap \<Rightarrow> alive_update_request" where
  "reshard_update new =
     \<lparr>au_is_alive = False, au_kill_leader = False, au_prompt_pause = False, au_recover = False,
      au_reset_state = False, au_reshard = True, au_shard_map = new\<rparr>"

definition PrintReshard ::
  "stubs \<Rightarrow> int \<Rightarrow> (int \<times> int) list \<Rightarrow> prompt \<Rightarrow> (exn + prompt) option" where
  "PrintReshard stubs k transactions p =
     map_option (\<lambda>res. bindE res (\<lambda>new.
       let old = p_shard_map p;
           moved = concat (map (\<lambda>(i, c). if c \<noteq> mapping_get i old then [Moved i (mapping_get i old) c] else []) new)
       in Inr (prints moved (p\<lparr>p_shard_map := fold (\<lambda>(i, c). shard_touch i) new old,
                               p_sent := p_sent p @ map (\<lambda>(i, s). (i, reshard_update new)) stubs\<rparr>))))
       (Reshard k transactions (p_shard_map p) num_items)"

text \<open>The prompt: \<^verbatim>\<open>Continue\<close> leaves it. At the end of the input \<^verbatim>\<open>getline\<close> fails and the loop
  goes round forever.\<close>

definition prompt_command ::
  "stubs \<Rightarrow> int \<Rightarrow> (int \<times> int) list \<Rightarrow> int \<Rightarrow> string list \<Rightarrow> prompt \<Rightarrow> (exn + prompt) option" where
  "prompt_command stubs k transactions duration args p =
     (if hd args = ''PrintLog'' then Some (PrintLog stubs args p)
      else if hd args = ''PrintDB'' then Some (PrintDB stubs p)
      else if hd args = ''PrintStatus'' then Some (PrintStatus stubs args p)
      else if hd args = ''PrintView'' then Some (PrintView stubs p)
      else if hd args = ''PrintBalance'' then Some (PrintBalance stubs k args p)
      else if hd args = ''Performance''
      then Some (Inr (prints [PerformanceOf (int (length transactions)) duration] p))
      else if hd args = ''PrintReshard'' then PrintReshard stubs k transactions p
      else Some (Inr (prints [InvalidInput] p)))"

fun PromptUser ::
  "(string \<Rightarrow> string) \<Rightarrow> (string \<Rightarrow> string list) \<Rightarrow> stubs \<Rightarrow> int \<Rightarrow> (int \<times> int) list \<Rightarrow> int \<Rightarrow>
   string list \<Rightarrow> prompt \<Rightarrow> (exn + prompt) option" where
  "PromptUser trim split stubs k transactions duration [] p = None"
| "PromptUser trim split stubs k transactions duration (input # inputs) p =
     (let args = split (trim input) in
      if args = [] then Some (Inl OutOfBounds)
      else if hd args = ''Continue'' then Some (Inr p)
      else case prompt_command stubs k transactions duration args p of
          None \<Rightarrow> None
        | Some (Inl e) \<Rightarrow> Some (Inl e)
        | Some (Inr p') \<Rightarrow> PromptUser trim split stubs k transactions duration inputs p')"

section \<open>Balances\<close>

lemma collectE_map: "(\<And>x. x \<in> set xs \<Longrightarrow> f x = Inr (g x)) \<Longrightarrow> collectE f xs = Inr (map g xs)"
  by (induction xs) simp_all

lemma balance_of_node:
  assumes "map_of stubs i = Some (Some n)" and "PrintBalance_node item n = Inr bs"
  shows "balance_of stubs item i = Inr (BalanceOf i item bs)"
  using assms
  by (auto simp: balance_of_def stub_at_def GetNodeInfo_def PrintBalance_node_def exn_simps)

lemma balance_of_unknown: "map_of stubs i = None \<Longrightarrow> balance_of stubs item i = Inl NullStub"
  by (simp add: balance_of_def stub_at_def)

lemma map_of_nodes: "map_of (map (\<lambda>i. (i, f i)) xs) i = (if i \<in> set xs then Some (f i) else None)"
  by (induction xs) auto

text \<open>The interval the prompt walks is the list of the nodes of the cluster.\<close>

lemma cluster_interval:
  assumes "1 \<le> d" and "1 \<le> c" and "c \<le> k"
  shows "[(c - 1) * d + 1..c * d] = filter (\<lambda>i. cluster_of_node d i = c) [1..k * d]"
proof (rule sorted_distinct_set_unique)
  have member: "cluster_of_node d i = c \<longleftrightarrow> (c - 1) * d + 1 \<le> i \<and> i \<le> c * d" if "1 \<le> i" for i
  proof -
    have "cluster_of_node d i = c \<longleftrightarrow> (i - 1) div d = c - 1"
      using assms(1) that by (auto simp: cluster_of_node_def)
    also have "\<dots> \<longleftrightarrow> (c - 1) * d \<le> i - 1 \<and> i - 1 < (c - 1) * d + d"
      using assms(1) div_eq_iff_between [of d "i - 1" "c - 1"] by (simp add: left_diff_distrib)
    finally show ?thesis by (auto simp: algebra_simps)
  qed
  have bounds: "0 \<le> (c - 1) * d" "c * d \<le> k * d" using assms by (simp_all add: mult_right_mono)
  have mem: "(c - 1) * d + 1 \<le> i \<and> i \<le> c * d \<longleftrightarrow> (1 \<le> i \<and> i \<le> k * d) \<and> cluster_of_node d i = c" for i
  proof (cases "1 \<le> i")
    case True
    from member [OF this] bounds True show ?thesis by linarith
  next
    case False
    with bounds(1) have "\<not> (c - 1) * d + 1 \<le> i" by linarith
    with False show ?thesis by simp
  qed
  show "set [(c - 1) * d + 1..c * d] = set (filter (\<lambda>i. cluster_of_node d i = c) [1..k * d])"
    by (rule set_eqI) (simp only: set_filter set_upto mem_Collect_eq atLeastAtMost_iff mem)
qed (simp_all add: sorted_wrt_filter)

text \<open>
  C32: the command \<^verbatim>\<open>PrintBalance\<close>. Let every node be in the state some executed entries left a
  new node in. For an item of the shard map the prompt prints one line for each node of the item's
  cluster, in order, with that node's current balance, and its state is otherwise unchanged. For any
  other number it calls through a null stub.
\<close>

theorem balance_command_prints_cluster:
  assumes "1 \<le> k" and "1 \<le> d" and "p_shard_map p = MakeShardMap num_items k" and "stoi a = Inr item"
    and "\<forall>i\<in>{1..k * d}. \<exists>es r addrs clients smap now kp.
      run_entries es (PaxosNode_init i r addrs clients smap k now kp) = Inr (nodes i)"
  shows "PrintBalance (map (\<lambda>i. (i, Some (nodes i))) [1..k * d]) k [''PrintBalance'', a] p =
    (case map_of (MakeShardMap num_items k) item of
       Some c \<Rightarrow> Inr (prints (map (\<lambda>i. BalanceOf i item [balance (nodes i) item])
         (filter (\<lambda>i. cluster_of_node d i = c) [1..k * d])) p)
     | None \<Rightarrow> Inl NullStub)"
proof -
  let ?stubs = "map (\<lambda>i. (i, Some (nodes i))) [1..k * d]"
  have per: "int (length ?stubs) div k = d" using assms(1,2) by simp
  have items: "0 \<le> num_items" by (simp add: num_items_def)
  note placed = MakeShardMap_iff [OF assms(1) items, of item]
  show ?thesis
  proof (cases "map_of (MakeShardMap num_items k) item")
    case None
    have "balance_of ?stubs item (1 - d) = Inl NullStub"
      using assms(2) by (intro balance_of_unknown) (simp add: map_of_nodes)
    then have "collectE (balance_of ?stubs item) [1 - d..0] = Inl NullStub"
      using assms(2) by (subst upto_rec1) simp_all
    then show ?thesis
      using None assms(3,4) per by (simp add: PrintBalance_def mapping_get_def Let_def)
  next
    case (Some c)
    then have c: "1 \<le> c" "c \<le> k" and item: "1 \<le> item" "item \<le> num_items" using placed by blast+
    have "balance_of ?stubs item i = Inr (BalanceOf i item [balance (nodes i) item])"
      if "i \<in> set [(c - 1) * d + 1..c * d]" for i
    proof -
      have i: "1 \<le> i" "i \<le> k * d" using that unfolding cluster_interval [OF assms(2) c] by auto
      then obtain es r addrs clients smap now kp where
        "run_entries es (PaxosNode_init i r addrs clients smap k now kp) = Inr (nodes i)"
        using bspec [OF assms(5), of i] by (metis atLeastAtMost_iff)
      from print_balance_exact [OF this item] show ?thesis
        using i by (intro balance_of_node) (simp_all add: map_of_nodes)
    qed
    note lines = collectE_map [OF this, of "[(c - 1) * d + 1..c * d]"]
    have touch: "shard_touch item (MakeShardMap num_items k) = MakeShardMap num_items k"
      using Some by (simp add: shard_touch_def)
    have same: "p\<lparr>p_shard_map := MakeShardMap num_items k\<rparr> = p" by (simp add: assms(3) [symmetric])
    show ?thesis
      using Some assms(3,4) per lines
      by (simp add: touch same PrintBalance_def mapping_get_def Let_def cluster_interval [OF assms(2) c, symmetric])
  qed
qed

theorem balance_command_prints_cluster_witness:
  "PrintBalance (map (\<lambda>i. (i, Some (demo_node i))) [1..9]) 3 [''PrintBalance'', ''3001'']
     \<lparr>p_shard_map = MakeShardMap 9000 3, p_printed = [], p_sent = []\<rparr> =
   Inr \<lparr>p_shard_map = MakeShardMap 9000 3,
     p_printed = [BalanceOf 4 3001 [10], BalanceOf 5 3001 [10], BalanceOf 6 3001 [10]], p_sent = []\<rparr>"
proof -
  let ?p = "\<lparr>p_shard_map = MakeShardMap 9000 3, p_printed = [], p_sent = []\<rparr>"
  have "run_entries [] (PaxosNode_init i BACKUP [1, 2, 3, 4, 5, 6, 7, 8, 9] [''A''] demo_shards 3 1000 True) =
      Inr (demo_node i)" for i
    by (simp add: run_entries_def demo_node_def)
  then have "\<forall>i\<in>{1..3 * 3}. \<exists>es r addrs clients smap now kp.
      run_entries es (PaxosNode_init i r addrs clients smap 3 now kp) = Inr (demo_node i)" by blast
  note b = balance_command_prints_cluster [OF _ _ _ _ this, of ?p "''3001''" 3001]
  have "map_of (MakeShardMap 9000 3) 3001 = Some 2" by (simp add: MakeShardMap_iff first_item_def)
  moreover have "filter (\<lambda>i. cluster_of_node 3 i = 2) [1..9] = [4, 5, 6]"
    using cluster_interval [of 3 2 3] by (simp add: upto_rec1)
  ultimately show ?thesis using b by (simp add: num_items_def prints_def)
qed

section \<open>Resharding and leaving the prompt\<close>

text \<open>A new map goes to every stub, and the prompt keeps the old one for its own queries.\<close>

lemma shard_touch_get [simp]: "mapping_get j (shard_touch i m) = mapping_get j m"
  by (simp add: shard_touch_def mapping_get_def)

lemma shard_touches_get: "mapping_get j (fold (\<lambda>(i, c). shard_touch i) es m) = mapping_get j m"
  by (induction es arbitrary: m) auto

lemma reshard_get:
  "map_of (rev es) i = Some c \<Longrightarrow> shard_map (apply_reshard es n) i = c"
  unfolding apply_reshard_def by (induction es rule: rev_induct) (auto split: if_splits)

theorem reshard_leaves_prompt_behind:
  assumes "PrintReshard stubs k txns p = Some (Inr p')"
    and "Reshard k txns (p_shard_map p) num_items = Some (Inr new)"
  shows "p_sent p' = p_sent p @ map (\<lambda>(i, s). (i, reshard_update new)) stubs"
    and "HandleSetAlive (reshard_update new) n = Inr (apply_reshard new n)"
    and "mapping_get j (p_shard_map p') = mapping_get j (p_shard_map p)"
  using assms
  by (auto simp: PrintReshard_def Let_def prints_def HandleSetAlive_def reshard_update_def shard_touches_get)

text \<open>The prompt is left only on \<^verbatim>\<open>Continue\<close>: without it no input makes it return.\<close>

theorem prompt_left_on_continue:
  assumes "PromptUser trim split stubs k txns dur inputs p = Some (Inr p')"
  shows "\<exists>input rest. input \<in> set inputs \<and> split (trim input) = ''Continue'' # rest"
  using assms
proof (induction inputs arbitrary: p)
  case (Cons input inputs)
  then show ?case
    by (cases "split (trim input)") (fastforce split: if_splits option.splits sum.splits)+
qed simp

end
