(* ===== verification/Benchmark.thy ===== *)
theory Benchmark
  imports Complex_Main Launch
begin

text \<open>
  The workload generator (\<^verbatim>\<open>src/benchmark.h\<close>): sampling of accounts, the choice of a destination
  inside or outside the sender's shard, the list of transactions. The distributions of
  \<^verbatim>\<open>std::\<close> are the functions of a record over an abstract generator state; the properties
  rely only on the range of \<^verbatim>\<open>std::uniform_int_distribution\<close>. The loop that reflects a
  normally distributed value into range is a partial function, shown to return for two accounts
  or more. The statistics the generator prints are left out.
\<close>

section \<open>Definitions\<close>

record txn =
  t_isRead :: bool
  t_src :: int
  t_dst :: int
  t_amount :: int

text \<open>\<open>uniform_real\<close> draws from 0 to 1; \<open>normal_round\<close> is \<^verbatim>\<open>llround\<close> of a hot spot plus a
  normally distributed offset.\<close>

record 'r dists =
  uniform_int :: "int \<Rightarrow> int \<Rightarrow> 'r \<Rightarrow> int \<times> 'r"
  uniform_real :: "'r \<Rightarrow> real \<times> 'r"
  normal_round :: "int \<Rightarrow> real \<Rightarrow> 'r \<Rightarrow> int \<times> 'r"

definition dists_ok :: "'r dists \<Rightarrow> bool" where
  "dists_ok g \<longleftrightarrow>
     (\<forall>a b r. a \<le> b \<longrightarrow> a \<le> fst (uniform_int g a b r) \<and> fst (uniform_int g a b r) \<le> b)"

definition sample_uniform :: "'r dists \<Rightarrow> int \<Rightarrow> 'r \<Rightarrow> int \<times> 'r" where
  "sample_uniform g N r = (if N \<le> 1 then (0, r) else uniform_int g 0 (N - 1) r)"

text \<open>One turn of the reflection loop, and the loop.\<close>

definition reflect_once :: "int \<Rightarrow> int \<Rightarrow> int" where
  "reflect_once N val =
     (let v = (if val < 0 then - val else val) in if v \<ge> N then 2 * N - v - 2 else v)"

partial_function (option) reflect :: "int \<Rightarrow> int \<Rightarrow> int option" where
  "reflect N val = (if val < 0 \<or> val \<ge> N then reflect N (reflect_once N val) else Some val)"

definition sample_gaussian_centered ::
  "'r dists \<Rightarrow> int \<Rightarrow> int \<Rightarrow> real \<Rightarrow> 'r \<Rightarrow> (int \<times> 'r) option" where
  "sample_gaussian_centered g N hotspot sigma r =
     (if sigma \<le> 0 then Some (hotspot smod N, r)
      else let (val, r1) = normal_round g hotspot sigma r
           in map_option (\<lambda>v. (v, r1)) (reflect N val))"

definition choose_account ::
  "'r dists \<Rightarrow> int \<Rightarrow> real \<Rightarrow> int \<Rightarrow> 'r \<Rightarrow> (int \<times> 'r) option" where
  "choose_account g numAccounts skewness hotspot r =
     (let uniform = (\<lambda>r. let (u, r1) = sample_uniform g numAccounts r in Some (u + 1, r1));
          gaussian = (\<lambda>sigma r. map_option (\<lambda>(v, r1). (v + 1, r1))
                        (sample_gaussian_centered g numAccounts hotspot sigma r))
      in if numAccounts \<le> 1 then Some (1, r)
         else if skewness \<le> 0 then uniform r
         else if skewness \<ge> 1 then gaussian 1 r
         else
           let (p, r1) = uniform_real g r in
           if p > skewness then uniform r1
           else gaussian (max 1 (of_int numAccounts / 4 * (1 - skewness) * (1 - skewness))) r1)"

definition shard_size :: "int \<Rightarrow> int \<Rightarrow> int" where
  "shard_size numAccounts numShards = (numAccounts + numShards - 1) sdiv numShards"

definition getShard :: "int \<Rightarrow> int \<Rightarrow> int" where
  "getShard shardSize acct1based = (acct1based - 1) sdiv max 1 shardSize"

text \<open>The loop that draws a new destination, at most \<open>tries\<close> times, while the old one is not
  acceptable.\<close>

primrec redraw :: "'r dists \<Rightarrow> int \<Rightarrow> (int \<Rightarrow> bool) \<Rightarrow> nat \<Rightarrow> int \<Rightarrow> 'r \<Rightarrow> int \<times> 'r" where
  "redraw g N again 0 d r = (d, r)"
| "redraw g N again (Suc tries) d r =
     (if again d then let (u, r1) = sample_uniform g N r in redraw g N again tries (u + 1) r1
      else (d, r))"

definition pick_in_shard ::
  "'r dists \<Rightarrow> int \<Rightarrow> int \<Rightarrow> int \<Rightarrow> int \<Rightarrow> 'r \<Rightarrow> int \<times> 'r" where
  "pick_in_shard g numAccounts shardSize shard src r =
     (let start = shard * shardSize + 1;
          stop = min numAccounts (start + shardSize - 1)
      in if start \<le> stop
         then let (u, r1) = sample_uniform g (stop - start + 1) r in (u + start, r1)
         else (src, r))"

definition choose_dst ::
  "'r dists \<Rightarrow> int \<Rightarrow> int \<Rightarrow> bool \<Rightarrow> int \<Rightarrow> int \<Rightarrow> 'r \<Rightarrow> int \<times> 'r" where
  "choose_dst g numAccounts numShards forceCross src dst r =
     (let shardSize = shard_size numAccounts numShards;
          srcShard = getShard shardSize src
      in if forceCross then
           let (d, r1) = redraw g numAccounts (\<lambda>d. getShard shardSize d = srcShard) 4 dst r
           in if getShard shardSize d = srcShard
              then pick_in_shard g numAccounts shardSize ((srcShard + 1) smod numShards) src r1
              else (d, r1)
         else
           let (d, r1) = redraw g numAccounts (\<lambda>d. getShard shardSize d \<noteq> srcShard) 4 dst r
           in if getShard shardSize d \<noteq> srcShard
              then pick_in_shard g numAccounts shardSize srcShard src r1
              else (d, r1))"

text \<open>One transaction: the state is the list so far, the frequency table and the generator.\<close>

definition gen_txn ::
  "'r dists \<Rightarrow> int \<Rightarrow> int \<Rightarrow> real \<Rightarrow> real \<Rightarrow> real \<Rightarrow> int \<Rightarrow>
     txn list \<times> int cvec \<times> 'r \<Rightarrow> (exn + txn list \<times> int cvec \<times> 'r) option" where
  "gen_txn g numAccounts numShards readOnlyPct crossShardPct skewness hotspot s =
     (let (txns, freq, r) = s;
          (u1, r1) = uniform_real g r;
          (u2, r2) = uniform_real g r1;
          isRead = u1 < readOnlyPct;
          forceCross = u2 < crossShardPct
      in Option.bind (choose_account g numAccounts skewness hotspot r2) (\<lambda>(src, r3).
         Option.bind (choose_account g numAccounts skewness hotspot r3) (\<lambda>(dst, r4).
           let (d, r5) = (if isRead then (0, r4)
                          else choose_dst g numAccounts numShards forceCross src dst r4)
           in Some (bindE (bump (src - 1) 1 freq) (\<lambda>freq1.
                if isRead
                then Inr (txns @ [\<lparr>t_isRead = True, t_src = src, t_dst = 0, t_amount = 0\<rparr>], freq1, r5)
                else let (amount, r6) = uniform_int g 1 5 r5 in
                  Inr (txns @ [\<lparr>t_isRead = False, t_src = src, t_dst = d, t_amount = amount\<rparr>],
                       freq1, r6))))))"

primrec gen_loop ::
  "('s \<Rightarrow> (exn + 's) option) \<Rightarrow> nat \<Rightarrow> 's \<Rightarrow> (exn + 's) option" where
  "gen_loop body 0 s = Some (Inr s)"
| "gen_loop body (Suc n) s =
     (case body s of None \<Rightarrow> None | Some (Inl e) \<Rightarrow> Some (Inl e) | Some (Inr s1) \<Rightarrow> gen_loop body n s1)"

definition self_transfer :: "txn \<Rightarrow> bool" where
  "self_transfer t \<longleftrightarrow> \<not> t_isRead t \<and> t_src t = t_dst t"

definition generate_txns ::
  "'r dists \<Rightarrow> int \<Rightarrow> int \<Rightarrow> int \<Rightarrow> real \<Rightarrow> real \<Rightarrow> real \<Rightarrow> 'r \<Rightarrow> (exn + txn list) option" where
  "generate_txns g totalTxns numAccounts numShards readOnlyPct crossShardPct skewness r =
     (if numAccounts \<le> 0 then Some (Inr [])
      else
        let (hotspot, r1) = uniform_int g 1 (max 1 (numAccounts - 2)) r in
        map_option (\<lambda>res. bindE res (\<lambda>s. Inr (filter (\<lambda>t. \<not> self_transfer t) (fst s))))
          (gen_loop (gen_txn g numAccounts numShards readOnlyPct crossShardPct skewness hotspot)
             (nat totalTxns) ([], vec_fill numAccounts 0, r1)))"

section \<open>The reflection loop\<close>

text \<open>The loop on its own range: a turn lowers the absolute value, and keeps the value up to its
  sign and multiples of twice the width.\<close>

definition mirrored :: "int \<Rightarrow> int \<Rightarrow> int \<Rightarrow> bool" where
  "mirrored N v w \<longleftrightarrow> 2 * N - 2 dvd v - w \<or> 2 * N - 2 dvd v + w"

lemma mirrored_once: "mirrored N v (reflect_once N val) \<Longrightarrow> mirrored N v val"
proof -
  have flip: "(m::int) dvd v - (m - w) \<longleftrightarrow> m dvd v + w" "m dvd v + (m - w) \<longleftrightarrow> m dvd v - w" for m w
    by (metis add_diff_eq diff_diff_eq2 dvd_add_right_iff dvd_refl add.commute diff_add_eq
        dvd_add_left_iff diff_add_cancel)+
  assume "mirrored N v (reflect_once N val)"
  then show ?thesis
    using flip [of "2 * N - 2" val] flip [of "2 * N - 2" "- val"]
    by (auto simp: mirrored_def reflect_once_def Let_def algebra_simps split: if_splits)
qed

lemma reflect_once_less:
  assumes "2 \<le> N" and "val < 0 \<or> N \<le> val"
  shows "nat (2 * \<bar>reflect_once N val\<bar> + (if reflect_once N val < 0 then 1 else 0)) <
    nat (2 * \<bar>val\<bar> + (if val < 0 then 1 else 0))"
  using assms by (auto simp: reflect_once_def Let_def)

lemma reflect_returns:
  assumes "2 \<le> N"
  shows "\<exists>v. reflect N val = Some v \<and> 0 \<le> v \<and> v < N \<and> mirrored N v val"
proof (induction val rule: measure_induct_rule [where f = "\<lambda>val. nat (2 * \<bar>val\<bar> + (if val < 0 then 1 else 0))"])
  case (less val)
  show ?case
  proof (cases "val < 0 \<or> N \<le> val")
    case True
    with less [OF reflect_once_less [OF assms True]] show ?thesis
      by (subst reflect.simps) (auto dest: mirrored_once)
  next
    case False
    then show ?thesis by (subst reflect.simps) (simp add: mirrored_def)
  qed
qed

lemma reflect_returns_only:
  assumes "reflect N val = Some y"
  shows "2 \<le> N \<or> 0 \<le> val \<and> val < N"
proof (rule reflect.raw_induct [where P = "\<lambda>N val y. 2 \<le> N \<or> 0 \<le> val \<and> val < N", OF _ assms])
  fix f :: "int \<Rightarrow> int \<Rightarrow> int option" and N val y
  assume IH: "\<And>N val y. f N val = Some y \<Longrightarrow> 2 \<le> N \<or> 0 \<le> val \<and> val < N"
    and run: "(if val < 0 \<or> N \<le> val then f N (reflect_once N val) else Some val) = Some y"
  show "2 \<le> N \<or> 0 \<le> val \<and> val < N"
  proof (rule ccontr)
    assume out: "\<not> (2 \<le> N \<or> 0 \<le> val \<and> val < N)"
    then have "f N (reflect_once N val) = Some y" using run by (auto split: if_splits)
    from IH [OF this] out show False by (auto simp: reflect_once_def Let_def split: if_splits)
  qed
qed

text \<open>
  The loop that reflects a sample into the range of accounts returns exactly when there are
  two accounts or more, or the sample is in range already. What it returns is in range and, up to
  sign, congruent to the sample modulo twice the width, so no account is favoured at the edges. With
  one account and a sample out of range it never returns; the caller excludes that case.
\<close>

theorem reflection_returns_in_range:
  "((\<exists>v. reflect N val = Some v) \<longleftrightarrow> 2 \<le> N \<or> 0 \<le> val \<and> val < N) \<and>
   (\<forall>v. reflect N val = Some v \<longrightarrow>
      0 \<le> v \<and> v < N \<and> (2 * N - 2 dvd v - val \<or> 2 * N - 2 dvd v + val))"
proof (cases "2 \<le> N")
  case True
  obtain v where "reflect N val = Some v" "0 \<le> v" "v < N"
    "2 * N - 2 dvd v - val \<or> 2 * N - 2 dvd v + val"
    using reflect_returns [OF True, of val] unfolding mirrored_def by blast
  with True show ?thesis by simp
next
  case False
  have inside: "0 \<le> val \<and> val < N \<Longrightarrow> reflect N val = Some val"
    by (subst reflect.simps) (rule if_not_P, simp)
  show ?thesis
  proof (cases "0 \<le> val \<and> val < N")
    case True
    with inside show ?thesis by simp
  next
    case outside: False
    then have "reflect N val = None"
      using False reflect_returns_only [of N val] by (cases "reflect N val") blast+
    with False outside show ?thesis by simp
  qed
qed

theorem reflection_returns_in_range_witness:
  "reflect 9000 (- 3) = Some 3 \<and> (\<nexists>v. reflect 1 5 = Some v)"
proof -
  obtain v where v: "reflect 9000 (- 3) = Some v"
    using reflection_returns_in_range [of 9000 "- 3"] by auto
  then have "0 \<le> v" "v < 9000" and dvd: "(17998::int) dvd v + 3 \<or> (17998::int) dvd v - 3"
    using reflection_returns_in_range [of 9000 "- 3"] by simp_all
  from dvd have "v = 3"
  proof
    assume "17998 dvd v + 3"
    with zdvd_imp_le [of 17998 "v + 3"] \<open>0 \<le> v\<close> \<open>v < 9000\<close> show "v = 3" by simp
  next
    assume "17998 dvd v - 3"
    then have "17998 dvd 3 - v" by (simp add: dvd_diff_commute)
    show "v = 3"
    proof (rule ccontr)
      assume "v \<noteq> 3"
      then consider "0 < v - 3" | "0 < 3 - v" by linarith
      then show False
        using zdvd_imp_le [of 17998 "v - 3"] zdvd_imp_le [of 17998 "3 - v"]
          \<open>17998 dvd v - 3\<close> \<open>17998 dvd 3 - v\<close> \<open>0 \<le> v\<close> \<open>v < 9000\<close> by cases simp_all
    qed
  qed
  with v reflection_returns_in_range [of 1 5] show ?thesis by simp
qed

section \<open>The generated workload\<close>

lemma sample_uniform_range:
  assumes "dists_ok g" and "1 \<le> N"
  shows "0 \<le> fst (sample_uniform g N r)" "fst (sample_uniform g N r) < N"
  using assms by (auto simp: sample_uniform_def dists_ok_def zle_diff1_eq [symmetric] simp del: zle_diff1_eq)

lemma gaussian_range:
  assumes "2 \<le> N" and "0 < sigma"
  obtains v r' where "sample_gaussian_centered g N h sigma r = Some (v, r')" "0 \<le> v" "v < N"
proof -
  obtain val r1 where n: "normal_round g h sigma r = (val, r1)" by fastforce
  obtain v where "reflect N val = Some v" "0 \<le> v" "v < N"
    using reflect_returns [OF assms(1)] by blast
  with n assms(2) show ?thesis using that by (simp add: sample_gaussian_centered_def)
qed

lemma choose_account_range:
  assumes "dists_ok g" and "1 \<le> N"
  obtains a r' where "choose_account g N skew h r = Some (a, r')" "1 \<le> a" "a \<le> N"
proof -
  have uni: "\<exists>a r'. (case sample_uniform g N r of (u, r1) \<Rightarrow> Some (u + 1, r1)) = Some (a, r') \<and>
      1 \<le> a \<and> a \<le> N" for r
    using sample_uniform_range [OF assms, of r] by (auto split: prod.split)
  have gau: "\<exists>a r'. map_option (\<lambda>(v, r1). (v + 1, r1)) (sample_gaussian_centered g N h sigma r) =
      Some (a, r') \<and> 1 \<le> a \<and> a \<le> N" if s: "2 \<le> N" "0 < sigma" for sigma r
  proof -
    obtain v r' where "sample_gaussian_centered g N h sigma r = Some (v, r')" "0 \<le> v" "v < N"
      using gaussian_range [OF s] .
    then show ?thesis by simp
  qed
  have "\<exists>a r'. choose_account g N skew h r = Some (a, r') \<and> 1 \<le> a \<and> a \<le> N"
    using uni gau assms(2) by (cases "uniform_real g r") (simp add: choose_account_def Let_def)
  with that show ?thesis by blast
qed

lemma redraw_range:
  assumes "dists_ok g" and "1 \<le> N"
  shows "1 \<le> d \<Longrightarrow> d \<le> N \<Longrightarrow>
    1 \<le> fst (redraw g N again n d r) \<and> fst (redraw g N again n d r) \<le> N"
proof (induction n arbitrary: d r)
  case (Suc n)
  then show ?case using sample_uniform_range [OF assms, of r] by (auto split: prod.split)
qed simp

lemma shard_size_pos: "1 \<le> N \<Longrightarrow> 1 \<le> k \<Longrightarrow> 1 \<le> shard_size N k"
  using zdiv_mono1 [of k "N + k - 1" k] by (simp add: shard_size_def)

lemma shard_size_covers:
  assumes "1 \<le> N" and "1 \<le> k"
  shows "N \<le> k * shard_size N k"
proof -
  have "k * ((N + k - 1) div k) = N + k - 1 - (N + k - 1) mod k"
    by (simp add: minus_mod_eq_mult_div)
  moreover have "(N + k - 1) mod k < k" using assms(2) by (intro pos_mod_bound) simp
  moreover have "shard_size N k = (N + k - 1) div k" using assms by (simp add: shard_size_def)
  ultimately show ?thesis by simp
qed

lemma getShard_iff:
  assumes "1 \<le> S" and "1 \<le> a"
  shows "getShard S a = q \<longleftrightarrow> q * S + 1 \<le> a \<and> a \<le> (q + 1) * S"
proof -
  have "getShard S a = (a - 1) div S" using assms by (simp add: getShard_def)
  then show ?thesis using assms div_eq_iff_between [of S "a - 1" q] by auto
qed

lemma int_div_less_mult:
  assumes "0 < (d::int)" and "x < k * d"
  shows "x div d < k"
proof (rule ccontr)
  assume "\<not> x div d < k"
  then have "k * d \<le> x div d * d" using assms(1) by simp
  also have "\<dots> \<le> x" using assms(1) by (metis div_mult_mod_eq le_add_same_cancel1 pos_mod_sign)
  finally show False using assms(2) by simp
qed

lemma getShard_range:
  assumes "1 \<le> N" "1 \<le> k" "1 \<le> a" "a \<le> N"
  shows "0 \<le> getShard (shard_size N k) a" "getShard (shard_size N k) a < k"
proof -
  let ?S = "shard_size N k"
  have S: "1 \<le> ?S" using assms(1,2) by (rule shard_size_pos)
  then have g: "getShard ?S a = (a - 1) div ?S" using assms by (simp add: getShard_def)
  show "0 \<le> getShard ?S a" using S assms by (simp add: g pos_imp_zdiv_nonneg_iff)
  have "a - 1 < k * ?S" using shard_size_covers [OF assms(1,2)] assms(4) by simp
  then show "getShard ?S a < k" using S by (simp add: g int_div_less_mult)
qed

lemma pick_in_shard_range:
  assumes g: "dists_ok g" and S: "1 \<le> S" and "0 \<le> q" "1 \<le> src" "src \<le> N"
  shows "1 \<le> fst (pick_in_shard g N S q src r)" "fst (pick_in_shard g N S q src r) \<le> N"
    and "q * S < N \<Longrightarrow> getShard S (fst (pick_in_shard g N S q src r)) = q"
    and "\<not> q * S < N \<Longrightarrow> fst (pick_in_shard g N S q src r) = src"
proof -
  define d where "d = fst (pick_in_shard g N S q src r)"
  have qS: "0 \<le> q * S" using assms by simp
  have in_shard: "q * S + 1 \<le> d \<and> d \<le> N \<and> d \<le> (q + 1) * S" if "q * S < N"
  proof -
    let ?w = "min N ((q + 1) * S) - q * S"
    have "1 \<le> ?w" using that S by (simp add: algebra_simps)
    from sample_uniform_range [OF g this, of r] that S show ?thesis
      by (simp add: d_def pick_in_shard_def Let_def case_prod_unfold algebra_simps)
  qed
  have out: "d = src" if "\<not> q * S < N"
    using that by (simp add: d_def pick_in_shard_def Let_def)
  show "1 \<le> fst (pick_in_shard g N S q src r)" "fst (pick_in_shard g N S q src r) \<le> N"
    using in_shard out qS assms(4,5) unfolding d_def [symmetric] by (cases "q * S < N"; simp)+
  show "q * S < N \<Longrightarrow> getShard S (fst (pick_in_shard g N S q src r)) = q"
    using in_shard qS getShard_iff [OF S, of d q] unfolding d_def [symmetric] by simp
  show "\<not> q * S < N \<Longrightarrow> fst (pick_in_shard g N S q src r) = src"
    using out unfolding d_def [symmetric] .
qed

lemma choose_dst_cases:
  assumes S_def: "S = shard_size N k" and g: "dists_ok g" and N: "1 \<le> N" and k: "1 \<le> k"
    and src: "1 \<le> src" "src \<le> N" and dst: "1 \<le> dst" "dst \<le> N"
  shows "1 \<le> fst (choose_dst g N k force src dst r)" "fst (choose_dst g N k force src dst r) \<le> N"
    and "\<not> force \<Longrightarrow> getShard S (fst (choose_dst g N k force src dst r)) = getShard S src"
    and "force \<Longrightarrow> 2 \<le> k \<Longrightarrow> ((getShard S src + 1) mod k) * S < N \<Longrightarrow>
      getShard S (fst (choose_dst g N k force src dst r)) \<noteq> getShard S src"
proof -
  define q where "q = getShard S src"
  have S: "1 \<le> S" using shard_size_pos [OF N k] by (simp add: S_def)
  have q: "0 \<le> q" "q < k" using getShard_range [OF N k src] by (simp_all add: q_def S_def)
  have t: "(q + 1) smod k = (q + 1) mod k" "0 \<le> (q + 1) mod k" using q k by simp_all
  have here: "q * S < N" using src S getShard_iff [OF S, of src q] by (simp add: q_def)
  have ne: "(q + 1) mod k \<noteq> q" if "2 \<le> k"
    using that q by (cases "q + 1 = k") simp_all
  note rd = redraw_range [OF g N dst]
  note pick = pick_in_shard_range [OF g S _ src]
  note unf = choose_dst_def Let_def case_prod_unfold S_def [symmetric] q_def [symmetric] t(1)
  show "1 \<le> fst (choose_dst g N k force src dst r)" "fst (choose_dst g N k force src dst r) \<le> N"
    using rd pick(1,2) t(2) q(1) by (simp_all add: unf)
  show "\<not> force \<Longrightarrow> getShard S (fst (choose_dst g N k force src dst r)) = getShard S src"
    using pick(3) [OF q(1) here] by (simp add: unf)
  show "force \<Longrightarrow> 2 \<le> k \<Longrightarrow> ((getShard S src + 1) mod k) * S < N \<Longrightarrow>
      getShard S (fst (choose_dst g N k force src dst r)) \<noteq> getShard S src"
    using pick(3) [OF t(2)] ne by (simp add: unf)
qed

definition txn_ok :: "int \<Rightarrow> txn \<Rightarrow> bool" where
  "txn_ok N t \<longleftrightarrow> 1 \<le> t_src t \<and> t_src t \<le> N \<and>
     (if t_isRead t then t_dst t = 0 \<and> t_amount t = 0
      else 1 \<le> t_dst t \<and> t_dst t \<le> N \<and> 1 \<le> t_amount t \<and> t_amount t \<le> 5)"

lemma gen_txn_ok:
  assumes g: "dists_ok g" and N: "1 \<le> N" and k: "1 \<le> k" and "vsize freq = N"
  obtains t freq' r' where
    "gen_txn g N k p c skew h (txns, freq, r) = Some (Inr (txns @ [t], freq', r'))"
    "txn_ok N t" "vsize freq' = N"
proof -
  obtain u1 r1 u2 r2 where u: "uniform_real g r = (u1, r1)" "uniform_real g r1 = (u2, r2)"
    by fastforce
  obtain src r3 where src: "choose_account g N skew h r2 = Some (src, r3)" "1 \<le> src" "src \<le> N"
    using choose_account_range [OF g N] .
  obtain dst r4 where dst: "choose_account g N skew h r3 = Some (dst, r4)" "1 \<le> dst" "dst \<le> N"
    using choose_account_range [OF g N] .
  obtain d r5 where d: "choose_dst g N k (u2 < c) src dst r4 = (d, r5)" by fastforce
  have d_in: "1 \<le> d" "d \<le> N"
    using choose_dst_cases(1,2) [OF refl g N k src(2,3) dst(2,3), of "u2 < c" r4] by (simp_all add: d)
  obtain amt r6 where a: "uniform_int g 1 5 r5 = (amt, r6)" by fastforce
  have amt: "1 \<le> amt" "amt \<le> 5"
    using g a unfolding dists_ok_def by (metis fst_conv one_le_numeral)+
  obtain freq' where freq: "bump (src - 1) 1 freq = Inr freq'" "vsize freq' = N"
    using assms(4) src(2,3) by (simp add: bump_def)
  define t where "t = (if u1 < p then \<lparr>t_isRead = True, t_src = src, t_dst = 0, t_amount = 0\<rparr>
    else \<lparr>t_isRead = False, t_src = src, t_dst = d, t_amount = amt\<rparr>)"
  have "gen_txn g N k p c skew h (txns, freq, r) =
      Some (Inr (txns @ [t], freq', if u1 < p then r4 else r6))"
    using u src(1) dst(1) d a freq(1) by (simp add: gen_txn_def Let_def t_def)
  moreover have "txn_ok N t" using src(2,3) d_in amt by (simp add: t_def txn_ok_def)
  ultimately show ?thesis using that freq(2) by blast
qed

lemma gen_loop_ok:
  assumes "dists_ok g" "1 \<le> N" "1 \<le> k" and "vsize freq = N" and "list_all (txn_ok N) txns"
  shows "\<exists>ts freq' r'. gen_loop (gen_txn g N k p c skew h) n (txns, freq, r) = Some (Inr (ts, freq', r')) \<and>
    length ts = length txns + n \<and> list_all (txn_ok N) ts"
  using assms(4,5)
proof (induction n arbitrary: txns freq r)
  case (Suc n)
  obtain t freq' r' where
    "gen_txn g N k p c skew h (txns, freq, r) = Some (Inr (txns @ [t], freq', r'))"
    "txn_ok N t" "vsize freq' = N"
    using gen_txn_ok [OF assms(1-3) Suc.prems(1)] .
  with Suc.IH [of freq' "txns @ [t]" r'] Suc.prems show ?case by simp
qed simp

text \<open>
  C40: the generator returns, without an access outside its frequency table, at most the number of
  transactions asked for. Every one has a sender among the accounts; a read has no receiver and no
  amount; a transfer has another account as receiver and an amount from 1 to 5.
\<close>

theorem generated_workload_valid:
  assumes "dists_ok g" and "1 \<le> N" and "1 \<le> k"
  shows "\<exists>ts. generate_txns g n N k p c skew r = Some (Inr ts) \<and> length ts \<le> nat n \<and>
    (\<forall>t\<in>set ts. 1 \<le> t_src t \<and> t_src t \<le> N \<and>
      (if t_isRead t then t_dst t = 0 \<and> t_amount t = 0
       else 1 \<le> t_dst t \<and> t_dst t \<le> N \<and> t_dst t \<noteq> t_src t \<and> 1 \<le> t_amount t \<and> t_amount t \<le> 5))"
proof -
  obtain h r1 where h: "uniform_int g 1 (max 1 (N - 2)) r = (h, r1)" by fastforce
  obtain ts freq' r' where
    run: "gen_loop (gen_txn g N k p c skew h) (nat n) ([], vec_fill N 0, r1) = Some (Inr (ts, freq', r'))"
    and ts: "length ts = nat n" "list_all (txn_ok N) ts"
    using gen_loop_ok [OF assms, of "vec_fill N 0" "[]" p c skew h "nat n" r1] by auto
  have "generate_txns g n N k p c skew r = Some (Inr (filter (\<lambda>t. \<not> self_transfer t) ts))"
    using assms(2) by (simp add: generate_txns_def h run)
  moreover have "length (filter (\<lambda>t. \<not> self_transfer t) ts) \<le> nat n"
    using length_filter_le [of _ ts] ts(1) by metis
  ultimately show ?thesis
    using ts(2) by (auto simp: list_all_iff txn_ok_def self_transfer_def)
qed

definition demo_dists :: "int dists" where
  "demo_dists = \<lparr>uniform_int = (\<lambda>a b r. (if b < a then a else a + r mod (b - a + 1), r + 7)),
     uniform_real = (\<lambda>r. (of_int (r mod 10) / 10, r + 7)),
     normal_round = (\<lambda>h sigma r. (h + r, r + 7))\<rparr>"

lemma demo_dists_ok: "dists_ok demo_dists"
  unfolding dists_ok_def
proof (intro allI impI)
  fix a b r :: int
  assume "a \<le> b"
  then have "0 \<le> r mod (b - a + 1)" "r mod (b - a + 1) \<le> b - a"
    using pos_mod_bound [of "b - a + 1" r] by simp_all
  with \<open>a \<le> b\<close> show "a \<le> fst (uniform_int demo_dists a b r) \<and> fst (uniform_int demo_dists a b r) \<le> b"
    by (simp add: demo_dists_def)
qed

theorem generated_workload_valid_witness:
  "\<exists>ts. generate_txns demo_dists 50 9000 3 0 (1/2) (1/2) 0 = Some (Inr ts) \<and> length ts \<le> 50 \<and>
     list_all (\<lambda>t. 1 \<le> t_src t \<and> t_src t \<le> 9000) ts"
  using generated_workload_valid [OF demo_dists_ok, of 9000 3 50 0 "1/2" "1/2" 0]
  by (auto simp: list_all_iff)

section \<open>The workload and the deployment\<close>

lemma shard_size_exact:
  assumes "1 \<le> k" and "k dvd N" and "1 \<le> N"
  shows "shard_size N k = N div k" and "k * shard_size N k = N"
proof -
  obtain m where m: "N = k * m" using assms(2) by blast
  have "(k * m + (k - 1)) div k = m" using assms(1) by (subst div_mult_self4) simp_all
  then show "shard_size N k = N div k" using assms by (simp add: shard_size_def m add_diff_eq)
  then show "k * shard_size N k = N" using assms(1) by (simp add: m)
qed

lemma shard_is_cluster:
  assumes "1 \<le> k" "k dvd N" "1 \<le> N" "1 \<le> a" "a \<le> N"
  shows "map_of (MakeShardMap N k) a = Some (getShard (shard_size N k) a + 1)"
proof -
  define q where "q = getShard (shard_size N k) a"
  have S: "1 \<le> shard_size N k" using shard_size_pos assms by blast
  have q: "0 \<le> q" "q < k" using getShard_range [of N k a] assms by (simp_all add: q_def)
  have "q * shard_size N k + 1 \<le> a" "a \<le> (q + 1) * shard_size N k"
    using getShard_iff [OF S assms(4), of q] by (simp_all add: q_def)
  with q assms show ?thesis
    unfolding q_def [symmetric]
    by (simp add: MakeShardMap_iff(1) first_item_def shard_size_exact(1) algebra_simps)
qed

text \<open>
  The share of cross-shard transfers is what it says, in the shards the nodes use. When the
  accounts divide evenly over the shards and there are at least two, the destination chosen for a
  transfer is an account of another cluster of the launcher's shard map exactly when the
  transfer was drawn as a cross-shard one.
\<close>

theorem cross_share_matches_deployment:
  assumes "dists_ok g" and "2 \<le> k" and "k dvd N" and "1 \<le> N"
    and "1 \<le> src" "src \<le> N" and "1 \<le> dst" "dst \<le> N"
  shows "map_of (MakeShardMap N k) (fst (choose_dst g N k force src dst r)) \<noteq>
      map_of (MakeShardMap N k) src \<longleftrightarrow> force"
proof -
  let ?S = "shard_size N k" and ?d = "fst (choose_dst g N k force src dst r)"
  have k: "1 \<le> k" using assms(2) by simp
  note dst = choose_dst_cases [OF refl assms(1,4) k assms(5-8), of force r]
  have "((getShard ?S src + 1) mod k) * ?S < k * ?S"
    using k shard_size_pos [OF assms(4) k] by (intro mult_strict_right_mono) simp_all
  then have room: "((getShard ?S src + 1) mod k) * ?S < N"
    by (simp add: shard_size_exact(2) [OF k assms(3,4)])
  have "getShard ?S ?d \<noteq> getShard ?S src \<longleftrightarrow> force"
    using dst(3) dst(4) [OF _ assms(2) room] by blast
  then show ?thesis
    using shard_is_cluster [OF k assms(3,4)] dst(1,2) assms(5,6) by simp
qed

theorem cross_share_matches_deployment_witness:
  "map_of (MakeShardMap 9000 3) (fst (choose_dst demo_dists 9000 3 True 5 7 0)) \<noteq>
     map_of (MakeShardMap 9000 3) 5 \<and>
   map_of (MakeShardMap 9000 3) (fst (choose_dst demo_dists 9000 3 False 5 8000 0)) =
     map_of (MakeShardMap 9000 3) 5"
  using cross_share_matches_deployment [OF demo_dists_ok, of 3 9000 5 7 True 0]
    cross_share_matches_deployment [OF demo_dists_ok, of 3 9000 5 8000 False 0] by simp

end
