(* ===== verification/Driver.thy ===== *)
theory Driver
  imports Benchmark CppStrings
begin

text \<open>
  The driver of a test (\<^verbatim>\<open>src/node_launch.cpp\<close>, the read loop of \<^verbatim>\<open>main\<close>) and the file
  writer of the workload generator. The driver reads a CSV file line by line, parses the set
  number, the transaction and the live nodes, and turns a row into updates for the nodes and
  requests for the client; what it does is the list \<open>trace\<close>. \<^verbatim>\<open>boost::tokenizer\<close> and
  \<^verbatim>\<open>boost::algorithm::trim\<close> are the parameters \<open>tok\<close> and \<open>trim\<close>. Waiting for
  outstanding replies and the prompt are single events of the trace.
\<close>

section \<open>Writing the file\<close>

definition nl :: char where "nl = CHR 0x0A"
definition dquote :: char where "dquote = CHR 0x22"

definition csv_txn :: "txn \<Rightarrow> string" where
  "csv_txn t =
     (if t_isRead t then ''('' @ to_string (t_src t) @ '')''
      else ''('' @ to_string (t_src t) @ '', '' @ to_string (t_dst t) @ '', '' @
           to_string (t_amount t) @ '')'')"

fun csv_nodes :: "string list \<Rightarrow> string" where
  "csv_nodes [] = []"
| "csv_nodes [n] = n"
| "csv_nodes (n # ns) = n @ '', '' @ csv_nodes ns"

definition csv_first :: "txn list \<Rightarrow> string list \<Rightarrow> string" where
  "csv_first txns liveNodes =
     (if txns = [] then ''1,'' @ [dquote, dquote] @ '','' @ [dquote] @ ''[''
      else ''1,'' @ [dquote] @ csv_txn (hd txns) @ [dquote] @ '','' @ [dquote] @ ''['') @
     csv_nodes liveNodes @ '']'' @ [dquote]"

definition csv_row :: "txn \<Rightarrow> string" where
  "csv_row t = '','' @ [dquote] @ csv_txn t @ [dquote] @ '',''"

definition csv_header :: string where
  "csv_header = ''Set Number,Transactions,Live Nodes''"

definition write_csv :: "txn list \<Rightarrow> string list \<Rightarrow> string" where
  "write_csv txns liveNodes =
     csv_header @ [nl] @ csv_first txns liveNodes @ [nl] @
     concat (map (\<lambda>t. csv_row t @ [nl]) (tl txns))"

section \<open>Parsing\<close>

text \<open>\<^verbatim>\<open>std::getline\<close> with a delimiter, until the end of the stream.\<close>

fun getlines :: "char \<Rightarrow> string \<Rightarrow> string list" where
  "getlines c [] = []"
| "getlines c (x # s) =
     (if x = c then [] # getlines c s
      else case getlines c s of [] \<Rightarrow> [[x]] | l # ls \<Rightarrow> (x # l) # ls)"

text \<open>\<^verbatim>\<open>sscanf\<close> for the two formats used: the result is the list of converted values. A value
  that does not fit an \<^verbatim>\<open>int\<close> is undefined behaviour.\<close>

datatype fmt = Lit char | Blank | Dec

definition scan_int :: "string \<Rightarrow> exn + (int \<times> string) option" where
  "scan_int s =
     (let t = dropWhile is_space s;
          neg = (t \<noteq> [] \<and> hd t = CHR ''-'');
          u = (if t \<noteq> [] \<and> (hd t = CHR ''-'' \<or> hd t = CHR ''+'') then tl t else t);
          ds = takeWhile is_digit u;
          v = (if neg then - digits_val ds else digits_val ds)
      in if ds = [] then Inr None
         else if v < int_min \<or> int_max < v then Inl OutOfRange
         else Inr (Some (v, dropWhile is_digit u)))"

fun sscanf :: "string \<Rightarrow> fmt list \<Rightarrow> exn + int list" where
  "sscanf s [] = Inr []"
| "sscanf s (Lit c # f) = (if s \<noteq> [] \<and> hd s = c then sscanf (tl s) f else Inr [])"
| "sscanf s (Blank # f) = sscanf (dropWhile is_space s) f"
| "sscanf s (Dec # f) =
     bindE (scan_int s) (\<lambda>o1. case o1 of
       None \<Rightarrow> Inr []
     | Some (v, s1) \<Rightarrow> bindE (sscanf s1 f) (\<lambda>vs. Inr (v # vs)))"

definition fmt_transfer :: "fmt list" where
  "fmt_transfer = [Lit (CHR ''(''), Dec, Lit (CHR '',''), Blank, Dec, Lit (CHR '',''), Blank, Dec,
     Lit (CHR '')'')]"

definition fmt_single :: "fmt list" where
  "fmt_single = [Lit (CHR ''(''), Dec, Lit (CHR '')'')]"

definition c_str :: "string \<Rightarrow> string" where
  "c_str s = takeWhile (\<lambda>c. c \<noteq> CHR 0x00) s"

datatype command =
    FailNode int
  | RecoverNode int
  | Transaction int int int bool  \<comment> \<open>\<^verbatim>\<open>from_c\<close>, \<^verbatim>\<open>to_c\<close>, \<^verbatim>\<open>amount\<close>, \<^verbatim>\<open>read_only\<close>\<close>
  | Unparsed

text \<open>The number between \<^verbatim>\<open>n\<close> and the closing parenthesis; without an \<^verbatim>\<open>n\<close> both
  searches give \<^verbatim>\<open>npos\<close> and the whole string is parsed.\<close>

definition node_number :: "string \<Rightarrow> exn + int" where
  "node_number s =
     stoi (if CHR ''n'' \<in> set s
           then takeWhile (\<lambda>c. c \<noteq> CHR '')'') (tl (dropWhile (\<lambda>c. c \<noteq> CHR ''n'') s))
           else s)"

definition parse_transaction :: "(string \<Rightarrow> string) \<Rightarrow> string \<Rightarrow> exn + command" where
  "parse_transaction trim s =
     (if s \<noteq> [] \<and> hd s = CHR ''F'' then bindE (node_number s) (\<lambda>i. Inr (FailNode i))
      else if s \<noteq> [] \<and> hd s = CHR ''R'' then bindE (node_number s) (\<lambda>i. Inr (RecoverNode i))
      else
        let t = c_str (trim s) in
        bindE (sscanf t fmt_transfer) (\<lambda>vs.
          if length vs = 3 then Inr (Transaction (vs ! 0) (vs ! 1) (vs ! 2) False)
          else bindE (sscanf t fmt_single) (\<lambda>ws.
            if length ws = 1 then Inr (Transaction (ws ! 0) (- 1) (- 1) True)
            else Inr Unparsed)))"

definition trim_ws :: "string \<Rightarrow> string" where
  "trim_ws s =
     (let ws = (\<lambda>c. c = CHR '' '' \<or> c = CHR 0x09 \<or> c = CHR 0x0A \<or> c = CHR 0x0D)
      in rev (dropWhile ws (rev (dropWhile ws s))))"

definition add_active :: "string \<Rightarrow> int set \<Rightarrow> int set" where
  "add_active s active =
     (let t = trim_ws s in
      if length t > 1 \<and> hd t = CHR ''n''
      then (case stoi (tl t) of Inl e \<Rightarrow> active | Inr i \<Rightarrow> insert i active)
      else active)"

definition parse_active :: "string \<Rightarrow> int set \<Rightarrow> int set" where
  "parse_active nodes_str active =
     (if nodes_str \<noteq> [] \<and> hd nodes_str = CHR ''['' \<and> last nodes_str = CHR '']''
      then fold add_active (getlines (CHR '','') (butlast (tl nodes_str))) active
      else active)"

section \<open>The read loop\<close>

datatype driver_event =
    WaitForReplies
  | AliveUpdates "(int \<times> alive_update_request) list"
  | Prompt
  | ResetLeaders
  | Submit client_request

record driver =
  current_set_number :: int
  active_nodes_set :: "int set"
  num :: int
  transactions_processed :: "(int \<times> int) list"
  trace :: "driver_event list"

definition driver_init :: driver where
  "driver_init = \<lparr>current_set_number = 0, active_nodes_set = {}, num = 0,
     transactions_processed = [], trace = []\<rparr>"

definition happen :: "driver_event \<Rightarrow> driver \<Rightarrow> driver" where
  "happen e d = d\<lparr>trace := trace d @ [e]\<rparr>"

definition between_sets :: "int list \<Rightarrow> driver \<Rightarrow> exn + driver" where
  "between_sets stubs d =
     bindE (SendAliveUpdateAsync {} stubs False False (- 1) True False) (\<lambda>us.
       Inr ((happen ResetLeaders (happen Prompt (happen (AliveUpdates us) (happen WaitForReplies d))))
             \<lparr>transactions_processed := []\<rparr>))"

definition new_request :: "int \<Rightarrow> int \<Rightarrow> int \<Rightarrow> bool \<Rightarrow> int \<Rightarrow> client_request" where
  "new_request from_c to_c amount read_only ts =
     no_request\<lparr>cr_from_account := to_string from_c, cr_to_account := to_string to_c,
       cr_amount := amount, cr_timestamp := ts, cr_read_only := read_only\<rparr>"

definition StartClientRequests :: "int list \<Rightarrow> bool \<Rightarrow> client_request \<Rightarrow> driver \<Rightarrow> exn + driver" where
  "StartClientRequests stubs set_num_empty req d =
     (if \<not> set_num_empty then
        bindE (SendAliveUpdateAsync (active_nodes_set d) stubs False False (- 1) False True) (\<lambda>us.
          Inr (happen (Submit req) (happen (AliveUpdates us) d)))
      else Inr (happen (Submit req) d))"

definition modify_node :: "int list \<Rightarrow> bool \<Rightarrow> bool \<Rightarrow> int \<Rightarrow> driver \<Rightarrow> exn + driver" where
  "modify_node stubs leader_fail recover i d =
     bindE (SendAliveUpdateAsync (active_nodes_set d) stubs leader_fail recover i False False) (\<lambda>us.
       Inr (happen (AliveUpdates us) (happen WaitForReplies d)))"

definition run_command ::
  "(string \<Rightarrow> string) \<Rightarrow> int list \<Rightarrow> bool \<Rightarrow> string \<Rightarrow> command \<Rightarrow> driver \<Rightarrow> exn + driver" where
  "run_command trim stubs set_num_empty nodes_field cmd d =
     (case cmd of
        FailNode i \<Rightarrow> modify_node stubs True False i d
      | RecoverNode i \<Rightarrow> modify_node stubs False True i d
      | Unparsed \<Rightarrow> Inr d
      | Transaction from_c to_c amount read_only \<Rightarrow>
          let req = new_request from_c to_c amount read_only (num d);
              d1 = d\<lparr>active_nodes_set := parse_active (trim nodes_field) (active_nodes_set d),
                     num := num d + 1,
                     transactions_processed := transactions_processed d @ [(from_c, to_c)]\<rparr>
          in StartClientRequests stubs set_num_empty req d1)"

definition run_fields ::
  "(string \<Rightarrow> string) \<Rightarrow> int list \<Rightarrow> string list \<Rightarrow> driver \<Rightarrow> exn + driver" where
  "run_fields trim stubs fs d =
     (let set_num_empty = (fs ! 0 = []) in
      bindE (if \<not> set_num_empty \<and> current_set_number d \<noteq> 0 then between_sets stubs d else Inr d) (\<lambda>d1.
      bindE (if \<not> set_num_empty
             then bindE (stoi (fs ! 0)) (\<lambda>n.
               Inr (d1\<lparr>current_set_number := n, active_nodes_set := {}\<rparr>))
             else Inr d1) (\<lambda>d2.
      bindE (parse_transaction trim (fs ! 1)) (\<lambda>cmd.
        run_command trim stubs set_num_empty (fs ! 2) cmd d2))))"

definition run_line ::
  "(string \<Rightarrow> exn + string list) \<Rightarrow> (string \<Rightarrow> string) \<Rightarrow> int list \<Rightarrow> string \<Rightarrow> driver \<Rightarrow> exn + driver" where
  "run_line tok trim stubs line d =
     (if line = [] \<or> hd line = CHR ''S'' then Inr d
      else bindE (tok line) (\<lambda>fs.
        if length fs \<noteq> 3 then Inr d else run_fields trim stubs fs d))"

definition finish_run :: "int list \<Rightarrow> driver \<Rightarrow> exn + driver" where
  "finish_run stubs d =
     bindE (SendAliveUpdateAsync {} stubs False False (- 1) False False) (\<lambda>us.
       Inr (happen Prompt (happen (AliveUpdates us) (happen WaitForReplies d))))"

definition run_file ::
  "(string \<Rightarrow> exn + string list) \<Rightarrow> (string \<Rightarrow> string) \<Rightarrow> int list \<Rightarrow> string \<Rightarrow> exn + driver" where
  "run_file tok trim stubs text =
     bindE (foldE (run_line tok trim stubs) (getlines nl text) driver_init) (finish_run stubs)"

section \<open>Texts the driver reads back\<close>

lemma getlines_line:
  "c \<notin> set l \<Longrightarrow> getlines c (l @ c # s) = l # getlines c s"
  by (induction l) auto

lemma getlines_last: "c \<notin> set l \<Longrightarrow> l \<noteq> [] \<Longrightarrow> getlines c l = [l]"
proof (induction l)
  case (Cons x l)
  then show ?case by (cases l) auto
qed simp

lemma getlines_lines:
  "\<forall>l\<in>set ls. c \<notin> set l \<Longrightarrow> getlines c (concat (map (\<lambda>l. l @ [c]) ls)) = ls"
  by (induction ls) (simp_all add: getlines_line)

lemma to_string_chars: "c \<in> set (to_string i) \<Longrightarrow> is_digit c \<or> c = CHR ''-''"
  using nat_digits_all by (auto simp: to_string_def list_all_iff split: if_splits)

lemma to_string_clean:
  assumes "c \<in> set (to_string i)"
  shows "c \<noteq> nl \<and> c \<noteq> dquote \<and> c \<noteq> CHR '','' \<and> c \<noteq> CHR 0x5C \<and> c \<noteq> CHR 0x00 \<and> c \<noteq> CHR '')'' \<and>
    \<not> is_space c"
  using to_string_chars [OF assms]
  by (auto simp: is_digit_def is_space_def nl_def dquote_def)

lemma to_string_ne: "to_string i \<noteq> []"
  by (simp add: to_string_def nat_digits_ne)

lemma scan_int_to_string:
  assumes "int_min \<le> i" "i \<le> int_max" and "\<not> is_digit (hd s)" "s \<noteq> []"
  shows "scan_int (to_string i @ s) = Inr (Some (i, s))"
proof -
  let ?d = "nat_digits (nat \<bar>i\<bar>)"
  have w: "takeWhile is_digit (?d @ s) = ?d" "dropWhile is_digit (?d @ s) = s"
    using nat_digits_all [of "nat \<bar>i\<bar>"] assms(3,4)
    by (cases s; simp add: takeWhile_append dropWhile_append list_all_iff)+
  have v: "digits_val ?d = \<bar>i\<bar>" by (simp add: digits_val_nat_digits)
  obtain c cs where d: "?d = c # cs" "is_digit c"
    using nat_digits_ne hd_nat_digits by (metis list.exhaust_sel)
  show ?thesis
  proof (cases "i < 0")
    case True
    then show ?thesis using assms(1,2) w v nat_digits_ne
      by (simp add: scan_int_def to_string_def not_space_minus Let_def)
  next
    case False
    then show ?thesis using assms(1,2) w v d is_digit_start [OF d(2)]
      by (simp add: scan_int_def to_string_def Let_def)
  qed
qed

text \<open>What the driver relies on in the two Boost functions.\<close>

definition csv_plain :: "bool \<times> string \<Rightarrow> bool" where
  "csv_plain f \<longleftrightarrow> (\<forall>c\<in>set (snd f). c \<noteq> dquote \<and> c \<noteq> CHR 0x5C \<and> c \<noteq> nl \<and> (fst f \<or> c \<noteq> CHR '',''))"

definition csv_field :: "bool \<times> string \<Rightarrow> string" where
  "csv_field f = (if fst f then dquote # snd f @ [dquote] else snd f)"

text \<open>\<open>tok\<close> splits two or more fields at commas; a field in quotes may contain commas and loses its
  quotes. \<open>trim\<close> keeps a string that neither begins nor ends with white space.\<close>

definition tokenizer_ok :: "(string \<Rightarrow> exn + string list) \<Rightarrow> bool" where
  "tokenizer_ok tok \<longleftrightarrow>
     (\<forall>f fs. fs \<noteq> [] \<and> csv_plain f \<and> list_all csv_plain fs \<longrightarrow>
        tok (csv_field f @ concat (map (\<lambda>g. CHR '','' # csv_field g) fs)) = Inr (snd f # map snd fs))"

definition trim_ok :: "(string \<Rightarrow> string) \<Rightarrow> bool" where
  "trim_ok trim \<longleftrightarrow>
     (\<forall>s. s = [] \<or> \<not> is_space (hd s) \<and> \<not> is_space (last s) \<longrightarrow> trim s = s)"

definition txn_in_range :: "txn \<Rightarrow> bool" where
  "txn_in_range t \<longleftrightarrow> (\<forall>i\<in>{t_src t, t_dst t, t_amount t}. int_min \<le> i \<and> i \<le> int_max)"

text \<open>The transaction a row stands for, as the driver reads it.\<close>

definition txn_command :: "txn \<Rightarrow> command" where
  "txn_command t =
     (if t_isRead t then Transaction (t_src t) (- 1) (- 1) True
      else Transaction (t_src t) (t_dst t) (t_amount t) False)"

lemma csv_txn_clean:
  assumes "c \<in> set (csv_txn t)"
  shows "c \<noteq> nl \<and> c \<noteq> dquote \<and> c \<noteq> CHR 0x5C \<and> c \<noteq> CHR 0x00"
  using assms to_string_clean
  by (auto simp: csv_txn_def nl_def dquote_def split: if_splits)

lemma dropWhile_space_to_string: "dropWhile is_space (to_string i @ s) = to_string i @ s"
  using to_string_ne [of i] to_string_clean [of "hd (to_string i)" i]
  by (cases "to_string i") auto

lemma not_digit_punct: "\<not> is_digit (CHR '','')" "\<not> is_digit (CHR '')'')" "is_space (CHR '' '')"
  by (simp_all add: is_digit_def is_space_def)

lemma parse_csv_txn:
  assumes "trim_ok trim" and "txn_in_range t"
  shows "parse_transaction trim (csv_txn t) = Inr (txn_command t)"
proof -
  have "hd (csv_txn t) = CHR ''(''" "last (csv_txn t) = CHR '')''" "csv_txn t \<noteq> []"
    by (simp_all add: csv_txn_def)
  moreover have "c_str (csv_txn t) = csv_txn t"
    using csv_txn_clean by (auto simp: c_str_def takeWhile_eq_all_conv)
  ultimately have t: "c_str (trim (csv_txn t)) = csv_txn t" "hd (csv_txn t) = CHR ''(''"
    using assms(1) by (simp_all add: trim_ok_def is_space_def)
  note scan = scan_int_to_string dropWhile_space_to_string not_digit_punct
  have r: "int_min \<le> t_src t" "t_src t \<le> int_max" "int_min \<le> t_dst t" "t_dst t \<le> int_max"
    "int_min \<le> t_amount t" "t_amount t \<le> int_max"
    using assms(2) by (simp_all add: txn_in_range_def)
  show ?thesis
  proof (cases "t_isRead t")
    case True
    then have e: "csv_txn t = CHR ''('' # to_string (t_src t) @ '')''" by (simp add: csv_txn_def)
    have "sscanf (csv_txn t) fmt_transfer = Inr [t_src t]"
      "sscanf (csv_txn t) fmt_single = Inr [t_src t]"
      using r by (simp_all add: e fmt_transfer_def fmt_single_def scan)
    with t True show ?thesis by (simp add: parse_transaction_def Let_def txn_command_def)
  next
    case False
    then have e: "csv_txn t = CHR ''('' # to_string (t_src t) @ CHR '','' # CHR '' '' #
        to_string (t_dst t) @ CHR '','' # CHR '' '' # to_string (t_amount t) @ '')''"
      by (simp add: csv_txn_def)
    have "sscanf (csv_txn t) fmt_transfer = Inr [t_src t, t_dst t, t_amount t]"
      using r by (simp add: e fmt_transfer_def scan)
    with t False show ?thesis by (simp add: parse_transaction_def Let_def txn_command_def)
  qed
qed

text \<open>The list of live nodes.\<close>

definition node_names :: "int list \<Rightarrow> string list" where
  "node_names ids = map (\<lambda>i. CHR ''n'' # to_string i) ids"

lemma trim_ws_name:
  "trim_ws (CHR ''n'' # to_string i) = CHR ''n'' # to_string i"
  "trim_ws (CHR '' '' # CHR ''n'' # to_string i) = CHR ''n'' # to_string i"
proof -
  obtain cs c where s: "to_string i = cs @ [c]" using to_string_ne by (metis rev_exhaust)
  then have "\<not> is_space c" using to_string_clean [of c i] by simp
  then have "c \<notin> {CHR '' '', CHR 0x09, CHR 0x0A, CHR 0x0D}" by (auto simp: is_space_def)
  then show "trim_ws (CHR ''n'' # to_string i) = CHR ''n'' # to_string i"
    "trim_ws (CHR '' '' # CHR ''n'' # to_string i) = CHR ''n'' # to_string i"
    by (simp_all add: trim_ws_def Let_def s)
qed

lemma add_active_name:
  assumes "int_min \<le> i" "i \<le> int_max"
  shows "add_active (CHR ''n'' # to_string i) a = insert i a"
    "add_active (CHR '' '' # CHR ''n'' # to_string i) a = insert i a"
  using to_string_ne by (simp_all add: add_active_def Let_def trim_ws_name stoi_to_string assms)

lemma names_clean: "c \<in> set (CHR ''n'' # to_string i) \<Longrightarrow> c \<noteq> CHR '','' \<and> c \<noteq> nl \<and> c \<noteq> dquote \<and> c \<noteq> CHR 0x5C"
  using to_string_clean [of c i] by (auto simp: nl_def dquote_def)

lemma csv_nodes_clean: "c \<in> set (csv_nodes (node_names ids)) \<Longrightarrow> c \<noteq> nl \<and> c \<noteq> dquote \<and> c \<noteq> CHR 0x5C"
proof (induction ids rule: induct_list012)
  case (2 i)
  then show ?case using names_clean [of c i] by (simp add: node_names_def)
next
  case (3 i j ids)
  then show ?case using names_clean [of c i] by (auto simp: node_names_def nl_def dquote_def)
qed (simp add: node_names_def)

text \<open>The names after the first one are read with the blank before them.\<close>

lemma active_blank_names:
  assumes "list_all (\<lambda>i. int_min \<le> i \<and> i \<le> int_max) ids" and "ids \<noteq> []"
  shows "fold add_active (getlines (CHR '','') (CHR '' '' # csv_nodes (node_names ids))) a = a \<union> set ids"
  using assms
proof (induction ids arbitrary: a rule: induct_list012)
  case (2 i)
  have "CHR '','' \<notin> set (CHR '' '' # CHR ''n'' # to_string i)" using names_clean [of _ i] by auto
  then have "getlines (CHR '','') (CHR '' '' # CHR ''n'' # to_string i) = [CHR '' '' # CHR ''n'' # to_string i]"
    by (rule getlines_last) simp
  then show ?case using 2 by (simp add: node_names_def add_active_name del: getlines.simps)
next
  case (3 i j ids)
  have "CHR '','' \<notin> set (CHR '' '' # CHR ''n'' # to_string i)" using names_clean [of _ i] by auto
  from getlines_line [OF this] have "getlines (CHR '','') (CHR '' '' # csv_nodes (node_names (i # j # ids))) =
      (CHR '' '' # CHR ''n'' # to_string i) #
        getlines (CHR '','') (CHR '' '' # csv_nodes (node_names (j # ids)))"
    by (simp add: node_names_def)
  then show ?case using 3 by (simp add: add_active_name insert_commute del: getlines.simps)
qed simp

lemma active_names:
  assumes "list_all (\<lambda>i. int_min \<le> i \<and> i \<le> int_max) ids"
  shows "fold add_active (getlines (CHR '','') (csv_nodes (node_names ids))) a = a \<union> set ids"
proof (cases ids)
  case (Cons i js)
  have c: "CHR '','' \<notin> set (CHR ''n'' # to_string i)" using names_clean [of _ i] by auto
  show ?thesis
  proof (cases js)
    case Nil
    have "getlines (CHR '','') (CHR ''n'' # to_string i) = [CHR ''n'' # to_string i]"
      using c by (rule getlines_last) simp
    then show ?thesis
      using Cons Nil assms by (simp add: node_names_def add_active_name del: getlines.simps)
  next
    case (Cons j ks)
    from getlines_line [OF c] have "getlines (CHR '','') (csv_nodes (node_names ids)) =
        (CHR ''n'' # to_string i) # getlines (CHR '','') (CHR '' '' # csv_nodes (node_names js))"
      by (simp add: \<open>ids = i # js\<close> Cons node_names_def)
    then show ?thesis
      using assms active_blank_names [of js] Cons \<open>ids = i # js\<close>
      by (simp add: add_active_name insert_commute del: getlines.simps)
  qed
qed (simp add: node_names_def)

lemma parse_active_names:
  assumes "list_all (\<lambda>i. int_min \<le> i \<and> i \<le> int_max) ids"
  shows "parse_active (CHR ''['' # csv_nodes (node_names ids) @ '']'') {} = set ids"
  using active_names [OF assms, of "{}"] by (simp add: parse_active_def butlast_append)

section \<open>From the generator to the client\<close>

definition txn_request :: "int \<Rightarrow> txn \<Rightarrow> client_request" where
  "txn_request ts t =
     (if t_isRead t then new_request (t_src t) (- 1) (- 1) True ts
      else new_request (t_src t) (t_dst t) (t_amount t) False ts)"

definition txn_pair :: "txn \<Rightarrow> int \<times> int" where
  "txn_pair t = (t_src t, if t_isRead t then - 1 else t_dst t)"

lemma csv_plain_txn: "csv_plain (True, csv_txn t)"
  using csv_txn_clean by (auto simp: csv_plain_def)

lemma csv_plain_nodes: "csv_plain (True, CHR ''['' # csv_nodes (node_names ids) @ '']'')"
  using csv_nodes_clean by (auto simp: csv_plain_def nl_def dquote_def)

lemma run_csv_row:
  assumes "tokenizer_ok tok" and "trim_ok trim" and "txn_in_range t"
  shows "run_line tok trim stubs (csv_row t) d =
    Inr (d\<lparr>num := num d + 1, transactions_processed := transactions_processed d @ [txn_pair t],
           trace := trace d @ [Submit (txn_request (num d) t)]\<rparr>)"
proof -
  have "tok (csv_row t) = Inr [[], csv_txn t, []]"
    using assms(1) [unfolded tokenizer_ok_def, rule_format,
        of "[(True, csv_txn t), (False, [])]" "(False, [])"] csv_plain_txn [of t]
    by (simp add: csv_row_def csv_field_def csv_plain_def)
  moreover have "trim [] = []" using assms(2) by (simp add: trim_ok_def)
  ultimately show ?thesis
    by (simp add: run_line_def run_fields_def Let_def parse_csv_txn [OF assms(2,3)] run_command_def
        txn_command_def parse_active_def StartClientRequests_def happen_def txn_request_def txn_pair_def
        csv_row_def)
qed

lemma run_csv_rows:
  assumes "tokenizer_ok tok" and "trim_ok trim" and "list_all txn_in_range ts" and "num d = int n"
  shows "foldE (run_line tok trim stubs) (map csv_row ts) d =
    Inr (d\<lparr>num := int (n + length ts),
           transactions_processed := transactions_processed d @ map txn_pair ts,
           trace := trace d @ map (\<lambda>(i, t). Submit (txn_request (int i) t)) (enumerate n ts)\<rparr>)"
  using assms(3,4)
proof (induction ts arbitrary: d n)
  case (Cons t ts)
  let ?d = "d\<lparr>num := num d + 1, transactions_processed := transactions_processed d @ [txn_pair t],
           trace := trace d @ [Submit (txn_request (num d) t)]\<rparr>"
  have "num ?d = int (Suc n)" using Cons.prems by simp
  from Cons.IH [OF _ this] Cons.prems show ?case by (simp add: run_csv_row [OF assms(1,2)])
qed simp

lemma run_csv_first:
  assumes "tokenizer_ok tok" and "trim_ok trim" and "list_all txn_in_range txns"
    and "list_all (\<lambda>i. int_min \<le> i \<and> i \<le> int_max) ids"
  shows "run_line tok trim stubs (csv_first txns (node_names ids)) driver_init =
    Inr (if txns = [] then driver_init\<lparr>current_set_number := 1\<rparr>
         else \<lparr>current_set_number = 1, active_nodes_set = set ids, num = 1,
           transactions_processed = [txn_pair (hd txns)],
           trace = [AliveUpdates (map (\<lambda>i. (i, alive_request (i \<in> set ids) False False False True)) stubs),
             Submit (txn_request 0 (hd txns))]\<rparr>)"
proof -
  let ?nodes = "CHR ''['' # csv_nodes (node_names ids) @ '']''"
  let ?txn = "if txns = [] then [] else csv_txn (hd txns)"
  define txn where "txn = ?txn"
  have "csv_plain (True, txn)" using csv_plain_txn by (simp add: csv_plain_def txn_def)
  moreover have "csv_plain (False, ''1'')" by (simp add: csv_plain_def nl_def dquote_def)
  ultimately have "tok (csv_field (False, ''1'') @
      concat (map (\<lambda>g. CHR '','' # csv_field g) [(True, txn), (True, ?nodes)])) =
      Inr (snd (False, ''1'') # map snd [(True, txn), (True, ?nodes)])"
    using csv_plain_nodes [of ids] by (intro assms(1) [unfolded tokenizer_ok_def, rule_format]) simp
  moreover have "csv_field (False, ''1'') @
      concat (map (\<lambda>g. CHR '','' # csv_field g) [(True, txn), (True, ?nodes)]) =
      csv_first txns (node_names ids)"
    by (simp add: csv_first_def csv_field_def txn_def)
  ultimately have t: "tok (csv_first txns (node_names ids)) = Inr [''1'', ?txn, ?nodes]"
    by (simp add: txn_def)
  have tr: "trim [] = []" "trim ?nodes = ?nodes"
    using assms(2) by (simp_all add: trim_ok_def is_space_def)
  have hd: "csv_first txns (node_names ids) \<noteq> []" "hd (csv_first txns (node_names ids)) \<noteq> CHR ''S''"
    by (simp_all add: csv_first_def)
  have unparsed: "parse_transaction trim [] = Inr Unparsed"
    by (simp add: parse_transaction_def tr c_str_def fmt_transfer_def fmt_single_def)
  show ?thesis
  proof (cases txns)
    case Nil
    then show ?thesis using t hd
      by (simp add: run_line_def run_fields_def driver_init_def unparsed run_command_def)
  next
    case (Cons t' ts)
    then have "parse_transaction trim (csv_txn t') = Inr (txn_command t')"
      using parse_csv_txn [OF assms(2)] assms(3) by simp
    then show ?thesis using Cons t hd
      by (simp add: run_line_def run_fields_def driver_init_def run_command_def txn_command_def Let_def
          tr parse_active_names [OF assms(4)] StartClientRequests_def SendAliveUpdateAsync_def
          happen_def txn_request_def txn_pair_def)
  qed
qed

lemma getlines_write_csv:
  "getlines nl (write_csv txns (node_names ids)) =
     csv_header # csv_first txns (node_names ids) # map csv_row (tl txns)"
proof -
  have "nl \<notin> set (csv_first txns (node_names ids))"
    using csv_txn_clean csv_nodes_clean by (auto simp: csv_first_def nl_def dquote_def)
  moreover have "nl \<notin> set (csv_row t)" for t
    using csv_txn_clean by (auto simp: csv_row_def nl_def dquote_def)
  moreover have "nl \<notin> set csv_header" by (simp add: csv_header_def nl_def)
  ultimately show ?thesis
    using getlines_lines [of "csv_header # csv_first txns (node_names ids) # map csv_row (tl txns)" nl]
    by (simp add: write_csv_def comp_def)
qed

text \<open>
  C17: the file the generator writes is read back exactly. For any transactions and live nodes
  the driver first sends every node its liveness with a state reset, then submits the
  transactions in order, numbered from 0, with the accounts, amount and kind they were
  generated with, and then waits and prompts; an empty workload submits nothing. It relies on
  the tokenizer to split quoted fields and on trimming to keep strings without outer blanks.
\<close>

theorem workload_file_roundtrip:
  assumes "tokenizer_ok tok" and "trim_ok trim" and "list_all txn_in_range txns"
    and "list_all (\<lambda>i. int_min \<le> i \<and> i \<le> int_max) ids"
  shows "run_file tok trim stubs (write_csv txns (node_names ids)) =
    Inr \<lparr>current_set_number = 1, active_nodes_set = (if txns = [] then {} else set ids),
      num = int (length txns), transactions_processed = map txn_pair txns,
      trace =
        (if txns = [] then []
         else [AliveUpdates (map (\<lambda>i. (i, alive_request (i \<in> set ids) False False False True)) stubs)]) @
        map (\<lambda>(i, t). Submit (txn_request (int i) t)) (enumerate 0 txns) @
        [WaitForReplies, AliveUpdates (map (\<lambda>i. (i, alive_request False False False False False)) stubs),
         Prompt]\<rparr>"
proof -
  have h: "run_line tok trim stubs csv_header driver_init = Inr driver_init"
    by (simp add: run_line_def csv_header_def)
  note first = run_csv_first [OF assms, of stubs]
  show ?thesis
  proof (cases txns)
    case Nil
    then show ?thesis using h first
      by (simp add: run_file_def getlines_write_csv finish_run_def SendAliveUpdateAsync_def happen_def
          driver_init_def)
  next
    case (Cons t ts)
    then have "list_all txn_in_range ts" using assms(3) by simp
    note rows = run_csv_rows [OF assms(1,2) this, of _ 1]
    show ?thesis using h first
      by (simp add: Cons run_file_def getlines_write_csv rows finish_run_def SendAliveUpdateAsync_def happen_def)
  qed
qed

text \<open>A tokenizer and a trim function with these laws.\<close>

fun split_csv :: "bool \<Rightarrow> string \<Rightarrow> string \<Rightarrow> string list" where
  "split_csv inside acc [] = [acc]"
| "split_csv inside acc (c # s) =
     (if c = dquote then split_csv (\<not> inside) acc s
      else if c = CHR '','' \<and> \<not> inside then acc # split_csv False [] s
      else split_csv inside (acc @ [c]) s)"

definition trim_blanks :: "string \<Rightarrow> string" where
  "trim_blanks s = rev (dropWhile is_space (rev (dropWhile is_space s)))"

lemma split_csv_plain:
  "(\<forall>c\<in>set s. c \<noteq> dquote \<and> (inside \<or> c \<noteq> CHR '','')) \<Longrightarrow>
     split_csv inside acc (s @ rest) = split_csv inside (acc @ s) rest"
  by (induction s arbitrary: acc) auto

lemma split_csv_field:
  assumes "csv_plain f"
  shows "split_csv False acc (csv_field f @ rest) = split_csv False (acc @ snd f) rest"
  using assms split_csv_plain [of "snd f" "fst f" acc] by (cases "fst f") (auto simp: csv_plain_def csv_field_def)

lemma split_csv_fields:
  "list_all csv_plain fs \<Longrightarrow>
     split_csv False acc (concat (map (\<lambda>g. CHR '','' # csv_field g) fs)) = acc # map snd fs"
proof (induction fs arbitrary: acc)
  case (Cons f fs)
  then show ?case using split_csv_field [of f "[]"] by (simp add: dquote_def)
qed simp

lemma split_csv_ok: "tokenizer_ok (\<lambda>s. Inr (split_csv False [] s))"
  by (auto simp: tokenizer_ok_def split_csv_field split_csv_fields)

lemma trim_blanks_ok: "trim_ok trim_blanks"
proof -
  have "trim_blanks s = s" if "s = [] \<or> \<not> is_space (hd s) \<and> \<not> is_space (last s)" for s
  proof (cases "s = []")
    case False
    then have "dropWhile is_space s = s" "dropWhile is_space (rev s) = rev s"
      using that by (simp_all add: dropWhile_eq_self_iff hd_rev)
    then show ?thesis by (simp add: trim_blanks_def)
  qed (simp add: trim_blanks_def)
  then show ?thesis by (simp add: trim_ok_def)
qed

theorem workload_file_roundtrip_witness:
  "\<exists>d. run_file (\<lambda>s. Inr (split_csv False [] s)) trim_blanks [1, 2, 3]
      (write_csv [\<lparr>t_isRead = False, t_src = 17, t_dst = 4001, t_amount = 5\<rparr>,
                  \<lparr>t_isRead = True, t_src = 6001, t_dst = 0, t_amount = 0\<rparr>] (node_names [1, 2])) = Inr d \<and>
    active_nodes_set d = {1, 2} \<and> num d = 2 \<and> transactions_processed d = [(17, 4001), (6001, - 1)] \<and>
    set (trace d) \<supseteq> {Submit (new_request 17 4001 5 False 0), Submit (new_request 6001 (- 1) (- 1) True 1)}"
  using workload_file_roundtrip [OF split_csv_ok trim_blanks_ok,
      of "[\<lparr>t_isRead = False, t_src = 17, t_dst = 4001, t_amount = 5\<rparr>,
           \<lparr>t_isRead = True, t_src = 6001, t_dst = 0, t_amount = 0\<rparr>]" "[1, 2]" "[1, 2, 3]"]
  by (simp add: txn_in_range_def int_min_def int_max_def txn_pair_def txn_request_def)

section \<open>Rows that are not transactions\<close>

text \<open>\<^verbatim>\<open>sscanf\<close> counts conversions, not matched text: a row with two numbers fails the format
  of a transfer and then passes the format of a read, so the transfer of an incomplete row is
  replaced by a read of its first account instead of being rejected.\<close>

lemma two_numbers_become_read:
  assumes "trim_ok trim" and "int_min \<le> a" "a \<le> int_max" "int_min \<le> b" "b \<le> int_max"
  shows "parse_transaction trim (CHR ''('' # to_string a @ '', '' @ to_string b @ '')'') =
    Inr (Transaction a (- 1) (- 1) True)"
proof -
  let ?s = "CHR ''('' # to_string a @ '', '' @ to_string b @ '')''"
  have "trim ?s = ?s" using assms(1) by (simp add: trim_ok_def is_space_def)
  moreover have "c_str ?s = ?s"
    using to_string_clean by (auto simp: c_str_def takeWhile_eq_all_conv)
  ultimately have "c_str (trim ?s) = ?s" by simp
  then show ?thesis
    using assms(2-5) by (simp add: parse_transaction_def Let_def fmt_transfer_def fmt_single_def
        scan_int_to_string dropWhile_space_to_string not_digit_punct)
qed

end
