(* ===== verification/Client.thy ===== *)
theory Client
  imports NodeState
begin

text \<open>
  The client (\<^verbatim>\<open>src/paxos_client.cpp\<close>, \<^verbatim>\<open>src/paxos_client.h\<close>): requests wait in a
  table and in a timer queue that share the request objects, a timer sends each request to the leader
  it believes in and then rebroadcasts it every 100 ms until a reply arrives. The shared objects are
  a store indexed by numbers, so a reply that completes a request is seen through the queue, as
  through the code's \<^verbatim>\<open>shared_ptr\<close>. Starting threads, polling queues and the blocking
  \<^verbatim>\<open>SendMoveOn\<close> RPC, which changes no state of the client, are left out.
\<close>

section \<open>State\<close>

record pending_request =
  p_request :: client_request
  p_expiry :: int
  p_active :: bool
  p_completed :: bool

text \<open>The global \<^verbatim>\<open>remaining_transactions\<close> that the client and the launcher share is the field
  \<open>remaining\<close>; \<open>sent\<close> records the requests sent and to which node.\<close>

record client =
  node_stubs :: "int list"
  c_clusters :: int
  sharding_map :: "int \<Rightarrow> int"
  leader_per_cluster :: "int \<Rightarrow> int"
  store :: "nat \<Rightarrow> pending_request"
  next_ref :: nat
  inflight :: "(int, nat) omap"
  timer_heap :: "nat list"
  remaining :: int
  sent :: "(int \<times> client_request) list"

definition retry_interval :: int where "retry_interval = 100"

definition reset_leaders_per_cluster :: "client \<Rightarrow> client" where
  "reset_leaders_per_cluster c =
     c\<lparr>leader_per_cluster := (\<lambda>k. if 1 \<le> k \<and> k \<le> c_clusters c
         then ((k - 1) * int (length (node_stubs c))) sdiv c_clusters c + 1
         else leader_per_cluster c k)\<rparr>"

definition new_pending :: "client_request \<Rightarrow> pending_request" where
  "new_pending req = \<lparr>p_request = req, p_expiry = 0, p_active = False, p_completed = False\<rparr>"

definition PaxosClient_init :: "int list \<Rightarrow> int \<Rightarrow> (int \<Rightarrow> int) \<Rightarrow> client" where
  "PaxosClient_init nodes clusters ranges =
     reset_leaders_per_cluster
       \<lparr>node_stubs = nodes, c_clusters = clusters, sharding_map = ranges,
        leader_per_cluster = (\<lambda>_. 0), store = (\<lambda>_. new_pending no_request), next_ref = 0,
        inflight = [], timer_heap = [], remaining = 0, sent = []\<rparr>"

section \<open>Sending\<close>

definition client_call_node :: "int \<Rightarrow> client_request \<Rightarrow> client \<Rightarrow> client" where
  "client_call_node i req c = c\<lparr>sent := sent c @ [(i, req)]\<rparr>"

definition SendRequest :: "int \<Rightarrow> client_request \<Rightarrow> client \<Rightarrow> client" where
  "SendRequest now request c =
     (let r = next_ref c in
      c\<lparr>store := (store c)(r := (new_pending request)\<lparr>p_expiry := now\<rparr>), next_ref := r + 1,
        inflight := omap_put (cr_timestamp request) r (inflight c),
        timer_heap := timer_heap c @ [r]\<rparr>)"

definition SendToLeader :: "client_request \<Rightarrow> client \<Rightarrow> exn + client" where
  "SendToLeader request c =
     bindE (stoi (cr_from_account request)) (\<lambda>s.
       let leader_id = leader_per_cluster c (sharding_map c s) in
       Inr (if leader_id \<in> set (node_stubs c) then client_call_node leader_id request c else c))"

definition cluster_nodes :: "int \<Rightarrow> client \<Rightarrow> int list" where
  "cluster_nodes cluster c =
     (let d = int (length (node_stubs c)) sdiv c_clusters c;
          start_node = (cluster - 1) * d + 1; end_node = cluster * d
      in filter (\<lambda>i. start_node \<le> i \<and> i \<le> end_node) (node_stubs c))"

definition BroadcastRequest :: "client_request \<Rightarrow> client \<Rightarrow> exn + client" where
  "BroadcastRequest request c =
     bindE (stoi (cr_from_account request)) (\<lambda>s.
       Inr (fold (\<lambda>i. client_call_node i request) (cluster_nodes (sharding_map c s) c) c))"

section \<open>The timer\<close>

text \<open>The request on top of the queue: one with the earliest expiry, here the first of them.\<close>

fun heap_top :: "(nat \<Rightarrow> pending_request) \<Rightarrow> nat list \<Rightarrow> nat option" where
  "heap_top st [] = None"
| "heap_top st (r # rs) =
     (case heap_top st rs of
        None \<Rightarrow> Some r
      | Some q \<Rightarrow> if p_expiry (st q) < p_expiry (st r) then Some q else Some r)"

lemma heap_top_in: "heap_top st h = Some r \<Longrightarrow> r \<in> set h"
  by (induction h arbitrary: r) (auto split: option.splits if_splits)

lemma heap_top_None [simp]: "heap_top st h = None \<longleftrightarrow> h = []"
  by (cases h) (auto split: option.splits)

lemma heap_top_least: "heap_top st h = Some r \<Longrightarrow> q \<in> set h \<Longrightarrow> p_expiry (st r) \<le> p_expiry (st q)"
  by (induction h arbitrary: r) (fastforce split: option.splits if_splits)+

lemma heap_top_shrinks: "heap_top st h = Some r \<Longrightarrow> length (remove1 r h) < length h"
proof -
  assume "heap_top st h = Some r"
  then have "r \<in> set h" by (rule heap_top_in)
  then show ?thesis using length_pos_if_in_set [of r h] by (simp add: length_remove1)
qed

text \<open>The loop that pops every due request, and drops completed ones it meets on top.\<close>

function collect_due ::
  "int \<Rightarrow> (nat \<Rightarrow> pending_request) \<Rightarrow> nat list \<Rightarrow> (nat \<times> bool) list \<Rightarrow>
   (nat \<Rightarrow> pending_request) \<times> nat list \<times> (nat \<times> bool) list" where
  "collect_due now st h due =
     (case heap_top st h of
        None \<Rightarrow> (st, h, due)
      | Some r \<Rightarrow>
          if p_completed (st r) then collect_due now st (remove1 r h) due
          else if p_expiry (st r) > now then (st, h, due)
          else collect_due now
                 (st(r := (st r)\<lparr>p_active := True, p_expiry := now + retry_interval\<rparr>))
                 (remove1 r h) (due @ [(r, \<not> p_active (st r))]))"
  by pat_completeness auto
termination
  by (relation "measure (\<lambda>(now, st, h, due). length h)") (simp_all add: heap_top_shrinks)

declare collect_due.simps [simp del]

definition send_due :: "nat \<times> bool \<Rightarrow> client \<Rightarrow> exn + client" where
  "send_due d c =
     (let q = store c (fst d) in
      if p_completed q then Inr c
      else if snd d then SendToLeader (p_request q) c
      else BroadcastRequest (p_request q) c)"

definition TimerLoop_turn :: "int \<Rightarrow> client \<Rightarrow> exn + client" where
  "TimerLoop_turn now c =
     (let (st, h, due) = collect_due now (store c) (timer_heap c) []
      in foldE send_due due (c\<lparr>store := st, timer_heap := h @ map fst due\<rparr>))"

section \<open>Replies and clean-up\<close>

definition complete :: "nat \<Rightarrow> client \<Rightarrow> client" where
  "complete r c = c\<lparr>store := (store c)(r := (store c r)\<lparr>p_completed := True\<rparr>)\<rparr>"

definition HandleLeaderReply :: "client_reply \<Rightarrow> client \<Rightarrow> client" where
  "HandleLeaderReply reply c =
     (let found = map_of (inflight c) (rp_timestamp reply);
          c1 = (case found of
                  Some r \<Rightarrow> (complete r c)\<lparr>inflight := omap_erase (rp_timestamp reply) (inflight c)\<rparr>
                | None \<Rightarrow> c);
          new_leader_id = b_node (rp_ballot reply);
          c2 = c1\<lparr>leader_per_cluster := (leader_per_cluster c1)
                    ((new_leader_id - 1) sdiv c_clusters c1 + 1 := new_leader_id)\<rparr>
      in if found \<noteq> None then c2\<lparr>remaining := remaining c2 - 1\<rparr> else c2)"

definition HandleMoveOn_client :: "client \<Rightarrow> client" where
  "HandleMoveOn_client c =
     (let c1 = fold complete (map snd (inflight c)) c;
          size_pending = int (length (inflight c));
          c2 = fold complete (timer_heap c1) (c1\<lparr>inflight := []\<rparr>)
      in c2\<lparr>timer_heap := [], remaining := remaining c2 - size_pending\<rparr>)"

text \<open>The launcher counts a transaction and then queues it (\<^verbatim>\<open>src/node_launch.cpp\<close>).\<close>

definition submit :: "int \<Rightarrow> client_request \<Rightarrow> client \<Rightarrow> client" where
  "submit now request c = SendRequest now request (c\<lparr>remaining := remaining c + 1\<rparr>)"

section \<open>One turn of the timer\<close>

definition due_now :: "int \<Rightarrow> (nat \<Rightarrow> pending_request) \<Rightarrow> nat \<Rightarrow> bool" where
  "due_now now st r \<longleftrightarrow> \<not> p_completed (st r) \<and> p_expiry (st r) \<le> now"

definition reschedule :: "int \<Rightarrow> pending_request \<Rightarrow> pending_request" where
  "reschedule now q = q\<lparr>p_active := True, p_expiry := now + retry_interval\<rparr>"

text \<open>What the popping loop returns: the due requests, each once, with the flag that tells a first
  send from a retry; the rest of the queue keeps every other unanswered request.\<close>

definition collected ::
  "int \<Rightarrow> (nat \<Rightarrow> pending_request) \<Rightarrow> nat list \<Rightarrow>
   (nat \<Rightarrow> pending_request) \<Rightarrow> nat list \<Rightarrow> (nat \<times> bool) list \<Rightarrow> bool" where
  "collected now st h st' h' d \<longleftrightarrow>
     distinct (h' @ map fst d) \<and> set h' \<subseteq> set h \<and>
     set d = {(r, \<not> p_active (st r)) | r. r \<in> set h \<and> due_now now st r} \<and>
     (\<forall>r\<in>set h. \<not> p_completed (st r) \<and> \<not> due_now now st r \<longrightarrow> r \<in> set h') \<and>
     (\<forall>r. st' r = (if r \<in> set h \<and> due_now now st r then reschedule now (st r) else st r))"

lemma collected_none:
  assumes "distinct h" and "\<forall>r\<in>set h. \<not> due_now now st r"
  shows "collected now st h st h []"
  using assms by (auto simp: collected_def)

lemma collected_skip:
  assumes "collected now st (remove1 r h) st' h' d" and "distinct h" and "p_completed (st r)"
  shows "collected now st h st' h' d"
proof -
  note c = assms(1) [unfolded collected_def set_remove1_eq [OF assms(2)]]
  have "due_now now st x \<Longrightarrow> x \<noteq> r" for x using assms(3) by (auto simp: due_now_def)
  then have eq: "x \<in> set h - {r} \<and> due_now now st x \<longleftrightarrow> x \<in> set h \<and> due_now now st x" for x by blast
  show ?thesis
    using c assms(3) unfolding eq collected_def by blast
qed

lemma collected_pop:
  assumes "collected now (st(r := reschedule now (st r))) (remove1 r h) st' h' d"
    and "distinct h" and "r \<in> set h" and "due_now now st r"
  shows "collected now st h st' h' ((r, \<not> p_active (st r)) # d)"
proof -
  let ?st = "st(r := reschedule now (st r))"
  have same: "x \<in> set h - {r} \<Longrightarrow> ?st x = st x \<and> due_now now ?st x = due_now now st x" for x
    by (simp add: due_now_def)
  have c: "distinct (h' @ map fst d)" "set h' \<subseteq> set h - {r}"
    "set d = {(x, \<not> p_active (?st x)) | x. x \<in> set h - {r} \<and> due_now now ?st x}"
    "\<forall>x\<in>set h - {r}. \<not> p_completed (?st x) \<and> \<not> due_now now ?st x \<longrightarrow> x \<in> set h'"
    "\<forall>x. st' x = (if x \<in> set h - {r} \<and> due_now now ?st x then reschedule now (?st x) else ?st x)"
    using assms(1) unfolding collected_def set_remove1_eq [OF assms(2)] by blast+
  have d: "set d = {(x, \<not> p_active (st x)) | x. x \<in> set h - {r} \<and> due_now now st x}"
    using c(3) same by auto
  then have "r \<notin> fst ` set d" by auto
  then show ?thesis
    using c(1,2,4,5) d assms(3,4) same by (auto simp: collected_def)
qed

lemma collect_due_collected:
  assumes "collect_due now st h due = (st', h', due')" and "distinct h"
  shows "\<exists>d. due' = due @ d \<and> collected now st h st' h' d"
  using assms
proof (induction now st h due rule: collect_due.induct)
  case (1 now st h due)
  show ?case
  proof (cases "heap_top st h")
    case None
    with 1 show ?thesis by (auto simp: collect_due.simps [of now st h] intro: collected_none)
  next
    case (Some r)
    note top = Some and body = 1(3) [unfolded collect_due.simps [of now st h] Some option.case]
    have r: "r \<in> set h" using top by (rule heap_top_in)
    consider (completed) "p_completed (st r)" | (later) "\<not> p_completed (st r)" "p_expiry (st r) > now"
      | (now) "\<not> p_completed (st r)" "\<not> p_expiry (st r) > now" by blast
    then show ?thesis
    proof cases
      case completed
      with 1(1) [OF top completed] body 1(4) show ?thesis by (auto intro: collected_skip)
    next
      case later
      have "\<forall>q\<in>set h. \<not> due_now now st q"
        using heap_top_least [OF top] later by (fastforce simp: due_now_def)
      with body later 1(4) show ?thesis by (auto intro: collected_none)
    next
      case now
      have "\<exists>d. due' = (due @ [(r, \<not> p_active (st r))]) @ d \<and>
          collected now (st(r := reschedule now (st r))) (remove1 r h) st' h' d"
        unfolding reschedule_def
        by (rule 1(2) [OF top now]) (use body now 1(4) in \<open>simp_all only: if_False distinct_remove1\<close>)
      then obtain d where
        "due' = due @ (r, \<not> p_active (st r)) # d"
        "collected now (st(r := reschedule now (st r))) (remove1 r h) st' h' d"
        by auto
      with now r 1(4) show ?thesis by (auto intro!: collected_pop simp: due_now_def)
    qed
  qed
qed

text \<open>The messages of one send: to the believed leader at first, to the whole cluster on a retry.\<close>

definition messages :: "bool \<Rightarrow> client_request \<Rightarrow> client \<Rightarrow> (int \<times> client_request) list" where
  "messages first req c =
     (case stoi (cr_from_account req) of
        Inl _ \<Rightarrow> []
      | Inr s \<Rightarrow>
          if first then
            (let l = leader_per_cluster c (sharding_map c s) in
             if l \<in> set (node_stubs c) then [(l, req)] else [])
          else map (\<lambda>i. (i, req)) (cluster_nodes (sharding_map c s) c))"

lemma fold_calls: "fold (\<lambda>i. client_call_node i req) is c = c\<lparr>sent := sent c @ map (\<lambda>i. (i, req)) is\<rparr>"
  by (induction "is" arbitrary: c) (simp_all add: client_call_node_def)

lemma send_due_effect:
  assumes "send_due d c = Inr c'" and "\<not> p_completed (store c (fst d))"
  shows "c' = c\<lparr>sent := sent c @ messages (snd d) (p_request (store c (fst d))) c\<rparr>"
  using assms
  by (auto simp: send_due_def SendToLeader_def BroadcastRequest_def messages_def fold_calls Let_def
      client_call_node_def exn_simps split: if_splits)

lemma messages_sent [simp]: "messages f req (c\<lparr>sent := x\<rparr>) = messages f req c"
  by (simp add: messages_def cluster_nodes_def Let_def split: sum.split)

lemma messages_queue [simp]: "messages f req (c\<lparr>store := st, timer_heap := h\<rparr>) = messages f req c"
  by (simp add: messages_def cluster_nodes_def Let_def split: sum.split)

lemma send_all_effect:
  assumes "foldE send_due ds c = Inr c'" and "\<forall>d\<in>set ds. \<not> p_completed (store c (fst d))"
  shows "c' = c\<lparr>sent := sent c @
    concat (map (\<lambda>d. messages (snd d) (p_request (store c (fst d))) c) ds)\<rparr>"
  using assms
proof (induction ds arbitrary: c)
  case (Cons d ds)
  from Cons.prems(1) obtain k where k: "send_due d c = Inr k" "foldE send_due ds k = Inr c'"
    by (auto elim: bindE_InrE)
  have "k = c\<lparr>sent := sent c @ messages (snd d) (p_request (store c (fst d))) c\<rparr>"
    by (rule send_due_effect [OF k(1)]) (use Cons.prems(2) in simp)
  with Cons.IH [OF k(2)] Cons.prems(2) show ?case by simp
qed simp

text \<open>
  What one turn of the timer does. Exactly the unanswered requests whose time has come are
  sent, each once: for the first time to the node taken for the leader of the sender's cluster,
  later to every node of that cluster. They are due again 100 ms later, and no unanswered request
  leaves the queue.
\<close>

theorem timer_turn_sends_due:
  assumes "TimerLoop_turn now c = Inr c'" and "distinct (timer_heap c)"
  shows "\<exists>due. distinct (map fst due) \<and>
    set due = {(r, \<not> p_active (store c r)) | r. r \<in> set (timer_heap c) \<and> due_now now (store c) r} \<and>
    sent c' = sent c @ concat (map (\<lambda>d. messages (snd d) (p_request (store c (fst d))) c) due) \<and>
    (\<forall>r\<in>set (timer_heap c). \<not> p_completed (store c r) \<longrightarrow> r \<in> set (timer_heap c') \<and>
       store c' r = (if due_now now (store c) r then reschedule now (store c r) else store c r))"
proof -
  obtain st h due where cd: "collect_due now (store c) (timer_heap c) [] = (st, h, due)"
    by (cases "collect_due now (store c) (timer_heap c) []") auto
  from collect_due_collected [OF cd assms(2)]
  have col: "collected now (store c) (timer_heap c) st h due" by simp
  let ?c = "c\<lparr>store := st, timer_heap := h @ map fst due\<rparr>"
  have run: "foldE send_due due ?c = Inr c'"
    using assms(1) by (simp add: TimerLoop_turn_def cd)
  have req: "\<not> p_completed (st (fst d)) \<and> p_request (st (fst d)) = p_request (store c (fst d))"
    if "d \<in> set due" for d
    using col that by (auto simp: collected_def reschedule_def due_now_def)
  have c': "c' = ?c\<lparr>sent := sent ?c @
      concat (map (\<lambda>d. messages (snd d) (p_request (store ?c (fst d))) ?c) due)\<rparr>"
    by (rule send_all_effect [OF run]) (simp add: req)
  have s: "sent c' = sent c @ concat (map (\<lambda>d. messages (snd d) (p_request (store c (fst d))) c) due)"
    by (simp add: c' req cong: map_cong)
  have q: "store c' = st" "timer_heap c' = h @ map fst due" by (simp_all add: c')
  show ?thesis
    by (rule exI [of _ due]) (use col s q in \<open>auto simp: collected_def image_iff\<close>)
qed

text \<open>A client of the sample deployment with one request.\<close>

definition demo_client :: client where
  "demo_client = submit 0 (demo_request ''1'' ''2'' 4 7) (PaxosClient_init [1, 2, 3, 4, 5, 6, 7, 8, 9] 3 demo_shards)"

lemma demo_client_sel [simp]:
  "timer_heap demo_client = [0]" "inflight demo_client = [(7, 0)]" "remaining demo_client = 1"
  "store demo_client 0 = (new_pending (demo_request ''1'' ''2'' 4 7))\<lparr>p_expiry := 0\<rparr>"
  "sent demo_client = []" "node_stubs demo_client = [1, 2, 3, 4, 5, 6, 7, 8, 9]"
  "sharding_map demo_client = demo_shards" "leader_per_cluster demo_client 1 = 1"
  "c_clusters demo_client = 3"
  by (simp_all add: demo_client_def submit_def SendRequest_def PaxosClient_init_def
      reset_leaders_per_cluster_def Let_def)

lemma demo_client_turn: "\<exists>c. TimerLoop_turn 0 demo_client = Inr c"
  by (simp add: TimerLoop_turn_def collect_due.simps new_pending_def send_due_def SendToLeader_def
      retry_interval_def client_call_node_def)

theorem timer_turn_sends_due_witness:
  "\<exists>c. TimerLoop_turn 0 demo_client = Inr c \<and> sent c = [(1, demo_request ''1'' ''2'' 4 7)] \<and>
     p_expiry (store c 0) = 100 \<and> 0 \<in> set (timer_heap c)"
proof -
  obtain c where c: "TimerLoop_turn 0 demo_client = Inr c" using demo_client_turn by blast
  have due: "due_now 0 (store demo_client) 0" by (simp add: due_now_def new_pending_def)
  obtain d where d: "distinct (map fst d)" "set d = {(0, True)}"
    "sent c = concat (map (\<lambda>e. messages (snd e) (p_request (store demo_client (fst e))) demo_client) d)"
    and q: "0 \<in> set (timer_heap c)" "store c 0 = reschedule 0 (store demo_client 0)"
    using timer_turn_sends_due [OF c] due by (auto simp: new_pending_def)
  have "length d = card (set d)" using d(1) by (simp add: distinct_card distinct_map)
  with d(2) have "length d = 1" by simp
  then obtain x where "d = [x]" by (cases d) simp_all
  with d(2) have "d = [(0, True)]" by simp
  with d(3) q c show ?thesis
    by (simp add: messages_def new_pending_def reschedule_def retry_interval_def)
qed

section \<open>Every request is answered once\<close>

text \<open>What a client does between start and end of a test: the launcher submits requests under
  fresh timestamps, the timer turns, replies arrive in any number and order, the user moves on.\<close>

inductive client_step :: "client \<Rightarrow> client \<Rightarrow> bool" where
  submit: "map_of (inflight c) (cr_timestamp req) = None \<Longrightarrow> client_step c (submit now req c)"
| turn: "TimerLoop_turn now c = Inr c' \<Longrightarrow> client_step c c'"
| reply: "client_step c (HandleLeaderReply rep c)"
| move_on: "client_step c (HandleMoveOn_client c)"
| reset: "client_step c (reset_leaders_per_cluster c)"

inductive_cases client_stepE: "client_step c c'"

text \<open>The unanswered requests in the queue are exactly those of the table.\<close>

definition client_ok :: "client \<Rightarrow> bool" where
  "client_ok c \<longleftrightarrow>
     remaining c = int (length (inflight c)) \<and> omap_ok (inflight c) \<and> distinct (timer_heap c) \<and>
     (\<forall>r\<in>set (timer_heap c). r < next_ref c) \<and>
     (\<forall>ts r. map_of (inflight c) ts = Some r \<longleftrightarrow>
        r \<in> set (timer_heap c) \<and> \<not> p_completed (store c r) \<and>
        cr_timestamp (p_request (store c r)) = ts)"

lemma length_omap_put: "omap_ok m \<Longrightarrow> map_of m k = None \<Longrightarrow> length (omap_put k v m) = length m + 1"
  by (induction k v m rule: omap_put.induct) (auto simp: omap_ok_Cons split: if_splits)

lemma length_omap_erase:
  "omap_ok m \<Longrightarrow> map_of m k = Some v \<Longrightarrow> length (omap_erase k m) + 1 = length m"
proof (induction m)
  case (Cons e m)
  show ?case
  proof (cases "fst e = k")
    case True
    then have "filter (\<lambda>x. fst x \<noteq> k) m = m"
      using Cons.prems(1) by (auto simp: omap_ok_Cons intro!: filter_True)
    with True show ?thesis by (simp add: omap_erase_def)
  next
    case False
    with Cons show ?thesis by (cases e) (simp add: omap_erase_def omap_ok_Cons)
  qed
qed simp

lemma client_ok_submit:
  assumes "client_ok c" and "map_of (inflight c) (cr_timestamp req) = None"
  shows "client_ok (submit now req c)"
proof -
  have fresh: "next_ref c \<notin> set (timer_heap c)" using assms(1) by (auto simp: client_ok_def)
  have other: "\<not> (r \<in> set (timer_heap c) \<and> \<not> p_completed (store c r) \<and>
      cr_timestamp (p_request (store c r)) = cr_timestamp req)" for r
    using assms by (metis client_ok_def option.distinct(1))
  show ?thesis
    using assms fresh other
    by (auto simp: client_ok_def submit_def SendRequest_def Let_def new_pending_def length_omap_put
        omap_ok_put less_Suc_eq)
qed

lemma client_ok_queue:
  assumes "client_ok c" and "distinct h" and "set h \<subseteq> set (timer_heap c)"
    and "\<And>r. r \<in> set (timer_heap c) \<Longrightarrow> \<not> p_completed (store c r) \<Longrightarrow> r \<in> set h"
    and "\<And>r. p_completed (st r) = p_completed (store c r)"
    and "\<And>r. p_request (st r) = p_request (store c r)"
  shows "client_ok (c\<lparr>store := st, timer_heap := h, sent := x\<rparr>)"
proof -
  have "r \<in> set h \<and> \<not> p_completed (store c r) \<longleftrightarrow>
      r \<in> set (timer_heap c) \<and> \<not> p_completed (store c r)" for r
    using assms(3,4) by blast
  then have eq: "r \<in> set h \<and> \<not> p_completed (store c r) \<and> cr_timestamp (p_request (store c r)) = ts \<longleftrightarrow>
      r \<in> set (timer_heap c) \<and> \<not> p_completed (store c r) \<and>
      cr_timestamp (p_request (store c r)) = ts" for r ts
    by blast
  have "\<forall>r\<in>set h. r < next_ref c" using assms(1,3) by (auto simp: client_ok_def)
  then show ?thesis using assms(1,2) by (simp add: client_ok_def assms(5,6) eq)
qed

lemma client_ok_turn:
  assumes "client_ok c" and "TimerLoop_turn now c = Inr c'"
  shows "client_ok c'"
proof -
  have dist: "distinct (timer_heap c)" using assms(1) by (simp add: client_ok_def)
  obtain st h due where cd: "collect_due now (store c) (timer_heap c) [] = (st, h, due)"
    by (cases "collect_due now (store c) (timer_heap c) []") auto
  from collect_due_collected [OF cd dist]
  have col: "collected now (store c) (timer_heap c) st h due" by simp
  let ?c = "c\<lparr>store := st, timer_heap := h @ map fst due\<rparr>"
  have "foldE send_due due ?c = Inr c'" using assms(2) by (simp add: TimerLoop_turn_def cd)
  moreover have "\<forall>d\<in>set due. \<not> p_completed (store ?c (fst d))"
    using col by (auto simp: collected_def reschedule_def due_now_def)
  ultimately obtain x where c': "c' = ?c\<lparr>sent := x\<rparr>" using send_all_effect by blast
  have same: "p_completed (st r) = p_completed (store c r)" "p_request (st r) = p_request (store c r)" for r
    using col by (auto simp: collected_def reschedule_def)
  have d: "fst ` set due = {r \<in> set (timer_heap c). due_now now (store c) r}"
    using col by (auto simp: collected_def image_iff)
  have h: "set h \<subseteq> set (timer_heap c)" "distinct (h @ map fst due)"
    "\<forall>r\<in>set (timer_heap c). \<not> p_completed (store c r) \<and> \<not> due_now now (store c) r \<longrightarrow> r \<in> set h"
    using col unfolding collected_def by blast+
  show ?thesis
    unfolding c' by (rule client_ok_queue [OF assms(1)]) (use h d same in auto)
qed

lemma client_ok_reply:
  assumes "client_ok c"
  shows "client_ok (HandleLeaderReply rep c)"
proof (cases "map_of (inflight c) (rp_timestamp rep)")
  case None
  then show ?thesis using assms by (simp add: HandleLeaderReply_def client_ok_def Let_def)
next
  case (Some r)
  have len: "int (length (omap_erase (rp_timestamp rep) (inflight c))) = int (length (inflight c)) - 1"
    using length_omap_erase [OF _ Some] assms by (simp add: client_ok_def)
  have iff: "map_of (inflight c) ts = Some q \<longleftrightarrow> q \<in> set (timer_heap c) \<and> \<not> p_completed (store c q) \<and>
      cr_timestamp (p_request (store c q)) = ts" for ts q
    using assms by (simp add: client_ok_def)
  have iff': "((map_of (inflight c))(rp_timestamp rep := None)) ts = Some q \<longleftrightarrow>
      q \<in> set (timer_heap c) \<and>
      \<not> p_completed (((store c)(r := (store c r)\<lparr>p_completed := True\<rparr>)) q) \<and>
      cr_timestamp (p_request (((store c)(r := (store c r)\<lparr>p_completed := True\<rparr>)) q)) = ts" for ts q
    using iff [of ts q] iff [of ts r] Some iff [of "rp_timestamp rep" r] by (cases "q = r") auto
  have eq: "HandleLeaderReply rep c =
      c\<lparr>store := (store c)(r := (store c r)\<lparr>p_completed := True\<rparr>),
        inflight := omap_erase (rp_timestamp rep) (inflight c),
        leader_per_cluster := (leader_per_cluster c)
          ((b_node (rp_ballot rep) - 1) sdiv c_clusters c + 1 := b_node (rp_ballot rep)),
        remaining := remaining c - 1\<rparr>"
    by (simp add: HandleLeaderReply_def Some Let_def complete_def)
  show ?thesis
    unfolding eq client_ok_def
    using assms len iff' by (simp add: client_ok_def omap_ok_erase)
qed

lemma fold_complete:
  "fold complete rs c = c\<lparr>store := (\<lambda>r. if r \<in> set rs then (store c r)\<lparr>p_completed := True\<rparr> else store c r)\<rparr>"
  by (induction rs arbitrary: c) (auto simp: complete_def fun_eq_iff)

lemma client_ok_step:
  assumes "client_step c c'" and "client_ok c"
  shows "client_ok c'"
  using assms(1)
proof (cases rule: client_step.cases)
  case move_on
  then show ?thesis
    using assms(2) by (simp add: HandleMoveOn_client_def Let_def fold_complete client_ok_def)
next
  case reset
  then show ?thesis using assms(2) by (simp add: reset_leaders_per_cluster_def client_ok_def)
qed (use assms(2) client_ok_submit client_ok_turn client_ok_reply in auto)

lemma client_ok_reachable:
  assumes "rtranclp client_step (PaxosClient_init nodes clusters ranges) c"
  shows "client_ok c"
proof -
  have "client_ok (PaxosClient_init nodes clusters ranges)"
    by (simp add: PaxosClient_init_def reset_leaders_per_cluster_def client_ok_def)
  with assms show ?thesis by (induction rule: rtranclp_induct) (auto intro: client_ok_step)
qed

text \<open>
  C34: the client's counter is exact. Along any run from the start, \<^verbatim>\<open>remaining_transactions\<close>
  is the number of requests still in the table, the requests of the table are exactly the unanswered
  ones in the timer queue, and so the launcher, which waits until the counter is not positive, goes
  on exactly when nothing is left to answer or resend. Repeated replies do not disturb it.
\<close>

theorem remaining_counts_unanswered:
  assumes "rtranclp client_step (PaxosClient_init nodes clusters ranges) c"
  shows "remaining c = int (length (inflight c)) \<and>
    (\<forall>ts r. map_of (inflight c) ts = Some r \<longleftrightarrow>
       r \<in> set (timer_heap c) \<and> \<not> p_completed (store c r) \<and>
       cr_timestamp (p_request (store c r)) = ts) \<and>
    (\<not> remaining c > 0 \<longleftrightarrow> (\<nexists>r. r \<in> set (timer_heap c) \<and> \<not> p_completed (store c r)))"
proof -
  note ok = client_ok_reachable [OF assms]
  have "inflight c = [] \<longleftrightarrow> (\<nexists>r. r \<in> set (timer_heap c) \<and> \<not> p_completed (store c r))"
  proof
    assume "inflight c = []"
    then show "\<nexists>r. r \<in> set (timer_heap c) \<and> \<not> p_completed (store c r)"
      using ok by (auto simp: client_ok_def)
  next
    assume none: "\<nexists>r. r \<in> set (timer_heap c) \<and> \<not> p_completed (store c r)"
    then have "map_of (inflight c) ts = None" for ts
      using ok by (cases "map_of (inflight c) ts") (auto simp: client_ok_def)
    then have "map_of (inflight c) = Map.empty" by blast
    then show "inflight c = []" by simp
  qed
  with ok show ?thesis by (simp add: client_ok_def)
qed

theorem remaining_counts_unanswered_witness:
  "\<exists>rep. remaining (HandleLeaderReply rep demo_client) = 0 \<and>
     remaining (HandleLeaderReply rep (HandleLeaderReply rep demo_client)) = 0"
proof -
  let ?rep = "\<lparr>rp_ballot = Ballot 1 1, rp_timestamp = 7, rp_client_id = [], rp_success = True,
    rp_from_this_term = True, rp_read_only_balance = 0\<rparr>"
  let ?c1 = "HandleLeaderReply ?rep demo_client"
  let ?c2 = "HandleLeaderReply ?rep ?c1"
  have "client_step (PaxosClient_init [1, 2, 3, 4, 5, 6, 7, 8, 9] 3 demo_shards) demo_client"
    unfolding demo_client_def
    by (rule client_step.submit) (simp add: PaxosClient_init_def reset_leaders_per_cluster_def)
  then have c1: "rtranclp client_step (PaxosClient_init [1, 2, 3, 4, 5, 6, 7, 8, 9] 3 demo_shards) ?c1"
    by (auto intro: client_step.reply rtranclp.rtrancl_into_rtrancl)
  then have c2: "rtranclp client_step (PaxosClient_init [1, 2, 3, 4, 5, 6, 7, 8, 9] 3 demo_shards) ?c2"
    by (rule rtranclp.rtrancl_into_rtrancl) (rule client_step.reply)
  from c1 c2 have "remaining ?c1 = int (length (inflight ?c1))" "remaining ?c2 = int (length (inflight ?c2))"
    using remaining_counts_unanswered by blast+
  moreover have "inflight ?c1 = []"
    by (simp add: HandleLeaderReply_def omap_erase_def)
  moreover from this have "inflight ?c2 = []"
    by (simp add: HandleLeaderReply_def [of _ ?c1] Let_def)
  ultimately show ?thesis by auto
qed

section \<open>The leader table\<close>

lemma reply_leader_table:
  "leader_per_cluster (HandleLeaderReply rep c) =
     (leader_per_cluster c)((b_node (rp_ballot rep) - 1) sdiv c_clusters c + 1 := b_node (rp_ballot rep))"
  by (simp add: HandleLeaderReply_def complete_def Let_def split: option.split)

text \<open>A node whose reply is filed under another cluster, when clusters do not have as many nodes as
  there are clusters.\<close>

lemma misfiled_leader:
  assumes "1 \<le> d" "1 \<le> k" "d \<noteq> (k::int)"
  shows "\<exists>i. 1 \<le> i \<and> i \<le> d * k \<and> (i - 1) div k \<noteq> (i - 1) div d"
proof (cases "d < k")
  case True
  have "d * 2 \<le> d * k" using True assms by (intro mult_left_mono) auto
  then have "d + 1 \<le> d * k" using assms(1) by linarith
  then show ?thesis using True assms by (intro exI [of _ "d + 1"]) auto
next
  case False
  have "d * 1 \<le> d * k" using assms by (intro mult_left_mono) auto
  then have "k + 1 \<le> d * k" using False assms by linarith
  then show ?thesis using False assms by (intro exI [of _ "k + 1"]) auto
qed

text \<open>
  C35: the client learns a new leader only in square deployments. The table entry of a leader's
  cluster is its number after its reply, for every client with \<open>k\<close> clusters of \<open>d\<close> nodes and
  every leader, exactly when \<open>d = k\<close>: the code divides the node number by the number of clusters
  instead of the number of nodes in a cluster.
\<close>

theorem leader_table_correct_iff_square:
  assumes "1 \<le> d" and "1 \<le> k"
  shows "(\<forall>c rep. c_clusters c = k \<and> 1 \<le> b_node (rp_ballot rep) \<and> b_node (rp_ballot rep) \<le> d * k \<longrightarrow>
      leader_per_cluster (HandleLeaderReply rep c) (cluster_of_node d (b_node (rp_ballot rep))) =
        b_node (rp_ballot rep)) \<longleftrightarrow> d = k"
proof
  assume "d = k"
  then show "\<forall>c rep. c_clusters c = k \<and> 1 \<le> b_node (rp_ballot rep) \<and> b_node (rp_ballot rep) \<le> d * k \<longrightarrow>
      leader_per_cluster (HandleLeaderReply rep c) (cluster_of_node d (b_node (rp_ballot rep))) =
        b_node (rp_ballot rep)"
    by (simp add: reply_leader_table cluster_of_node_def)
next
  assume all: "\<forall>c rep. c_clusters c = k \<and> 1 \<le> b_node (rp_ballot rep) \<and> b_node (rp_ballot rep) \<le> d * k \<longrightarrow>
      leader_per_cluster (HandleLeaderReply rep c) (cluster_of_node d (b_node (rp_ballot rep))) =
        b_node (rp_ballot rep)"
  show "d = k"
  proof (rule ccontr)
    assume "d \<noteq> k"
    with misfiled_leader [OF assms] obtain i where
      i: "1 \<le> i" "i \<le> d * k" "(i - 1) div k \<noteq> (i - 1) div d" by blast
    let ?c = "(PaxosClient_init [] k (\<lambda>_. 0))\<lparr>leader_per_cluster := \<lambda>_. 0\<rparr>"
    let ?rep = "\<lparr>rp_ballot = Ballot 1 i, rp_timestamp = 0, rp_client_id = [], rp_success = True,
      rp_from_this_term = True, rp_read_only_balance = 0\<rparr>"
    have "c_clusters ?c = k" by (simp add: PaxosClient_init_def reset_leaders_per_cluster_def)
    with all [rule_format, of ?c ?rep] i assms show False
      by (simp add: reply_leader_table cluster_of_node_def split: if_splits)
  qed
qed

theorem leader_table_correct_iff_square_witness:
  "\<not> (\<forall>c rep. c_clusters c = 1 \<and> 1 \<le> b_node (rp_ballot rep) \<and> b_node (rp_ballot rep) \<le> 3 * 1 \<longrightarrow>
      leader_per_cluster (HandleLeaderReply rep c) (cluster_of_node 3 (b_node (rp_ballot rep))) =
        b_node (rp_ballot rep))"
  using leader_table_correct_iff_square [of 3 1] by simp

end
