(* ===== verification/TestRun.thy ===== *)
theory TestRun
  imports Driver Client
begin

text \<open>
  A test run: the driver's events (\<open>Driver\<close>) drive the client (\<open>Client\<close>), while its timer turns,
  replies arrive and the user moves on, in any interleaving. The driver waits until the shared
  counter \<^verbatim>\<open>remaining_transactions\<close> is not positive, and gives every request a new number, so the
  client's contract holds without further assumptions on the requests.
\<close>

section \<open>What a file makes the driver do\<close>

fun submitted :: "driver_event list \<Rightarrow> int list" where
  "submitted [] = []"
| "submitted (Submit r # es) = cr_timestamp r # submitted es"
| "submitted (_ # es) = submitted es"

lemma submitted_append [simp]: "submitted (es @ fs) = submitted es @ submitted fs"
  by (induction es rule: submitted.induct) simp_all

text \<open>Events that need all earlier requests answered: the prompt, and killing or reviving a node.\<close>

definition disturbs :: "driver_event \<Rightarrow> bool" where
  "disturbs e \<longleftrightarrow> e = Prompt \<or>
     (\<exists>us u. e = AliveUpdates us \<and> u \<in> snd ` set us \<and> (au_kill_leader u \<or> au_recover u))"

text \<open>The last wait is not followed by a request, before each such event. \<open>quiet\<close> says whether that
  is so at the start.\<close>

fun guarded :: "bool \<Rightarrow> driver_event list \<Rightarrow> bool" where
  "guarded quiet [] = True"
| "guarded quiet (e # es) =
     ((disturbs e \<longrightarrow> quiet) \<and>
      guarded (case e of WaitForReplies \<Rightarrow> True | Submit r \<Rightarrow> False | _ \<Rightarrow> quiet) es)"

definition waited :: "driver_event list \<Rightarrow> bool" where
  "waited es \<longleftrightarrow> guarded True es"

lemma guarded_wait: "guarded q es \<Longrightarrow> guarded True fs \<Longrightarrow> guarded q (es @ WaitForReplies # fs)"
  by (induction es arbitrary: q) (auto split: driver_event.splits simp: disturbs_def)

lemma guarded_calm: "guarded q es \<Longrightarrow> guarded False fs \<Longrightarrow> guarded q (es @ fs)"
proof (induction es arbitrary: q)
  case Nil
  have "guarded False fs \<Longrightarrow> guarded True fs" for fs
    by (induction fs) (auto split: driver_event.splits simp: disturbs_def)
  with Nil show ?case by (cases q) simp_all
qed auto

lemma calm_updates:
  "\<not> disturbs (AliveUpdates (map (\<lambda>i. (i, alive_request (P i) False False b r)) stubs))"
  by (auto simp: disturbs_def alive_request_def)

text \<open>What every row keeps: the requests so far are numbered from 0 in order, and every disturbing
  event comes after a wait.\<close>

definition driver_ok :: "driver \<Rightarrow> bool" where
  "driver_ok d \<longleftrightarrow> 0 \<le> num d \<and> submitted (trace d) = [0..num d - 1] \<and> waited (trace d)"

lemma between_sets_ok: "driver_ok d \<Longrightarrow> between_sets stubs d = Inr d' \<Longrightarrow> driver_ok d'"
  using calm_updates [of "\<lambda>_. False"]
  by (auto simp: between_sets_def SendAliveUpdateAsync_def happen_def driver_ok_def waited_def disturbs_def
      intro!: guarded_wait)

lemma modify_node_ok: "driver_ok d \<Longrightarrow> modify_node stubs f r i d = Inr d' \<Longrightarrow> driver_ok d'"
  by (auto simp: modify_node_def exn_simps happen_def driver_ok_def waited_def intro!: guarded_wait)

lemma submit_ok:
  assumes "driver_ok d" and "StartClientRequests stubs e (new_request a b amt ro (num d))
      (d\<lparr>active_nodes_set := act, num := num d + 1, transactions_processed := tp\<rparr>) = Inr d'"
  shows "driver_ok d'"
proof -
  have "[0..num d] = [0..num d - 1] @ [num d]" using assms(1) by (simp add: driver_ok_def upto_rec2)
  then show ?thesis using assms
    by (cases e) (auto simp: StartClientRequests_def SendAliveUpdateAsync_def happen_def driver_ok_def
        waited_def new_request_def disturbs_def alive_request_def intro!: guarded_calm)
qed

lemma run_command_ok: "driver_ok d \<Longrightarrow> run_command trim stubs e f c d = Inr d' \<Longrightarrow> driver_ok d'"
  by (cases c) (auto simp: run_command_def Let_def intro: modify_node_ok submit_ok)

lemma run_fields_ok:
  assumes "driver_ok d" and "run_fields trim stubs fs d = Inr d'"
  shows "driver_ok d'"
proof -
  obtain d1 d2 c where
    d1: "(if fs ! 0 \<noteq> [] \<and> current_set_number d \<noteq> 0 then between_sets stubs d else Inr d) = Inr d1"
    and d2: "(if fs ! 0 \<noteq> [] then bindE (stoi (fs ! 0)) (\<lambda>n.
      Inr (d1\<lparr>current_set_number := n, active_nodes_set := {}\<rparr>)) else Inr d1) = Inr d2"
    and d': "run_command trim stubs (fs ! 0 = []) (fs ! 2) c d2 = Inr d'"
    using assms(2) unfolding run_fields_def Let_def by (elim bindE_InrE) blast
  have "driver_ok d1" using d1 assms(1) by (auto split: if_splits intro: between_sets_ok)
  then have "driver_ok d2" using d2 by (auto simp: exn_simps driver_ok_def split: if_splits)
  then show ?thesis using d' by (rule run_command_ok)
qed

lemma run_line_ok: "driver_ok d \<Longrightarrow> run_line tok trim stubs line d = Inr d' \<Longrightarrow> driver_ok d'"
  by (auto simp: run_line_def exn_simps split: if_splits intro: run_fields_ok)

lemma run_file_ok:
  assumes "run_file tok trim stubs text = Inr d"
  shows "driver_ok d"
proof -
  obtain d1 where d1: "foldE (run_line tok trim stubs) (getlines nl text) driver_init = Inr d1"
    and fin: "finish_run stubs d1 = Inr d"
    using assms unfolding run_file_def by (rule bindE_InrE)
  have "driver_ok d1"
  proof (rule foldE_invariant [OF d1])
    show "driver_ok driver_init" by (simp add: driver_ok_def driver_init_def waited_def)
  qed (auto intro: run_line_ok)
  then show ?thesis using fin calm_updates [of "\<lambda>_. False"]
    by (auto simp: finish_run_def SendAliveUpdateAsync_def happen_def driver_ok_def waited_def disturbs_def
        intro!: guarded_wait)
qed

section \<open>Driver and client together\<close>

inductive test_step :: "driver_event list \<times> client \<Rightarrow> driver_event list \<times> client \<Rightarrow> bool" where
  wait: "\<not> remaining c > 0 \<Longrightarrow> test_step (WaitForReplies # es, c) (es, c)"
| submit: "test_step (Submit req # es, c) (es, submit now req c)"
| reset: "test_step (ResetLeaders # es, c) (es, reset_leaders_per_cluster c)"
| prompt: "test_step (Prompt # es, c) (es, c)"
| update: "test_step (AliveUpdates us # es, c) (es, c)"
| turn: "TimerLoop_turn now c = Inr c' \<Longrightarrow> test_step (es, c) (es, c')"
| reply: "test_step (es, c) (es, HandleLeaderReply rep c)"
| move_on: "test_step (es, c) (es, HandleMoveOn_client c)"

inductive_cases test_stepE: "test_step s s'"

definition run_ok :: "driver_event list \<times> client \<Rightarrow> bool" where
  "run_ok s \<longleftrightarrow>
     client_ok (snd s) \<and> distinct (submitted (fst s)) \<and>
     (\<forall>ts\<in>set (submitted (fst s)). map_of (inflight (snd s)) ts = None) \<and>
     (guarded False (fst s) \<or> guarded True (fst s) \<and> inflight (snd s) = [])"

lemma guarded_mono: "guarded False es \<Longrightarrow> guarded True es"
  by (induction es) (auto split: driver_event.splits)

lemma turn_inflight: "TimerLoop_turn now c = Inr c' \<Longrightarrow> inflight c' = inflight c"
proof -
  have send: "inflight c' = inflight c" if "send_due d c = Inr c'" for d c c'
  proof -
    have "inflight (fold (\<lambda>i. client_call_node i req) ns c) = inflight c" for req ns and c :: client
      by (induction ns arbitrary: c) (simp_all add: client_call_node_def)
    with that show ?thesis
      by (auto simp: send_due_def SendToLeader_def BroadcastRequest_def client_call_node_def Let_def
          exn_simps split: if_splits)
  qed
  assume "TimerLoop_turn now c = Inr c'"
  then obtain st h due where "foldE send_due due (c\<lparr>store := st, timer_heap := h\<rparr>) = Inr c'"
    by (auto simp: TimerLoop_turn_def split: prod.splits)
  then show ?thesis by (rule foldE_invariant [where P = "\<lambda>x. inflight x = inflight c"]) (auto dest: send)
qed

lemma reply_inflight:
  "map_of (inflight c) ts = None \<Longrightarrow> map_of (inflight (HandleLeaderReply rep c)) ts = None"
  "inflight c = [] \<Longrightarrow> inflight (HandleLeaderReply rep c) = []"
  by (auto simp: HandleLeaderReply_def Let_def complete_def split: option.splits)

lemma move_on_inflight: "inflight (HandleMoveOn_client c) = []"
  by (simp add: HandleMoveOn_client_def Let_def fold_complete)

lemma run_ok_step:
  assumes "test_step s s'" and "run_ok s"
  shows "run_ok s'"
  using assms(1)
proof (cases rule: test_step.cases)
  case (wait c es)
  then have "inflight c = []" using assms(2) by (simp add: run_ok_def client_ok_def)
  with wait assms(2) show ?thesis by (auto simp: run_ok_def dest: guarded_mono)
next
  case (submit req es c now)
  have ok: "client_ok (Client.submit now req c)"
    using assms(2) by (intro client_ok_submit) (auto simp: submit run_ok_def)
  have "inflight (Client.submit now req c) = omap_put (cr_timestamp req) (next_ref c) (inflight c)"
    by (simp add: submit_def SendRequest_def Let_def)
  with ok assms(2) show ?thesis by (auto simp: submit run_ok_def)
next
  case (reset es c)
  have "client_ok (reset_leaders_per_cluster c)" "inflight (reset_leaders_per_cluster c) = inflight c"
    using client_step.reset client_ok_step assms(2)
    by (auto simp: reset run_ok_def reset_leaders_per_cluster_def)
  with assms(2) show ?thesis by (auto simp: reset run_ok_def)
next
  case (turn now c c' es)
  with assms(2) show ?thesis using client_ok_turn turn_inflight by (auto simp: run_ok_def)
next
  case (reply es c rep)
  with assms(2) show ?thesis using client_ok_reply reply_inflight by (auto simp: run_ok_def)
next
  case (move_on es c)
  then have "client_ok (HandleMoveOn_client c)"
    using client_step.move_on client_ok_step assms(2) by (auto simp: run_ok_def)
  with move_on assms(2) show ?thesis by (auto simp: run_ok_def move_on_inflight dest: guarded_mono)
qed (use assms(2) in \<open>auto simp: run_ok_def\<close>)

lemma run_empty_workload:
  "\<exists>d us. run_file (\<lambda>s. Inr (split_csv False [] s)) trim_blanks [1, 2, 3] (write_csv [] (node_names [1, 2])) =
     Inr d \<and> trace d = [WaitForReplies, AliveUpdates us, Prompt]"
proof -
  have first: "run_line (\<lambda>s. Inr (split_csv False [] s)) trim_blanks [1, 2, 3]
      (csv_first [] (node_names [1, 2])) driver_init = Inr (driver_init\<lparr>current_set_number := 1\<rparr>)"
    using run_csv_first [OF split_csv_ok trim_blanks_ok, of "[]" "[1, 2]" "[1, 2, 3]"]
    by (simp add: int_min_def int_max_def)
  have "run_line (\<lambda>s. Inr (split_csv False [] s)) trim_blanks [1, 2, 3] csv_header driver_init = Inr driver_init"
    by (simp add: run_line_def csv_header_def)
  with first show ?thesis
    by (simp add: run_file_def getlines_write_csv finish_run_def SendAliveUpdateAsync_def happen_def driver_init_def)
qed

text \<open>
  C14: nothing is outstanding when a test prompts or changes the nodes. Whatever the file says, and
  in every interleaving of the driver with the client's timer, replies and moving on: when the driver
  is about to prompt, or to kill or revive a node, every request submitted before has been answered
  or given up; and no request ever reuses a number that is still in use.
\<close>

theorem prompt_after_answers:
  assumes "run_file tok trim stubs text = Inr d"
    and "rtranclp test_step (trace d, PaxosClient_init nodes clusters ranges) (e # es, c)"
  shows "(disturbs e \<longrightarrow> remaining c = 0 \<and> (\<nexists>r. r \<in> set (timer_heap c) \<and> \<not> p_completed (store c r))) \<and>
    (\<forall>req. e = Submit req \<longrightarrow> map_of (inflight c) (cr_timestamp req) = None)"
proof -
  have "driver_ok d" using assms(1) by (rule run_file_ok)
  then have "run_ok (trace d, PaxosClient_init nodes clusters ranges)"
    by (simp add: run_ok_def driver_ok_def waited_def PaxosClient_init_def reset_leaders_per_cluster_def
        client_ok_def)
  with assms(2) have ok: "run_ok (e # es, c)"
    by (induction rule: rtranclp_induct) (auto intro: run_ok_step)
  then have "disturbs e \<Longrightarrow> inflight c = []" by (auto simp: run_ok_def)
  moreover have "inflight c = [] \<Longrightarrow> remaining c = 0 \<and> (\<nexists>r. r \<in> set (timer_heap c) \<and> \<not> p_completed (store c r))"
    using ok by (simp add: run_ok_def client_ok_def) blast
  moreover have "e = Submit req \<Longrightarrow> map_of (inflight c) (cr_timestamp req) = None" for req
    using ok by (simp add: run_ok_def)
  ultimately show ?thesis by blast
qed

theorem prompt_after_answers_witness:
  "\<exists>d. run_file (\<lambda>s. Inr (split_csv False [] s)) trim_blanks [1, 2, 3] (write_csv [] (node_names [1, 2])) = Inr d \<and>
    (\<exists>es. rtranclp test_step (trace d, PaxosClient_init [1, 2, 3] 1 (\<lambda>_. 1))
        (Prompt # es, PaxosClient_init [1, 2, 3] 1 (\<lambda>_. 1))) \<and>
    remaining (PaxosClient_init [1, 2, 3] 1 (\<lambda>_. 1)) = 0"
proof -
  let ?c = "PaxosClient_init [1, 2, 3] 1 (\<lambda>_. 1)"
  obtain d us where d: "run_file (\<lambda>s. Inr (split_csv False [] s)) trim_blanks [1, 2, 3]
      (write_csv [] (node_names [1, 2])) = Inr d"
    and t: "trace d = [WaitForReplies, AliveUpdates us, Prompt]"
    using run_empty_workload by blast
  have "test_step (trace d, ?c) ([AliveUpdates us, Prompt], ?c)"
    unfolding t by (rule test_step.wait) (simp add: PaxosClient_init_def reset_leaders_per_cluster_def)
  moreover have "test_step ([AliveUpdates us, Prompt], ?c) ([Prompt], ?c)" by (rule test_step.update)
  ultimately have run: "rtranclp test_step (trace d, ?c) ([Prompt], ?c)" by simp
  from prompt_after_answers [OF d run] have "remaining ?c = 0" by (simp add: disturbs_def)
  with d run show ?thesis by blast
qed

end
