(* ===== verification/RingLog.thy ===== *)
theory RingLog
  imports Prelude
begin

text \<open>
  The log of \<^verbatim>\<open>src/log.h\<close>: the compile-time switches, \<^verbatim>\<open>LogLine\<close>, and the in-memory trace
  ring that a signal dumps. The contract of a trace that keeps the last statements is the locale
  \<open>bounded_trace\<close>, a functional refinement of the list of all statements; it is interpreted on the
  ring. The index is the 64-bit counter of the code, with its wrap-around written out; the ring keeps
  its promise until it wraps.
\<close>

section \<open>The ring\<close>

definition kRingSlots :: nat where "kRingSlots = 300000"
definition kRingSlotLen :: nat where "kRingSlotLen = 200"

definition nul :: char where "nul = CHR 0x00"

text \<open>A slot is an array of \<^verbatim>\<open>kRingSlotLen\<close> bytes; bytes behind the terminator keep what an
  earlier statement left there.\<close>

record ring =
  ring_buf :: "nat \<Rightarrow> char list"
  ring_idx :: nat

definition ring_init :: ring where
  "ring_init = \<lparr>ring_buf = (\<lambda>_. replicate kRingSlotLen nul), ring_idx = 0\<rparr>"

definition ring_write :: "string \<Rightarrow> ring \<Rightarrow> ring" where
  "ring_write s r =
     (let slot = ring_idx r;
          dst = slot mod kRingSlots;
          n = (if length s \<ge> kRingSlotLen then kRingSlotLen - 1 else length s)
      in r\<lparr>ring_idx := (slot + 1) mod 2 ^ 64,
           ring_buf := (ring_buf r)
             (dst := take n s @ [nul] @ drop (n + 1) (ring_buf r dst))\<rparr>)"

definition strnlen_prefix :: "char list \<Rightarrow> string" where
  "strnlen_prefix p = takeWhile (\<lambda>c. c \<noteq> nul) (take kRingSlotLen p)"

definition ring_line :: "string \<Rightarrow> string" where
  "ring_line p = (if p = [] then [] else p @ [CHR 0x0A])"

definition ring_hdr :: string where
  "ring_hdr = [CHR 0x0A] @ ''=== TRACE RING (oldest -> newest) ==='' @ [CHR 0x0A]"

definition ring_ftr :: string where
  "ring_ftr = ''=== END TRACE RING ==='' @ [CHR 0x0A]"

definition ring_begin :: "ring \<Rightarrow> nat" where
  "ring_begin r = (if ring_idx r > kRingSlots then ring_idx r - kRingSlots else 0)"

definition ring_dump :: "ring \<Rightarrow> string" where
  "ring_dump r =
     ring_hdr @
     concat (map (\<lambda>k. ring_line (strnlen_prefix (ring_buf r (k mod kRingSlots))))
               [ring_begin r..<ring_idx r]) @
     ring_ftr"

section \<open>Statements\<close>

text \<open>The build switches, and the destructor of \<^verbatim>\<open>LogLine\<close>; \<open>out\<close> is standard output.\<close>

record log_config =
  PAXOS_TRACE :: bool
  PAXOS_TRACE_RING :: bool

definition kTrace :: "log_config \<Rightarrow> bool" where
  "kTrace cfg \<longleftrightarrow> PAXOS_TRACE cfg \<or> PAXOS_TRACE_RING cfg"

definition kTraceRing :: "log_config \<Rightarrow> bool" where
  "kTraceRing cfg \<longleftrightarrow> PAXOS_TRACE_RING cfg"

definition LogLine_end :: "log_config \<Rightarrow> string \<Rightarrow> ring \<times> string \<Rightarrow> ring \<times> string" where
  "LogLine_end cfg s st =
     (if kTraceRing cfg then (ring_write s (fst st), snd st) else (fst st, snd st @ s))"

definition LOG_stmt :: "log_config \<Rightarrow> string \<Rightarrow> ring \<times> string \<Rightarrow> ring \<times> string" where
  "LOG_stmt cfg s st = (if \<not> kTrace cfg then st else LogLine_end cfg s st)"

definition LOGERR_stmt :: "log_config \<Rightarrow> string \<Rightarrow> ring \<times> string \<Rightarrow> ring \<times> string" where
  "LOGERR_stmt = LogLine_end"

section \<open>The contract of a bounded trace\<close>

definition last_n :: "nat \<Rightarrow> 'a list \<Rightarrow> 'a list" where
  "last_n n xs = drop (length xs - n) xs"

lemma last_n_snoc: "last_n n (last_n n xs @ [x]) = last_n n (xs @ [x])"
proof (cases "n \<le> length xs")
  case True
  then show ?thesis by (auto simp: last_n_def Suc_diff_le)
qed (simp add: last_n_def)

lemma length_last_n: "length (last_n n xs) = min n (length xs)"
  by (simp add: last_n_def)

locale bounded_trace =
  fixes put :: "'d \<Rightarrow> 's \<Rightarrow> 's"
    and retained :: "'s \<Rightarrow> 'e list"
    and written :: "'s \<Rightarrow> nat"
    and shown :: "'d \<Rightarrow> 'e"
    and cap limit :: nat
    and start :: 's
  assumes start_empty: "retained start = []" "written start = 0"
    and put_counts: "written s + 1 < limit \<Longrightarrow> written (put d s) = written s + 1"
    and put_retains: "written s + 1 < limit \<Longrightarrow>
      retained (put d s) = last_n cap (retained s @ [shown d])"
begin

lemma retained_last:
  "length ds < limit \<Longrightarrow>
     written (fold put ds start) = length ds \<and>
     retained (fold put ds start) = last_n cap (map shown ds)"
proof (induction ds rule: rev_induct)
  case Nil
  then show ?case by (simp add: start_empty last_n_def)
next
  case (snoc d ds)
  then show ?case by (simp add: put_counts put_retains last_n_snoc)
qed

lemma retained_all:
  "length ds < limit \<Longrightarrow> length ds \<le> cap \<Longrightarrow> retained (fold put ds start) = map shown ds"
  using retained_last [of ds] by (simp add: last_n_def)

end

section \<open>The ring implements it\<close>

text \<open>What a statement shows in a dump: its first 199 bytes, up to a zero byte.\<close>

definition ring_shown :: "string \<Rightarrow> string" where
  "ring_shown s = takeWhile (\<lambda>c. c \<noteq> nul) (take (kRingSlotLen - 1) s)"

definition ring_retained :: "ring \<Rightarrow> string list" where
  "ring_retained r =
     map (\<lambda>k. strnlen_prefix (ring_buf r (k mod kRingSlots))) [ring_begin r..<ring_idx r]"

lemma slot_shows:
  assumes "length s < kRingSlotLen"
  shows "strnlen_prefix (s @ nul # rest) = ring_shown s"
proof -
  have "take kRingSlotLen (s @ nul # rest) = s @ nul # take (kRingSlotLen - Suc (length s)) rest"
    using assms by (simp add: take_Cons')
  moreover have "take (kRingSlotLen - 1) s = s" using assms by simp
  ultimately show ?thesis
    by (auto simp: strnlen_prefix_def ring_shown_def takeWhile_append takeWhile_eq_all_conv [THEN iffD2])
qed

lemma ring_shown_take: "ring_shown (take (kRingSlotLen - Suc 0) s) = ring_shown s"
  by (simp add: ring_shown_def)

lemma ring_write_slots:
  "strnlen_prefix (ring_buf (ring_write s r) j) =
     (if j = ring_idx r mod kRingSlots then ring_shown s else strnlen_prefix (ring_buf r j))"
proof -
  have "length (take (kRingSlotLen - 1) s) < kRingSlotLen" by (simp add: kRingSlotLen_def)
  from slot_shows [OF this] slot_shows [of s] show ?thesis
    by (simp add: ring_write_def Let_def ring_shown_take)
qed

lemma same_slot_window:
  assumes "i mod kRingSlots = k mod kRingSlots" and "i < k" and "k < i + kRingSlots"
  shows False
proof -
  have "kRingSlots dvd k - i" using assms(1,2) by (metis mod_eq_dvd_iff_nat less_imp_le)
  with assms(2,3) show False by (auto dest: dvd_imp_le)
qed

lemma ring_write_retains:
  assumes "ring_idx r + 1 < 2 ^ 64"
  shows "ring_retained (ring_write s r) = last_n kRingSlots (ring_retained r @ [ring_shown s])"
proof -
  let ?e = "ring_idx r" and ?w = "ring_write s r"
  define f g where "f = (\<lambda>k. strnlen_prefix (ring_buf r (k mod kRingSlots)))"
    and "g = (\<lambda>k. strnlen_prefix (ring_buf ?w (k mod kRingSlots)))"
  have idx: "ring_idx ?w = ?e + 1" using assms by (simp add: ring_write_def Let_def)
  have b: "ring_begin ?w \<le> ?e" by (simp add: ring_begin_def idx kRingSlots_def)
  have old: "g k = f k" if "k \<in> set [ring_begin ?w..<?e]" for k
  proof -
    have "k < ?e" "?e < k + kRingSlots"
      using that by (auto simp: ring_begin_def idx split: if_splits)
    then have "k mod kRingSlots \<noteq> ?e mod kRingSlots" using same_slot_window [of k ?e] by blast
    then show ?thesis by (simp add: f_def g_def ring_write_slots)
  qed
  have new: "g ?e = ring_shown s" by (simp add: g_def ring_write_slots)
  have "ring_retained ?w = map f [ring_begin ?w..<?e] @ [ring_shown s]"
    using b old new by (simp add: ring_retained_def idx f_def g_def cong: map_cong)
  also have "\<dots> = last_n kRingSlots (map f [ring_begin r..<?e] @ [ring_shown s])"
    by (auto simp: last_n_def ring_begin_def idx drop_map drop_upt kRingSlots_def)
  finally show ?thesis by (simp add: ring_retained_def f_def)
qed

interpretation trace_ring: bounded_trace ring_write ring_retained ring_idx ring_shown kRingSlots
  "2 ^ 64" ring_init
proof unfold_locales
  show "ring_retained ring_init = []" "ring_idx ring_init = 0"
    by (simp_all add: ring_retained_def ring_init_def)
qed (simp_all add: ring_write_retains, simp add: ring_write_def Let_def)

text \<open>
  C36: the trace ring refines the list of all statements. After any number of statements below
  2 to the 64, a dump prints, between its header and footer, exactly the last 300000 of them, oldest
  first, one per line, each cut to its first 199 bytes and at a zero byte, without the empty ones.
\<close>

theorem ring_dump_shows_last:
  assumes "length ds < 2 ^ 64"
  shows "ring_dump (fold ring_write ds ring_init) =
    ring_hdr @ concat (map (\<lambda>s. ring_line (ring_shown s)) (last_n kRingSlots ds)) @ ring_ftr"
proof -
  have "ring_retained (fold ring_write ds ring_init) = map ring_shown (last_n kRingSlots ds)"
    using trace_ring.retained_last [OF assms] by (simp add: last_n_def drop_map)
  then have "map (\<lambda>k. ring_line (strnlen_prefix (ring_buf (fold ring_write ds ring_init) (k mod kRingSlots))))
      [ring_begin (fold ring_write ds ring_init)..<ring_idx (fold ring_write ds ring_init)] =
    map (\<lambda>s. ring_line (ring_shown s)) (last_n kRingSlots ds)"
    by (simp add: ring_retained_def flip: map_map [unfolded comp_def])
      (metis (no_types, lifting) map_map comp_def map_eq_conv)
  then show ?thesis by (simp add: ring_dump_def)
qed

theorem ring_dump_shows_last_witness:
  "ring_dump (ring_write ''b'' (ring_write [] (ring_write ''a'' ring_init))) =
     ring_hdr @ ''a'' @ [CHR 0x0A] @ ''b'' @ [CHR 0x0A] @ ring_ftr"
  using ring_dump_shows_last [of "[''a'', [], ''b'']"]
  by (simp add: last_n_def kRingSlots_def ring_line_def ring_shown_def kRingSlotLen_def nul_def)

end
