(* ===== verification/Startup.thy ===== *)
theory Startup
  imports TestRun NodeInfo RingLog
begin

text \<open>
  \<^verbatim>\<open>main\<close> of \<^verbatim>\<open>src/node_launch.cpp\<close> around the read loop of \<open>Driver\<close>: signals,
  arguments, the node processes and the client it starts, the thread that reads the terminal during
  a set, and the end of the run. A node process is its state, or \<open>None\<close> when it has ended. Waiting for
  processes to boot is left out.
\<close>

section \<open>Signals\<close>

datatype signal = SIGUSR1 | SIGHUP | SIGTERM | SIGABRT | SIGSEGV

datatype handler = DumpTraceSignalHandler | HangupDumpHandler | SIG_DFL

record process =
  p_handlers :: "signal \<Rightarrow> handler"
  p_ring :: ring
  p_stderr :: string
  p_ended :: "signal option"

definition InstallTraceDumpHandlers :: "process \<Rightarrow> process" where
  "InstallTraceDumpHandlers p =
     p\<lparr>p_handlers := (p_handlers p)(SIGUSR1 := DumpTraceSignalHandler, SIGHUP := HangupDumpHandler,
        SIGTERM := HangupDumpHandler, SIGABRT := HangupDumpHandler, SIGSEGV := HangupDumpHandler)\<rparr>"

definition dump_trace :: "log_config \<Rightarrow> process \<Rightarrow> process" where
  "dump_trace cfg p = (if kTraceRing cfg then p\<lparr>p_stderr := p_stderr p @ ring_dump (p_ring p)\<rparr> else p)"

text \<open>The default action of each of these signals ends the process.\<close>

definition deliver_signal :: "log_config \<Rightarrow> signal \<Rightarrow> process \<Rightarrow> process" where
  "deliver_signal cfg sig p =
     (case p_handlers p sig of
        DumpTraceSignalHandler \<Rightarrow> dump_trace cfg p
      | HangupDumpHandler \<Rightarrow>
          let p1 = dump_trace cfg p; p2 = p1\<lparr>p_handlers := (p_handlers p1)(sig := SIG_DFL)\<rparr>
          in p2\<lparr>p_ended := Some sig\<rparr>
      | SIG_DFL \<Rightarrow> p\<lparr>p_ended := Some sig\<rparr>)"

section \<open>Processes\<close>

definition node_address :: "int \<Rightarrow> string" where
  "node_address i = ''127.0.0.1:'' @ to_string (5000 + i)"

definition node_addresses :: "int \<Rightarrow> (int \<times> string) list" where
  "node_addresses total_nodes = map (\<lambda>i. (i, node_address i)) [1..total_nodes]"

definition client_address :: "string \<Rightarrow> string" where
  "client_address client_id =
     ''127.0.0.1:'' @ to_string (6000 + ((if client_id = [] then 0 else int (of_char (hd client_id))) - 65) + 1)"

definition launch_clients :: "string list" where
  "launch_clients = [''A'']"

definition run_node ::
  "int \<Rightarrow> (int \<times> string) list \<Rightarrow> string list \<Rightarrow> (int, int) omap \<Rightarrow> int \<Rightarrow> int \<Rightarrow> bool \<Rightarrow> exn + node" where
  "run_node i addrs clients shards clusters now kprint =
     (case map_of addrs i of
        None \<Rightarrow> Inl OutOfRange
      | Some address \<Rightarrow> Inr (PaxosNode_init i BACKUP (map fst addrs) clients
                           (\<lambda>item. mapping_get item shards) clusters now kprint))"

record system =
  s_nodes :: "int \<Rightarrow> node option"
  s_stubs :: "int list"
  s_client :: client

definition TOTAL_ITEMS :: int where "TOTAL_ITEMS = 9000"

text \<open>Forking the nodes and making the client. \<^verbatim>\<open>clients["A"]\<close> is the only one.\<close>

definition launch :: "int \<Rightarrow> int \<Rightarrow> int \<Rightarrow> bool \<Rightarrow> exn + system" where
  "launch nodes_per_cluster clusters now kprint =
     (if clusters = 0 then Inl DivisionByZero
      else if nodes_per_cluster * clusters < 0 then Inl LengthError
      else
        let r = MakeShardMap TOTAL_ITEMS clusters;
            addrs = node_addresses (nodes_per_cluster * clusters)
        in Inr \<lparr>s_nodes = (\<lambda>i. case run_node i addrs launch_clients r clusters now kprint of
                              Inl e \<Rightarrow> None | Inr n \<Rightarrow> Some n),
                s_stubs = map fst addrs,
                s_client = PaxosClient_init (map fst addrs) clusters (\<lambda>item. mapping_get item r)\<rparr>)"

section \<open>The terminal during a set\<close>

text \<open>A handler that fails ends the node; the caller sees a failed RPC.\<close>

definition SendMoveOn :: "int \<Rightarrow> system \<Rightarrow> exn + (bool \<times> system)" where
  "SendMoveOn target_node_id s =
     (if target_node_id \<notin> set (s_stubs s) then Inl NullStub
      else case s_nodes s target_node_id of
        None \<Rightarrow> Inr (False, s)
      | Some n \<Rightarrow>
          (case HandleMoveOn n of
             Inl e \<Rightarrow> Inr (False, s\<lparr>s_nodes := (s_nodes s)(target_node_id := None)\<rparr>)
           | Inr (accepted, m) \<Rightarrow> Inr (accepted, s\<lparr>s_nodes := (s_nodes s)(target_node_id \<mapsto> m)\<rparr>)))"

text \<open>
  \<^verbatim>\<open>InputThread\<close>, one access to the rest of the system at a time, because each call waits for
  its answer while nodes, client and driver go on. \<open>input\<close> is \<open>None\<close> when \<^verbatim>\<open>select\<close> timed out or no
  line could be read; the flag is \<^verbatim>\<open>stop_input\<close>.
\<close>

datatype input_pos = Polling | Calling "int list" | Stopped | Failed exn

fun InputThread_step ::
  "string option \<Rightarrow> int set \<Rightarrow> input_pos \<times> bool \<times> system \<Rightarrow> input_pos \<times> bool \<times> system" where
  "InputThread_step input active_nodes (Polling, stop_input, s) =
     (if stop_input then (Stopped, stop_input, s)
      else case input of
        None \<Rightarrow> (Polling, stop_input, s)
      | Some l \<Rightarrow>
          if l = ''Continue'' \<or> l = ''continue''
          then (Calling (sorted_list_of_set active_nodes), stop_input, s)
          else (Polling, stop_input, s))"
| "InputThread_step input active_nodes (Calling (target # ids), stop_input, s) =
     (case SendMoveOn target s of
        Inl e \<Rightarrow> (Failed e, stop_input, s) | Inr (accepted, s1) \<Rightarrow> (Calling ids, stop_input, s1))"
| "InputThread_step input active_nodes (Calling [], stop_input, s) =
     (Stopped, True, s\<lparr>s_client := HandleMoveOn_client (s_client s)\<rparr>)"
| "InputThread_step input active_nodes (Stopped, stop_input, s) = (Stopped, stop_input, s)"
| "InputThread_step input active_nodes (Failed e, stop_input, s) = (Failed e, stop_input, s)"

section \<open>Arguments and the whole run\<close>

text \<open>\<^verbatim>\<open>std::stof\<close> on decimal notation without exponent; rounding is left out.\<close>

definition stof :: "string \<Rightarrow> exn + real" where
  "stof s =
     (let t = dropWhile is_space s;
          neg = (t \<noteq> [] \<and> hd t = CHR ''-'');
          u = (if t \<noteq> [] \<and> (hd t = CHR ''-'' \<or> hd t = CHR ''+'') then tl t else t);
          whole = takeWhile is_digit u; rest = dropWhile is_digit u;
          frac = (if rest \<noteq> [] \<and> hd rest = CHR ''.'' then takeWhile is_digit (tl rest) else []);
          v = real_of_int (digits_val whole) + real_of_int (digits_val frac) / 10 ^ length frac
      in if whole = [] \<and> frac = [] then Inl InvalidArgument else Inr (if neg then - v else v))"

record arguments =
  a_filename :: string
  a_nodes_per_cluster :: int
  a_clusters :: int
  a_benchmark :: bool
  a_total_txns :: int
  a_read_pct :: real
  a_cross_shard_pct :: real
  a_skewness :: real

definition parse_args :: "string list \<Rightarrow> exn + arguments" where
  "parse_args args =
     bindE (stoi (args ! 2)) (\<lambda>p. bindE (stoi (args ! 3)) (\<lambda>k. bindE (stoi (args ! 5)) (\<lambda>n.
     bindE (stof (args ! 6)) (\<lambda>rd. bindE (stof (args ! 7)) (\<lambda>cs. bindE (stof (args ! 8)) (\<lambda>sk.
       Inr \<lparr>a_filename = args ! 1, a_nodes_per_cluster = p, a_clusters = k,
            a_benchmark = (args ! 4 = ''true''), a_total_txns = n, a_read_pct = rd,
            a_cross_shard_pct = cs, a_skewness = sk\<rparr>))))))"

definition benchmark_nodes :: "string list" where
  "benchmark_nodes = [''n1'', ''n2'', ''n3'', ''n4'', ''n5'', ''n6'', ''n7'', ''n8'', ''n9'']"

text \<open>The name of the workload and the files after the generator, which may not return; \<open>writable\<close> tells
  whether its file can be opened.\<close>

definition prepare_workload ::
  "'r dists \<Rightarrow> 'r \<Rightarrow> bool \<Rightarrow> arguments \<Rightarrow> (string \<rightharpoonup> string) \<Rightarrow> (exn + string \<times> (string \<rightharpoonup> string)) option" where
  "prepare_workload g r writable a fs =
     (if a_benchmark a then
        map_option (\<lambda>res. bindE res (\<lambda>txns. Inr (''benchmark.csv'',
          if writable then fs(''../test_data/benchmark.csv'' \<mapsto> write_csv txns benchmark_nodes) else fs)))
          (generate_txns g (a_total_txns a) TOTAL_ITEMS (a_clusters a) (a_read_pct a)
             (a_cross_shard_pct a) (a_skewness a) r)
      else Some (Inr (a_filename a, fs)))"

datatype outcome = Exit int | Crash exn

text \<open>\<^verbatim>\<open>SIGKILL\<close> to every node process, then \<^verbatim>\<open>waitpid\<close>.\<close>

definition shutdown :: "int list \<Rightarrow> int list \<Rightarrow> int list" where
  "shutdown pids running = fold removeAll pids running"

text \<open>How the launcher ends, and the node processes it leaves running. Returning while the thread of the
  completion queue can still be joined ends in \<^verbatim>\<open>std::terminate\<close>.\<close>

definition main ::
  "(string \<Rightarrow> exn + string list) \<Rightarrow> (string \<Rightarrow> string) \<Rightarrow> 'r dists \<Rightarrow> 'r \<Rightarrow> bool \<Rightarrow> (string \<rightharpoonup> string) \<Rightarrow>
   string list \<Rightarrow> (outcome \<times> int list) option" where
  "main tok trim g r writable fs args =
     (if length args \<noteq> 9 then Some (Exit 1, [])
      else case parse_args args of
        Inl e \<Rightarrow> Some (Crash e, [])
      | Inr a \<Rightarrow>
          if a_clusters a = 0 then Some (Crash DivisionByZero, [])
          else case prepare_workload g r writable a fs of
            None \<Rightarrow> None
          | Some (Inl e) \<Rightarrow> Some (Crash e, [])
          | Some (Inr (filename, fs1)) \<Rightarrow>
              if a_nodes_per_cluster a * a_clusters a < 0 then Some (Crash LengthError, [])
              else
                let pids = map fst (node_addresses (a_nodes_per_cluster a * a_clusters a)) in
                case fs1 (''../tests/test_data/'' @ filename) of
                  None \<Rightarrow> Some (Crash Aborted, pids)
                | Some text \<Rightarrow>
                    (case run_file tok trim pids text of
                       Inl e \<Rightarrow> Some (Crash e, pids)
                     | Inr d \<Rightarrow> Some (Exit 0, shutdown pids pids)))"

section \<open>The traces are dumped before a signal ends the process\<close>

lemma signals_dump:
  assumes "kTraceRing cfg"
  shows "p_stderr (deliver_signal cfg sig (InstallTraceDumpHandlers p)) = p_stderr p @ ring_dump (p_ring p)"
    and "p_ended (deliver_signal cfg sig (InstallTraceDumpHandlers p)) =
      (if sig = SIGUSR1 then p_ended p else Some sig)"
  using assms
  by (cases sig; simp add: deliver_signal_def InstallTraceDumpHandlers_def dump_trace_def)+

section \<open>What the launcher starts\<close>

lemma node_addresses_ids [simp]: "map fst (node_addresses n) = [1..n]"
  by (simp add: node_addresses_def comp_def)

lemma node_addresses_at: "map_of (node_addresses n) i = (if 1 \<le> i \<and> i \<le> n then Some (node_address i) else None)"
proof -
  have "map_of (map (\<lambda>i. (i, node_address i)) is) i = (if i \<in> set is then Some (node_address i) else None)" for "is"
    by (induction "is") auto
  then show ?thesis by (simp add: node_addresses_def)
qed

lemma run_node_launched:
  "run_node i (node_addresses n) clients r k now kp =
     (if 1 \<le> i \<and> i \<le> n then Inr (PaxosNode_init i BACKUP [1..n] clients (\<lambda>item. mapping_get item r) k now kp)
      else Inl OutOfRange)"
  by (simp add: run_node_def node_addresses_at)

text \<open>The state of a node of \<open>k\<close> clusters of \<open>p\<close> nodes.\<close>

lemma init_layout:
  assumes "1 \<le> p" and "1 \<le> k" and "1 \<le> i" and "i \<le> p * k"
    and n: "n = PaxosNode_init i BACKUP [1..p * k] cl sm k now kp"
  shows "node_id n = i" "role n = BACKUP" "cluster_id n = (i - 1) div p + 1" "f_max n = (p - 1) div 2"
    "shard_map n = sm" "1 \<le> c \<Longrightarrow> c \<le> k \<Longrightarrow> cluster_leaders n c = p * (c - 1) + 1"
    "set (cluster_peers n) = {j. 1 \<le> j \<and> j \<le> p * k \<and> (j - 1) div p = (i - 1) div p} - {i}"
proof -
  have pk: "0 \<le> p * k" "p * k div k = p" using assms(1,2) by auto
  have d: "cluster_divisor (int (length [1..p * k])) k = p"
    using pk assms(2) by (simp add: cluster_divisor_def)
  have s: "node_id n = i" "role n = BACKUP" "cluster_id n = cluster_of_node p i" "f_max n = max_faulty p"
    "shard_map n = sm" "cluster_leaders n = (\<lambda>c. if 1 \<le> c \<and> c \<le> k then initial_leader p c else 0)"
    "range_lo n = range_low p i" "range_hi n = range_high p i" "peers n = [1..p * k]"
    unfolding n PaxosNode_init_def d Let_def by simp_all
  show "node_id n = i" "role n = BACKUP" "cluster_id n = (i - 1) div p + 1" "f_max n = (p - 1) div 2"
    "shard_map n = sm"
    using s assms by (simp_all add: cluster_of_node_def max_faulty_def)
  show "cluster_leaders n c = p * (c - 1) + 1" if "1 \<le> c" "c \<le> k"
    using s that by (simp add: initial_leader_def)
  have "in_my_range n j \<longleftrightarrow> (j - 1) div p = (i - 1) div p" if "1 \<le> j" for j
    using in_range_same_cluster [of p i j] assms(1,3) that
    by (auto simp: in_my_range_def s cluster_of_node_def)
  then show "set (cluster_peers n) = {j. 1 \<le> j \<and> j \<le> p * k \<and> (j - 1) div p = (i - 1) div p} - {i}"
    by (auto simp: cluster_peers_def s)
qed

lemma client_leaders:
  assumes "1 \<le> p" and "1 \<le> k" and "1 \<le> c" and "c \<le> k"
  shows "leader_per_cluster (PaxosClient_init [1..p * k] k sm) c = p * (c - 1) + 1"
proof -
  have "x sdiv k = p * (c - 1)" if "x = (p * (c - 1)) * k" for x
    using assms that by simp
  from this [of "(c - 1) * (p * k)"] have "((c - 1) * (p * k)) sdiv k = p * (c - 1)" by simp
  then show ?thesis using assms by (simp add: PaxosClient_init_def reset_leaders_per_cluster_def)
qed

lemma first_node_range:
  assumes "1 \<le> p" and "1 \<le> (c :: int)" and "c \<le> k"
  shows "1 \<le> p * (c - 1) + 1 \<and> p * (c - 1) + 1 \<le> p * k"
proof -
  have "0 \<le> p * (c - 1)" "p * (c - 1) + p \<le> p * k"
    using assms mult_left_mono [of c k p] by (auto simp: algebra_simps)
  with assms(1) show ?thesis by linarith
qed

lemma initial_shard_range:
  assumes "1 \<le> k" and "1 \<le> x" and "x \<le> 9000"
  shows "1 \<le> mapping_get x (MakeShardMap TOTAL_ITEMS k) \<and> mapping_get x (MakeShardMap TOTAL_ITEMS k) \<le> k"
proof -
  obtain c where c: "map_of (MakeShardMap TOTAL_ITEMS k) x = Some c"
    using MakeShardMap_iff(2) [OF assms(1), of TOTAL_ITEMS x] assms(2,3) by (auto simp: TOTAL_ITEMS_def)
  then show ?thesis
    using MakeShardMap_iff(1) [OF assms(1), of TOTAL_ITEMS x c] by (simp add: mapping_get_def TOTAL_ITEMS_def)
qed

text \<open>
  C20: the parts of a deployment agree. With at least one node in each of at least one cluster, the
  launcher starts exactly the nodes it has addresses for; every node knows its own cluster, its
  peers are the other nodes of that cluster, and it tolerates less than half of them; all nodes and the
  client take the same node, one that exists and belongs to the cluster, for its leader; all share one
  placement, which gives every item from 1 to 9000 a cluster.
\<close>

theorem deployment_agrees:
  assumes "1 \<le> p" and "1 \<le> k" and "launch p k now kprint = Inr s"
  shows "(\<forall>i. s_nodes s i \<noteq> None \<longleftrightarrow> 1 \<le> i \<and> i \<le> p * k) \<and>
    (\<forall>i n. s_nodes s i = Some n \<longrightarrow>
       node_id n = i \<and> role n = BACKUP \<and> cluster_id n = (i - 1) div p + 1 \<and> f_max n = (p - 1) div 2 \<and>
       set (cluster_peers n) = {j. s_nodes s j \<noteq> None \<and> (j - 1) div p = (i - 1) div p} - {i} \<and>
       shard_map n = sharding_map (s_client s) \<and>
       (\<forall>c. 1 \<le> c \<and> c \<le> k \<longrightarrow> cluster_leaders n c = leader_per_cluster (s_client s) c)) \<and>
    (\<forall>c. 1 \<le> c \<and> c \<le> k \<longrightarrow>
       (\<exists>m. s_nodes s (leader_per_cluster (s_client s) c) = Some m \<and> cluster_id m = c)) \<and>
    (\<forall>x. 1 \<le> x \<and> x \<le> 9000 \<longrightarrow> 1 \<le> sharding_map (s_client s) x \<and> sharding_map (s_client s) x \<le> k)"
proof -
  let ?sm = "\<lambda>item. mapping_get item (MakeShardMap TOTAL_ITEMS k)"
  let ?init = "\<lambda>i. PaxosNode_init i BACKUP [1..p * k] launch_clients ?sm k now kprint"
  have "0 \<le> p * k" using assms(1,2) by simp
  then have s: "s_nodes s = (\<lambda>i. if 1 \<le> i \<and> i \<le> p * k then Some (?init i) else None)"
    "s_client s = PaxosClient_init [1..p * k] k ?sm"
    using assms(2,3) by (auto simp: launch_def run_node_launched Let_def fun_eq_iff)
  have sm: "sharding_map (s_client s) = ?sm"
    by (simp add: s PaxosClient_init_def reset_leaders_per_cluster_def)
  note lay = init_layout [OF assms(1,2) _ _ refl] and led = client_leaders [OF assms(1,2), of _ ?sm]
  have nodes: "s_nodes s i \<noteq> None \<longleftrightarrow> 1 \<le> i \<and> i \<le> p * k" for i by (simp add: s)
  have lead: "s_nodes s (p * (c - 1) + 1) = Some (?init (p * (c - 1) + 1)) \<and>
      cluster_id (?init (p * (c - 1) + 1)) = c" if c: "1 \<le> c" "c \<le> k" for c
    using first_node_range [OF assms(1) c] lay(3) [of "p * (c - 1) + 1"] assms(1) by (simp add: s)
  show ?thesis
  proof (intro conjI allI impI)
    fix i n assume n: "s_nodes s i = Some n"
    then have i: "1 \<le> i" "i \<le> p * k" and ni: "n = ?init i" by (auto simp: s split: if_splits)
    show "node_id n = i" "role n = BACKUP" "cluster_id n = (i - 1) div p + 1" "f_max n = (p - 1) div 2"
      "shard_map n = sharding_map (s_client s)"
      unfolding ni sm by (rule lay [OF i])+
    show "set (cluster_peers n) = {j. s_nodes s j \<noteq> None \<and> (j - 1) div p = (i - 1) div p} - {i}"
      unfolding ni lay(7) [OF i] nodes by auto
    show "cluster_leaders n c = leader_per_cluster (s_client s) c" if "1 \<le> c \<and> c \<le> k" for c
      using that led lay(6) [OF i] by (simp add: ni s)
  next
    fix c assume "1 \<le> c \<and> c \<le> k"
    then show "\<exists>m. s_nodes s (leader_per_cluster (s_client s) c) = Some m \<and> cluster_id m = c"
      using lead led by (simp add: s(2))
  qed (use nodes initial_shard_range [OF assms(2)] sm in auto)
qed

lemma demo_launch: "\<exists>s. launch 3 3 0 True = Inr s"
  by (simp add: launch_def Let_def)

theorem deployment_agrees_witness:
  "\<exists>s n. launch 3 3 0 True = Inr s \<and> s_nodes s 5 = Some n \<and> set (cluster_peers n) = {4, 6} \<and>
     leader_per_cluster (s_client s) 2 = 4"
proof -
  obtain s where s: "launch 3 3 0 True = Inr s" using demo_launch by blast
  note a = deployment_agrees [OF _ _ s]
  from a have nodes: "s_nodes s i \<noteq> None \<longleftrightarrow> 1 \<le> i \<and> i \<le> 9" for i by simp
  then obtain n where n: "s_nodes s 5 = Some n" by fastforce
  have "set (cluster_peers n) = {j. s_nodes s j \<noteq> None \<and> (j - 1) div 3 = (5 - 1) div 3} - {5}" and
    l: "cluster_leaders n 2 = leader_per_cluster (s_client s) 2" using a n by simp_all
  moreover have "{j. s_nodes s j \<noteq> None \<and> (j - 1) div 3 = (5 - 1) div 3} - {5} = {4, 6}"
    unfolding nodes by (auto simp: div_eq_iff_between)
  moreover have "cluster_leaders n 2 = 4"
    using s n by (auto simp: launch_def Let_def run_node_launched split: if_splits)
      (simp add: PaxosNode_init_def Let_def cluster_divisor_def initial_leader_def)
  ultimately show ?thesis using s n by auto
qed

section \<open>Moving on\<close>

text \<open>What may happen between two steps of the thread: anything at the nodes, and steps of the client.\<close>

definition meanwhile :: "system \<Rightarrow> system \<Rightarrow> bool" where
  "meanwhile s s' \<longleftrightarrow> s_stubs s' = s_stubs s \<and> rtranclp client_step (s_client s) (s_client s')"

text \<open>The calls made, each with the node before and after it.\<close>

fun called :: "input_pos \<Rightarrow> system \<Rightarrow> system \<Rightarrow> (int \<times> node option \<times> node option) list" where
  "called (Calling (i # is)) s s' = (if i \<in> set (s_stubs s) then [(i, s_nodes s i, s_nodes s' i)] else [])"
| "called pos s s' = []"

inductive input_run ::
  "string option \<Rightarrow> int set \<Rightarrow> system \<Rightarrow> (int \<times> node option \<times> node option) list \<Rightarrow> input_pos \<Rightarrow> bool \<Rightarrow> system \<Rightarrow> bool"
  for input active s0 where
  start: "input_run input active s0 [] Polling False s0"
| other: "input_run input active s0 tr pos stop s \<Longrightarrow> meanwhile s s' \<Longrightarrow> input_run input active s0 tr pos stop' s'"
| thread: "input_run input active s0 tr pos stop s \<Longrightarrow>
    InputThread_step input active (pos, stop, s) = (pos', stop', s') \<Longrightarrow>
    input_run input active s0 (tr @ called pos s s') pos' stop' s'"

text \<open>A call answers everything that waits at the node, unless the node has ended or ends.\<close>

definition answered :: "node option \<Rightarrow> node option \<Rightarrow> bool" where
  "answered b a \<longleftrightarrow> (b = None \<longrightarrow> a = None) \<and>
     (\<forall>n m. b = Some n \<and> a = Some m \<longrightarrow> pending_client_calls m = [] \<and> queued_client_requests m = [] \<and>
        outbox m = outbox n @
          map (\<lambda>c. RespondClientRequest (call_id (snd c))) (pending_client_calls n) @
          map (\<lambda>q. RespondClientRequest (call_id (snd q))) (queued_client_requests n))"

lemma SendMoveOn_effect:
  assumes "i \<in> set (s_stubs s)"
  shows "\<exists>b s'. SendMoveOn i s = Inr (b, s') \<and> s_client s' = s_client s \<and> s_stubs s' = s_stubs s \<and>
    answered (s_nodes s i) (s_nodes s' i)"
  using assms HandleMoveOn_answers
  by (auto simp: SendMoveOn_def answered_def split: option.split sum.split)

text \<open>Where the thread is, and the calls it has made.\<close>

definition on_course :: "int set \<Rightarrow> system \<Rightarrow> (int \<times> node option \<times> node option) list \<Rightarrow> input_pos \<Rightarrow> bool" where
  "on_course active s tr pos \<longleftrightarrow>
     (case pos of
        Polling \<Rightarrow> tr = []
      | Calling is \<Rightarrow> map fst tr @ is = sorted_list_of_set active
      | Stopped \<Rightarrow> True
      | Failed e \<Rightarrow> e = NullStub \<and> \<not> set (sorted_list_of_set active) \<subseteq> set (s_stubs s)) \<and>
     (\<forall>(i, b, a)\<in>set tr. i \<in> set (s_stubs s) \<and> answered b a)"

lemma on_course_step:
  assumes "on_course active s tr pos" and "InputThread_step input active (pos, stop, s) = (pos', stop', s')"
  shows "on_course active s' (tr @ called pos s s') pos' \<and> s_stubs s' = s_stubs s"
proof (cases pos)
  case (Calling js)
  show ?thesis
  proof (cases js)
    case (Cons i "is")
    show ?thesis
    proof (cases "i \<in> set (s_stubs s)")
      case True
      with SendMoveOn_effect obtain b s1 where
        "SendMoveOn i s = Inr (b, s1)" "s_stubs s1 = s_stubs s" "answered (s_nodes s i) (s_nodes s1 i)" by blast
      with assms True Calling Cons show ?thesis by (auto simp: on_course_def)
    next
      case False
      moreover have "i \<in> set (map fst tr @ js)" using Cons by simp
      moreover have "map fst tr @ js = sorted_list_of_set active" using assms(1) Calling by (simp add: on_course_def)
      ultimately have "\<not> set (sorted_list_of_set active) \<subseteq> set (s_stubs s)" by auto
      with False assms Calling Cons show ?thesis by (auto simp: on_course_def SendMoveOn_def)
    qed
  qed (use assms Calling in \<open>auto simp: on_course_def\<close>)
qed (use assms in \<open>auto simp: on_course_def split: if_splits option.splits\<close>)

lemma input_run_ok:
  assumes "input_run input active s0 tr pos stop s" and "rtranclp client_step c0 (s_client s0)"
  shows "on_course active s tr pos \<and> s_stubs s = s_stubs s0 \<and> rtranclp client_step c0 (s_client s)"
  using assms(1)
proof (induction rule: input_run.induct)
  case start
  show ?case using assms(2) by (simp add: on_course_def)
next
  case (other tr pos stop s s' stop')
  then show ?case
    by (auto simp: meanwhile_def on_course_def intro: rtranclp_trans split: input_pos.splits)
next
  case (thread tr pos stop s pos' stop' s')
  from thread(2) have "s_client s' = s_client s \<or> s_client s' = HandleMoveOn_client (s_client s)"
  proof (cases pos)
    case (Calling js)
    with thread(2) show ?thesis
      by (cases js) (auto simp: SendMoveOn_def split: if_splits option.splits sum.splits)
  qed (auto split: if_splits option.splits)
  moreover have "client_step (s_client s) (HandleMoveOn_client (s_client s))" by (rule client_step.move_on)
  ultimately have "rtranclp client_step c0 (s_client s')"
    using thread(3) by (auto intro: rtranclp.rtrancl_into_rtrancl)
  with on_course_step [OF _ thread(2), of tr] thread(3) show ?case by auto
qed

text \<open>Left alone, the thread gets through its calls.\<close>

lemma calls_end:
  assumes "input_run input active s0 tr (Calling is) stop s"
  shows "\<exists>tr1 stop1 s1. input_run input active s0 tr1
    (if set is \<subseteq> set (s_stubs s) then Calling [] else Failed NullStub) stop1 s1"
  using assms
proof (induction "is" arbitrary: tr s)
  case Nil
  then show ?case by auto
next
  case (Cons i js)
  show ?case
  proof (cases "i \<in> set (s_stubs s)")
    case True
    with SendMoveOn_effect obtain b s1 where s1: "SendMoveOn i s = Inr (b, s1)" "s_stubs s1 = s_stubs s" by blast
    from Cons.IH [OF input_run.thread [OF Cons.prems, of "Calling js" stop s1]] s1 True show ?thesis by simp
  next
    case False
    then have "InputThread_step input active (Calling (i # js), stop, s) = (Failed NullStub, stop, s)"
      by (simp add: SendMoveOn_def)
    from input_run.thread [OF Cons.prems this] False show ?thesis by auto
  qed
qed

text \<open>
  C38: what the command Continue does while a set runs, with the nodes and the client at work between the
  calls. The thread calls each node of the current list of live nodes once, in order, unless one of them
  was never started, which it calls through a null stub. Each node it calls has by the end of the call
  answered every client call that waited there, pending or queued, and none is left; a node
  that had ended stays so. When the last call is back, the next step empties the table of the client and
  sets its counter to zero, so the wait of the driver ends. When all listed nodes were started the
  thread can get that far. Nodes that are not on the list are not called. The list comes from the test file;
  the generated workload always names the nodes 1 to 9.
\<close>

theorem continue_unblocks:
  assumes "rtranclp client_step (PaxosClient_init stubs k ranges) (s_client s0)" and "finite active"
    and "c = ''Continue'' \<or> c = ''continue''" and "input_run (Some c) active s0 tr pos stop s"
  shows "(\<forall>e. pos = Failed e \<longrightarrow> e = NullStub \<and> \<not> active \<subseteq> set (s_stubs s0)) \<and>
    (\<forall>i n m. (i, Some n, Some m) \<in> set tr \<longrightarrow> pending_client_calls m = [] \<and> queued_client_requests m = [] \<and>
        outbox m = outbox n @
          map (\<lambda>c. RespondClientRequest (call_id (snd c))) (pending_client_calls n) @
          map (\<lambda>q. RespondClientRequest (call_id (snd q))) (queued_client_requests n)) \<and>
    (\<forall>i m. (i, None, Some m) \<notin> set tr) \<and>
    (pos = Calling [] \<longrightarrow> map fst tr = sorted_list_of_set active \<and> active \<subseteq> set (s_stubs s0) \<and>
       (\<exists>s1. InputThread_step (Some c) active (pos, stop, s) = (Stopped, True, s1) \<and> s_nodes s1 = s_nodes s \<and>
          inflight (s_client s1) = [] \<and> remaining (s_client s1) = 0)) \<and>
    (\<exists>tr1 stop1 s1. input_run (Some c) active s0 tr1
       (if active \<subseteq> set (s_stubs s0) then Calling [] else Failed NullStub) stop1 s1)"
proof -
  note ok = input_run_ok [OF assms(4,1)]
  then have course: "on_course active s tr pos" and stubs: "s_stubs s = s_stubs s0"
    and reach: "rtranclp client_step (PaxosClient_init stubs k ranges) (s_client s)" by blast+
  have "client_ok (HandleMoveOn_client (s_client s))"
    using client_ok_reachable [OF reach] client_step.move_on client_ok_step by blast
  then have r: "remaining (HandleMoveOn_client (s_client s)) = 0"
    by (simp add: client_ok_def move_on_inflight)
  have "input_run (Some c) active s0 [] (Calling (sorted_list_of_set active)) False s0"
    using input_run.thread [OF input_run.start, of "Some c" active s0 "Calling (sorted_list_of_set active)" False s0]
      assms(3) by auto
  from calls_end [OF this] have "\<exists>tr1 stop1 s1. input_run (Some c) active s0 tr1
       (if active \<subseteq> set (s_stubs s0) then Calling [] else Failed NullStub) stop1 s1"
    using assms(2) by simp
  moreover have "pos = Calling [] \<Longrightarrow> map fst tr = sorted_list_of_set active \<and> active \<subseteq> set (s_stubs s0)"
  proof -
    assume "pos = Calling []"
    then have m: "map fst tr = sorted_list_of_set active" using course by (simp add: on_course_def)
    have "fst ` set tr \<subseteq> set (s_stubs s0)" using course stubs by (auto simp: on_course_def)
    moreover have "fst ` set tr = active" using m assms(2) by (metis list.set_map set_sorted_list_of_set)
    ultimately show ?thesis using m by simp
  qed
  moreover have "pos = Failed e \<Longrightarrow> e = NullStub \<and> \<not> active \<subseteq> set (s_stubs s0)" for e
    using course stubs assms(2) by (simp add: on_course_def)
  moreover have "(i, b, a) \<in> set tr \<Longrightarrow> answered b a" for i b a
    using course by (auto simp: on_course_def)
  moreover have "pos = Calling [] \<Longrightarrow> \<exists>s1. InputThread_step (Some c) active (pos, stop, s) = (Stopped, True, s1) \<and>
      s_nodes s1 = s_nodes s \<and> inflight (s_client s1) = [] \<and> remaining (s_client s1) = 0"
    using r by (simp add: move_on_inflight)
  ultimately show ?thesis unfolding answered_def by blast
qed

theorem continue_unblocks_witness:
  "\<exists>s0 tr stop s s1. remaining (s_client s0) = 1 \<and> s_nodes s0 2 \<noteq> None \<and>
     input_run (Some ''Continue'') {1, 2, 3} s0 tr (Calling []) stop s \<and> map fst tr = [1, 2, 3] \<and>
     InputThread_step (Some ''Continue'') {1, 2, 3} (Calling [], stop, s) = (Stopped, True, s1) \<and>
     remaining (s_client s1) = 0 \<and>
     (\<exists>tr' stop' s'. input_run (Some ''Continue'') {10} s0 tr' (Failed NullStub) stop' s')"
proof -
  obtain s where s: "launch 3 3 0 True = Inr s" using demo_launch by blast
  let ?s = "s\<lparr>s_client := demo_client\<rparr>"
  have stubs: "set (s_stubs ?s) = {1..9}" and n: "s_nodes ?s 2 \<noteq> None"
    using s by (auto simp: launch_def Let_def run_node_launched)
  have "client_step (PaxosClient_init [1, 2, 3, 4, 5, 6, 7, 8, 9] 3 demo_shards) demo_client"
    unfolding demo_client_def
    by (rule client_step.submit) (simp add: PaxosClient_init_def reset_leaders_per_cluster_def)
  then have r: "rtranclp client_step (PaxosClient_init [1, 2, 3, 4, 5, 6, 7, 8, 9] 3 demo_shards) (s_client ?s)"
    by simp
  have one: "remaining demo_client = 1"
    by (simp add: demo_client_def submit_def SendRequest_def PaxosClient_init_def reset_leaders_per_cluster_def Let_def)
  note c = continue_unblocks [OF r _ _ input_run.start, of _ "''Continue''"]
  obtain tr stop s2 where run: "input_run (Some ''Continue'') {1, 2, 3} ?s tr (Calling []) stop s2"
    using c [of "{1, 2, 3}"] unfolding stubs by auto
  note d = continue_unblocks [OF r _ _ run]
  have "sorted_list_of_set {1, 2, 3 :: int} = [1, 2, 3]" by (simp add: insort_insert_key_def)
  then obtain s1 where "map fst tr = [1, 2, 3]"
      "InputThread_step (Some ''Continue'') {1, 2, 3} (Calling [], stop, s2) = (Stopped, True, s1)"
      "remaining (s_client s1) = 0"
    using d by auto
  moreover obtain tr' stop' s' where "input_run (Some ''Continue'') {10} ?s tr' (Failed NullStub) stop' s'"
    using c [of "{10}"] unfolding stubs by auto
  moreover have "remaining (s_client ?s) = 1" using one by simp
  ultimately show ?thesis using run n
    by (intro exI [of _ ?s] exI [of _ tr] exI [of _ stop] exI [of _ s2] exI [of _ s1]) auto
qed

section \<open>The end of a run\<close>

lemma shutdown_all: "shutdown pids pids = []"
proof -
  have "set (fold removeAll ps rs) = set rs - set ps" for ps rs :: "int list"
    by (induction ps arbitrary: rs) auto
  then have "set (shutdown pids pids) = {}" by (simp add: shutdown_def)
  then show ?thesis by simp
qed

text \<open>Only a run that exits with code 0 stops the nodes.\<close>

lemma clean_exit_stops_nodes:
  assumes "main tok trim g r writable fs args = Some (out, left)"
  shows "left = [] \<or> (\<exists>a e. parse_args args = Inr a \<and> out = Crash e \<and> left = [1..a_nodes_per_cluster a * a_clusters a])"
  using assms
  by (auto simp: main_def Let_def shutdown_all split: if_splits sum.splits option.splits)

text \<open>A missing test file is found after the nodes were started, and they stay.\<close>

lemma missing_file_leaves_nodes:
  assumes "length args = 9" and "parse_args args = Inr a" and "\<not> a_benchmark a"
    and "1 \<le> a_nodes_per_cluster a" and "1 \<le> a_clusters a" and "fs (''../tests/test_data/'' @ a_filename a) = None"
  shows "main tok trim g r writable fs args = Some (Crash Aborted, [1..a_nodes_per_cluster a * a_clusters a])"
proof -
  have "\<not> a_nodes_per_cluster a * a_clusters a < 0" using assms(4,5) by (simp add: not_less)
  with assms show ?thesis by (simp add: main_def prepare_workload_def)
qed

text \<open>The generated workload is read only if its file was already there: it is written elsewhere.\<close>

lemma benchmark_file_not_read:
  assumes "prepare_workload g r writable a fs = Some (Inr (name, fs'))" and "a_benchmark a"
  shows "fs' (''../tests/test_data/'' @ name) = fs (''../tests/test_data/'' @ name)"
  using assms by (auto simp: prepare_workload_def exn_simps split: if_splits)

end
