(* ===== verification/CallData.thy ===== *)
theory CallData
  imports Prelude "HOL-Library.Sublist"
begin

text \<open>
  The call objects (\<^verbatim>\<open>src/call_data.cpp\<close>, \<^verbatim>\<open>src/call_data.h\<close>) and the polling loops that
  run them. A call object deletes itself. Its address is the tag of a pending operation, so from the
  moment it starts one, another polling thread may run it to its end and delete it. Each class is
  the list of the accesses its code makes to the object; a machine runs the threads of one object
  in every interleaving and notes an access to a deleted object or to an unset
  \<^verbatim>\<open>status_\<close>. The contract that makes this safe (an operation that publishes the object is the
  last access of its thread) is a locale for server calls and one for client calls, interpreted on the
  code of every class that has it.
\<close>

section \<open>The code of the classes\<close>

datatype call_status = CREATE | PROCESS | FINISH

datatype call_op =
    Put call_status  \<comment> \<open>assigns \<^verbatim>\<open>status_\<close>\<close>
  | Touch            \<comment> \<open>reads or writes another member\<close>
  | Spawn            \<comment> \<open>creates the object for the next call\<close>
  | Handle           \<comment> \<open>runs the handler of the node or client on the request\<close>
  | Defer            \<comment> \<open>stores the pointer to the object for a later \<^verbatim>\<open>Respond\<close>\<close>
  | Listen           \<comment> \<open>\<^verbatim>\<open>service_->Request...\<close> with the object as tag\<close>
  | Finish           \<comment> \<open>\<^verbatim>\<open>Finish\<close> with the object as tag\<close>
  | Delete           \<comment> \<open>\<^verbatim>\<open>delete this\<close>\<close>
  | Branch           \<comment> \<open>a polling thread calls \<^verbatim>\<open>Proceed\<close>, which tests \<^verbatim>\<open>status_\<close>\<close>

text \<open>A \<^verbatim>\<open>LOG\<close> statement that prints members is an access only in builds with tracing.\<close>

definition log_members :: "bool \<Rightarrow> call_op list" where
  "log_members trace = (if trace then [Touch] else [])"

datatype server_class = PrepareCallData | AcceptCallData | CommitCallData | NewViewCallData
  | SendClientRequestCallData | SubmitTransactionCallData | ReceiveAcceptAckCallData
  | HeartbeatCallData | AliveUpdateCallData | GetNodeInfoCallData | MoveOnCallData
  | AsyncServerCall | TwoPCCallData

fun PrepareCallData_Proceed :: "bool \<Rightarrow> call_status \<Rightarrow> call_op list" where
  "PrepareCallData_Proceed t CREATE = [Put PROCESS, Listen]"
| "PrepareCallData_Proceed t PROCESS = [Spawn, Handle, Defer]"
| "PrepareCallData_Proceed t FINISH = [Delete]"

fun PrepareCallData_new :: "bool \<Rightarrow> call_op list" where
  "PrepareCallData_new t = Put CREATE # PrepareCallData_Proceed t CREATE"

fun PrepareCallData_Respond :: "bool \<Rightarrow> call_op list" where
  "PrepareCallData_Respond t = [Touch, Put FINISH, Finish]"

fun AcceptCallData_Proceed :: "bool \<Rightarrow> call_status \<Rightarrow> call_op list" where
  "AcceptCallData_Proceed t CREATE = [Put PROCESS, Listen]"
| "AcceptCallData_Proceed t PROCESS = [Spawn, Handle, Put FINISH, Finish]"
| "AcceptCallData_Proceed t FINISH = [Delete]"

fun AcceptCallData_new :: "bool \<Rightarrow> call_op list" where
  "AcceptCallData_new t = Put CREATE # AcceptCallData_Proceed t CREATE"

fun CommitCallData_Proceed :: "bool \<Rightarrow> call_status \<Rightarrow> call_op list" where
  "CommitCallData_Proceed t CREATE = [Put PROCESS, Listen]"
| "CommitCallData_Proceed t PROCESS = [Spawn, Handle, Put FINISH, Finish]"
| "CommitCallData_Proceed t FINISH = log_members t @ [Delete]"

fun CommitCallData_new :: "bool \<Rightarrow> call_op list" where
  "CommitCallData_new t = Put CREATE # CommitCallData_Proceed t CREATE"

fun NewViewCallData_Proceed :: "bool \<Rightarrow> call_status \<Rightarrow> call_op list" where
  "NewViewCallData_Proceed t CREATE = [Put PROCESS, Listen]"
| "NewViewCallData_Proceed t PROCESS = [Spawn, Handle, Defer]"
| "NewViewCallData_Proceed t FINISH = Touch # log_members t @ [Delete]"

fun NewViewCallData_new :: "bool \<Rightarrow> call_op list" where
  "NewViewCallData_new t = Put CREATE # NewViewCallData_Proceed t CREATE"

fun NewViewCallData_Respond :: "bool \<Rightarrow> call_op list" where
  "NewViewCallData_Respond t = log_members t @ [Touch, Put FINISH, Finish]"

fun SendClientRequestCallData_Respond :: "bool \<Rightarrow> call_op list" where
  "SendClientRequestCallData_Respond t = [Touch, Put FINISH, Finish]"

text \<open>
  The handler of a client request works on the request inside the object, by reference. It may
  answer the call itself; or copy the request into the queue with the pointer (a call that is dropped
  is one that is never answered); or propose the request: then it stores the pointer, from when on
  other threads may answer, and after that reads the timestamp out of the object.
\<close>

datatype request_path = Answered | Queued | Proposed

fun HandleClientRequest_on_call :: "bool \<Rightarrow> request_path \<Rightarrow> call_op list" where
  "HandleClientRequest_on_call t Answered = Handle # SendClientRequestCallData_Respond t"
| "HandleClientRequest_on_call t Queued = [Handle, Defer]"
| "HandleClientRequest_on_call t Proposed = [Handle, Defer, Touch]"

fun SendClientRequestCallData_Proceed :: "bool \<Rightarrow> request_path \<Rightarrow> call_status \<Rightarrow> call_op list" where
  "SendClientRequestCallData_Proceed t h CREATE =
     [Put PROCESS, Spawn] @ log_members t @ HandleClientRequest_on_call t h"
| "SendClientRequestCallData_Proceed t h PROCESS = []"
| "SendClientRequestCallData_Proceed t h FINISH = log_members t @ [Delete]"

fun SendClientRequestCallData_new :: "bool \<Rightarrow> call_op list" where
  "SendClientRequestCallData_new t = [Put CREATE, Listen]"

fun SubmitTransactionCallData_Proceed :: "bool \<Rightarrow> call_status \<Rightarrow> call_op list" where
  "SubmitTransactionCallData_Proceed t CREATE = [Put PROCESS, Listen]"
| "SubmitTransactionCallData_Proceed t PROCESS = Spawn # log_members t @ [Touch, Put FINISH, Finish]"
| "SubmitTransactionCallData_Proceed t FINISH = log_members t @ [Delete]"

fun SubmitTransactionCallData_new :: "bool \<Rightarrow> call_op list" where
  "SubmitTransactionCallData_new t = Put CREATE # SubmitTransactionCallData_Proceed t CREATE"

fun ReceiveAcceptAckCallData_Proceed :: "bool \<Rightarrow> call_status \<Rightarrow> call_op list" where
  "ReceiveAcceptAckCallData_Proceed t CREATE = [Put PROCESS, Listen]"
| "ReceiveAcceptAckCallData_Proceed t PROCESS = [Spawn, Handle, Put FINISH, Finish]"
| "ReceiveAcceptAckCallData_Proceed t FINISH = log_members t @ [Delete]"

fun ReceiveAcceptAckCallData_new :: "bool \<Rightarrow> call_op list" where
  "ReceiveAcceptAckCallData_new t = Put CREATE # ReceiveAcceptAckCallData_Proceed t CREATE"

fun HeartbeatCallData_Proceed :: "bool \<Rightarrow> call_status \<Rightarrow> call_op list" where
  "HeartbeatCallData_Proceed t CREATE = [Put PROCESS, Listen]"
| "HeartbeatCallData_Proceed t PROCESS = [Spawn, Handle, Put FINISH, Finish]"
| "HeartbeatCallData_Proceed t FINISH = [Delete]"

fun HeartbeatCallData_new :: "bool \<Rightarrow> call_op list" where
  "HeartbeatCallData_new t = Put CREATE # HeartbeatCallData_Proceed t CREATE"

fun AliveUpdateCallData_Proceed :: "bool \<Rightarrow> call_status \<Rightarrow> call_op list" where
  "AliveUpdateCallData_Proceed t CREATE = [Put PROCESS, Listen]"
| "AliveUpdateCallData_Proceed t PROCESS = [Spawn, Handle, Put FINISH, Finish]"
| "AliveUpdateCallData_Proceed t FINISH = log_members t @ [Delete]"

fun AliveUpdateCallData_new :: "bool \<Rightarrow> call_op list" where
  "AliveUpdateCallData_new t = Put CREATE # AliveUpdateCallData_Proceed t CREATE"

fun GetNodeInfoCallData_Proceed :: "bool \<Rightarrow> call_status \<Rightarrow> call_op list" where
  "GetNodeInfoCallData_Proceed t CREATE = [Put PROCESS, Listen]"
| "GetNodeInfoCallData_Proceed t PROCESS = [Spawn, Handle, Put FINISH, Finish]"
| "GetNodeInfoCallData_Proceed t FINISH = [Delete]"

fun GetNodeInfoCallData_new :: "bool \<Rightarrow> call_op list" where
  "GetNodeInfoCallData_new t = Put CREATE # GetNodeInfoCallData_Proceed t CREATE"

fun MoveOnCallData_Proceed :: "bool \<Rightarrow> call_status \<Rightarrow> call_op list" where
  "MoveOnCallData_Proceed t CREATE = [Put PROCESS, Spawn] @ log_members t @ [Handle, Finish, Put FINISH]"
| "MoveOnCallData_Proceed t PROCESS = [Delete]"
| "MoveOnCallData_Proceed t FINISH = [Delete]"

fun MoveOnCallData_new :: "bool \<Rightarrow> call_op list" where
  "MoveOnCallData_new t = [Listen, Put CREATE]"

fun AsyncServerCall_Proceed :: "bool \<Rightarrow> call_status \<Rightarrow> call_op list" where
  "AsyncServerCall_Proceed t CREATE = [Put PROCESS, Listen]"
| "AsyncServerCall_Proceed t PROCESS = [Spawn, Handle, Touch, Put FINISH, Finish]"
| "AsyncServerCall_Proceed t FINISH = [Delete]"

fun AsyncServerCall_new :: "bool \<Rightarrow> call_op list" where
  "AsyncServerCall_new t = Put CREATE # AsyncServerCall_Proceed t CREATE"

fun TwoPCCallData_Proceed :: "bool \<Rightarrow> call_status \<Rightarrow> call_op list" where
  "TwoPCCallData_Proceed t CREATE = [Put PROCESS, Listen]"
| "TwoPCCallData_Proceed t PROCESS = [Spawn, Touch, Handle, Put FINISH, Finish]"
| "TwoPCCallData_Proceed t FINISH = log_members t @ [Delete]"

fun TwoPCCallData_new :: "bool \<Rightarrow> call_op list" where
  "TwoPCCallData_new t = Put CREATE # TwoPCCallData_Proceed t CREATE"

text \<open>Virtual dispatch; \<open>h\<close> is the path of the handler, for client requests.\<close>

fun Proceed :: "bool \<Rightarrow> request_path \<Rightarrow> server_class \<Rightarrow> call_status \<Rightarrow> call_op list" where
  "Proceed t h PrepareCallData st = PrepareCallData_Proceed t st"
| "Proceed t h AcceptCallData st = AcceptCallData_Proceed t st"
| "Proceed t h CommitCallData st = CommitCallData_Proceed t st"
| "Proceed t h NewViewCallData st = NewViewCallData_Proceed t st"
| "Proceed t h SendClientRequestCallData st = SendClientRequestCallData_Proceed t h st"
| "Proceed t h SubmitTransactionCallData st = SubmitTransactionCallData_Proceed t st"
| "Proceed t h ReceiveAcceptAckCallData st = ReceiveAcceptAckCallData_Proceed t st"
| "Proceed t h HeartbeatCallData st = HeartbeatCallData_Proceed t st"
| "Proceed t h AliveUpdateCallData st = AliveUpdateCallData_Proceed t st"
| "Proceed t h GetNodeInfoCallData st = GetNodeInfoCallData_Proceed t st"
| "Proceed t h MoveOnCallData st = MoveOnCallData_Proceed t st"
| "Proceed t h AsyncServerCall st = AsyncServerCall_Proceed t st"
| "Proceed t h TwoPCCallData st = TwoPCCallData_Proceed t st"

fun construct :: "bool \<Rightarrow> server_class \<Rightarrow> call_op list" where
  "construct t PrepareCallData = PrepareCallData_new t"
| "construct t AcceptCallData = AcceptCallData_new t"
| "construct t CommitCallData = CommitCallData_new t"
| "construct t NewViewCallData = NewViewCallData_new t"
| "construct t SendClientRequestCallData = SendClientRequestCallData_new t"
| "construct t SubmitTransactionCallData = SubmitTransactionCallData_new t"
| "construct t ReceiveAcceptAckCallData = ReceiveAcceptAckCallData_new t"
| "construct t HeartbeatCallData = HeartbeatCallData_new t"
| "construct t AliveUpdateCallData = AliveUpdateCallData_new t"
| "construct t GetNodeInfoCallData = GetNodeInfoCallData_new t"
| "construct t MoveOnCallData = MoveOnCallData_new t"
| "construct t AsyncServerCall = AsyncServerCall_new t"
| "construct t TwoPCCallData = TwoPCCallData_new t"

fun Respond :: "bool \<Rightarrow> server_class \<Rightarrow> call_op list" where
  "Respond t PrepareCallData = PrepareCallData_Respond t"
| "Respond t NewViewCallData = NewViewCallData_Respond t"
| "Respond t SendClientRequestCallData = SendClientRequestCallData_Respond t"
| "Respond t _ = []"

datatype client_class = PrepareClientCallData | NewViewClientCallData | AliveAsyncCall
  | AcceptClientCallData | CommitClientCallData | ClientCallData | AsyncAcceptAckCall
  | AsyncHeartbeatCall | AsyncClientReplyCallData | AsyncCall | TwoPCClientCallData

text \<open>A client call starts its RPC in the constructor; \<open>OnComplete\<close> runs when it ends, \<open>ok\<close>
  telling whether the RPC succeeded.\<close>

fun PrepareClientCallData_new :: "bool \<Rightarrow> call_op list" where
  "PrepareClientCallData_new t = [Touch, Finish]"

fun PrepareClientCallData_OnComplete :: "bool \<Rightarrow> bool \<Rightarrow> call_op list" where
  "PrepareClientCallData_OnComplete t ok = (if ok then [Touch, Handle] else [Touch]) @ log_members t @ [Delete]"

fun NewViewClientCallData_new :: "bool \<Rightarrow> call_op list" where
  "NewViewClientCallData_new t = log_members t @ [Touch] @ log_members t @ [Finish]"

fun NewViewClientCallData_OnComplete :: "bool \<Rightarrow> bool \<Rightarrow> call_op list" where
  "NewViewClientCallData_OnComplete t ok = (if ok then Touch # log_members t else [Touch, Touch]) @ log_members t @ [Delete]"

fun AliveAsyncCall_new :: "bool \<Rightarrow> call_op list" where
  "AliveAsyncCall_new t = [Touch, Touch, Finish]"

fun AliveAsyncCall_OnComplete :: "bool \<Rightarrow> bool \<Rightarrow> call_op list" where
  "AliveAsyncCall_OnComplete t ok = (if ok then Touch # log_members t else [Touch, Touch]) @ [Delete]"

fun AcceptClientCallData_new :: "bool \<Rightarrow> call_op list" where
  "AcceptClientCallData_new t = [Touch, Touch, Finish]"

fun AcceptClientCallData_OnComplete :: "bool \<Rightarrow> bool \<Rightarrow> call_op list" where
  "AcceptClientCallData_OnComplete t ok = (if ok then [Touch, Handle] else [Touch, Touch]) @ [Delete]"

fun CommitClientCallData_new :: "bool \<Rightarrow> call_op list" where
  "CommitClientCallData_new t = [Touch, Touch, Finish]"

fun CommitClientCallData_OnComplete :: "bool \<Rightarrow> bool \<Rightarrow> call_op list" where
  "CommitClientCallData_OnComplete t ok = (if ok then Touch # log_members t else [Touch, Touch]) @ [Delete]"

fun ClientCallData_new :: "bool \<Rightarrow> call_op list" where
  "ClientCallData_new t = [Touch, Finish]"

fun ClientCallData_OnComplete :: "bool \<Rightarrow> bool \<Rightarrow> call_op list" where
  "ClientCallData_OnComplete t ok = (if ok then Touch # log_members t else [Touch, Touch]) @ [Delete]"

fun AsyncAcceptAckCall_new :: "bool \<Rightarrow> call_op list" where
  "AsyncAcceptAckCall_new t = [Touch, Finish] @ log_members t"

fun AsyncAcceptAckCall_OnComplete :: "bool \<Rightarrow> bool \<Rightarrow> call_op list" where
  "AsyncAcceptAckCall_OnComplete t ok = (if ok then Touch # log_members t else [Touch, Touch]) @ [Delete]"

fun AsyncHeartbeatCall_new :: "bool \<Rightarrow> call_op list" where
  "AsyncHeartbeatCall_new t = [Touch, Finish]"

fun AsyncHeartbeatCall_OnComplete :: "bool \<Rightarrow> bool \<Rightarrow> call_op list" where
  "AsyncHeartbeatCall_OnComplete t ok = [Delete]"

fun AsyncClientReplyCallData_new :: "bool \<Rightarrow> call_op list" where
  "AsyncClientReplyCallData_new t = [Touch, Finish]"

fun AsyncClientReplyCallData_OnComplete :: "bool \<Rightarrow> bool \<Rightarrow> call_op list" where
  "AsyncClientReplyCallData_OnComplete t ok = Touch # log_members t @ [Delete]"

fun AsyncCall_new :: "bool \<Rightarrow> call_op list" where
  "AsyncCall_new t = [Touch] @ log_members t @ [Finish]"

fun AsyncCall_OnComplete :: "bool \<Rightarrow> bool \<Rightarrow> call_op list" where
  "AsyncCall_OnComplete t ok = Touch # log_members t @ [Delete]"

fun TwoPCClientCallData_new :: "bool \<Rightarrow> call_op list" where
  "TwoPCClientCallData_new t = [Touch, Touch, Finish]"

fun TwoPCClientCallData_OnComplete :: "bool \<Rightarrow> bool \<Rightarrow> call_op list" where
  "TwoPCClientCallData_OnComplete t ok = (if ok then [Touch] else [Touch, Touch]) @ [Delete]"

fun start_call :: "bool \<Rightarrow> client_class \<Rightarrow> call_op list" where
  "start_call t PrepareClientCallData = PrepareClientCallData_new t"
| "start_call t NewViewClientCallData = NewViewClientCallData_new t"
| "start_call t AliveAsyncCall = AliveAsyncCall_new t"
| "start_call t AcceptClientCallData = AcceptClientCallData_new t"
| "start_call t CommitClientCallData = CommitClientCallData_new t"
| "start_call t ClientCallData = ClientCallData_new t"
| "start_call t AsyncAcceptAckCall = AsyncAcceptAckCall_new t"
| "start_call t AsyncHeartbeatCall = AsyncHeartbeatCall_new t"
| "start_call t AsyncClientReplyCallData = AsyncClientReplyCallData_new t"
| "start_call t AsyncCall = AsyncCall_new t"
| "start_call t TwoPCClientCallData = TwoPCClientCallData_new t"

fun OnComplete :: "bool \<Rightarrow> client_class \<Rightarrow> bool \<Rightarrow> call_op list" where
  "OnComplete t PrepareClientCallData ok = PrepareClientCallData_OnComplete t ok"
| "OnComplete t NewViewClientCallData ok = NewViewClientCallData_OnComplete t ok"
| "OnComplete t AliveAsyncCall ok = AliveAsyncCall_OnComplete t ok"
| "OnComplete t AcceptClientCallData ok = AcceptClientCallData_OnComplete t ok"
| "OnComplete t CommitClientCallData ok = CommitClientCallData_OnComplete t ok"
| "OnComplete t ClientCallData ok = ClientCallData_OnComplete t ok"
| "OnComplete t AsyncAcceptAckCall ok = AsyncAcceptAckCall_OnComplete t ok"
| "OnComplete t AsyncHeartbeatCall ok = AsyncHeartbeatCall_OnComplete t ok"
| "OnComplete t AsyncClientReplyCallData ok = AsyncClientReplyCallData_OnComplete t ok"
| "OnComplete t AsyncCall ok = AsyncCall_OnComplete t ok"
| "OnComplete t TwoPCClientCallData ok = TwoPCClientCallData_OnComplete t ok"

section \<open>The machine\<close>

text \<open>\<open>deliver\<close> is what a polling thread does with the tag of the object. The loop for incoming
  calls drops the tag of a failed operation; the loop for outgoing calls passes the flag on.\<close>

record call_code =
  ctor :: "call_op list"
  deliver :: "bool \<Rightarrow> call_op list"
  branch :: "call_status \<Rightarrow> call_op list"
  answer :: "call_op list"

definition HandleRpcs :: "bool \<Rightarrow> call_op list" where
  "HandleRpcs ok = (if ok then [Branch] else [])"

definition server_code :: "bool \<Rightarrow> request_path \<Rightarrow> server_class \<Rightarrow> call_code" where
  "server_code t h c = \<lparr>ctor = construct t c, deliver = HandleRpcs, branch = Proceed t h c, answer = Respond t c\<rparr>"

definition PollClientCompletionQueue :: "bool \<Rightarrow> client_class \<Rightarrow> bool \<Rightarrow> call_op list" where
  "PollClientCompletionQueue t c ok = OnComplete t c ok"

definition client_code :: "bool \<Rightarrow> client_class \<Rightarrow> call_code" where
  "client_code t c = \<lparr>ctor = start_call t c, deliver = PollClientCompletionQueue t c, branch = (\<lambda>_. []), answer = []\<rparr>"

text \<open>One object: whether it exists, its status once set, the operations it is the tag of, the code
  its threads still have to run, the accesses made so far, and whether one of them was illegal.\<close>

record call_obj =
  o_alive :: bool
  o_status :: "call_status option"
  o_listening :: bool
  o_sent :: bool
  o_deferred :: bool
  o_threads :: "call_op list list"
  o_done :: "call_op list"
  o_fault :: bool

definition new_obj :: "call_code \<Rightarrow> call_obj" where
  "new_obj code = \<lparr>o_alive = True, o_status = None, o_listening = False, o_sent = False,
     o_deferred = False, o_threads = [ctor code], o_done = [], o_fault = False\<rparr>"

definition threads_of :: "call_op list \<Rightarrow> call_op list list" where
  "threads_of ops = (if ops = [] then [] else [ops])"

definition access :: "call_op \<Rightarrow> call_obj \<Rightarrow> call_obj" where
  "access p o1 =
     (let o2 = o1\<lparr>o_done := o_done o1 @ [p]\<rparr> in
      case p of
        Put s \<Rightarrow> o2\<lparr>o_status := Some s\<rparr>
      | Listen \<Rightarrow> o2\<lparr>o_listening := True\<rparr>
      | Finish \<Rightarrow> o2\<lparr>o_sent := True\<rparr>
      | Defer \<Rightarrow> o2\<lparr>o_deferred := True\<rparr>
      | Delete \<Rightarrow> o2\<lparr>o_alive := False\<rparr>
      | Branch \<Rightarrow> o1
      | _ \<Rightarrow> o2)"

text \<open>The next access of a thread with the code \<open>p # ops\<close>: what it does to the object, and the code
  the thread has left.\<close>

definition exec_op :: "call_code \<Rightarrow> call_op \<Rightarrow> call_op list \<Rightarrow> call_obj \<Rightarrow> call_op list \<times> call_obj" where
  "exec_op code p ops o1 =
     (if \<not> o_alive o1 then (ops, o1\<lparr>o_fault := True\<rparr>)
      else if p = Branch then
        (case o_status o1 of
           None \<Rightarrow> (ops, o1\<lparr>o_fault := True\<rparr>)
         | Some s \<Rightarrow> (branch code s @ ops, o1))
      else (ops, access p o1))"

inductive call_step :: "call_code \<Rightarrow> call_obj \<Rightarrow> call_obj \<Rightarrow> bool" for code where
  run: "o_threads o1 = pre @ (p # ops) # post \<Longrightarrow> exec_op code p ops o1 = (ops', o2) \<Longrightarrow>
    call_step code o1 (o2\<lparr>o_threads := pre @ threads_of ops' @ post\<rparr>)"
| arrive: "o_listening o1 \<Longrightarrow>
    call_step code o1 (o1\<lparr>o_listening := False, o_threads := o_threads o1 @ threads_of (deliver code ok)\<rparr>)"
| complete: "o_sent o1 \<Longrightarrow>
    call_step code o1 (o1\<lparr>o_sent := False, o_threads := o_threads o1 @ threads_of (deliver code ok)\<rparr>)"
| respond: "o_deferred o1 \<Longrightarrow>
    call_step code o1 (o1\<lparr>o_deferred := False, o_threads := o_threads o1 @ threads_of (answer code)\<rparr>)"

definition reachable_obj :: "call_code \<Rightarrow> call_obj \<Rightarrow> bool" where
  "reachable_obj code = rtranclp (call_step code) (new_obj code)"

section \<open>One owner at a time\<close>

text \<open>States with one thread, with no thread but pending operations, and after deletion.\<close>

definition busy :: "call_status option \<Rightarrow> call_op list \<Rightarrow> call_op list \<Rightarrow> call_obj" where
  "busy st d r = \<lparr>o_alive = True, o_status = st, o_listening = False, o_sent = False,
     o_deferred = False, o_threads = threads_of r, o_done = d, o_fault = False\<rparr>"

definition idle :: "call_status option \<Rightarrow> call_op list \<Rightarrow> call_op \<Rightarrow> call_obj" where
  "idle st d p = \<lparr>o_alive = True, o_status = st, o_listening = (p = Listen), o_sent = (p = Finish),
     o_deferred = (p = Defer), o_threads = [], o_done = d, o_fault = False\<rparr>"

definition gone :: "call_status option \<Rightarrow> call_op list \<Rightarrow> call_obj" where
  "gone st d = \<lparr>o_alive = False, o_status = st, o_listening = False, o_sent = False,
     o_deferred = False, o_threads = [], o_done = d, o_fault = False\<rparr>"

fun exclusive :: "call_op \<Rightarrow> bool" where
  "exclusive (Put s) = True"
| "exclusive Touch = True"
| "exclusive Spawn = True"
| "exclusive Handle = True"
| "exclusive _ = False"

fun next_status :: "call_op \<Rightarrow> call_status option \<Rightarrow> call_status option" where
  "next_status (Put s) st = Some s"
| "next_status _ st = st"

lemmas obj_defs = busy_def idle_def gone_def threads_of_def

lemma single_thread: "threads_of (p # r) = pre @ (q # ops) # post \<longleftrightarrow> pre = [] \<and> post = [] \<and> q = p \<and> ops = r"
  by (auto simp: threads_of_def Cons_eq_append_conv)

lemma busy_step:
  assumes "call_step code (busy st d (p # r)) o'"
  shows "exclusive p \<Longrightarrow> o' = busy (next_status p st) (d @ [p]) r"
    and "p \<in> {Listen, Finish, Defer} \<Longrightarrow> r = [] \<Longrightarrow> o' = idle st (d @ [p]) p"
    and "p = Delete \<Longrightarrow> r = [] \<Longrightarrow> o' = gone st (d @ [p])"
    and "p = Branch \<Longrightarrow> r = [] \<Longrightarrow> st = Some s \<Longrightarrow> o' = busy st d (branch code s)"
proof -
  obtain ops' o2 where x: "exec_op code p r (busy st d (p # r)) = (ops', o2)"
    and o': "o' = o2\<lparr>o_threads := threads_of ops'\<rparr>"
    using assms by (cases rule: call_step.cases) (auto simp: busy_def single_thread)
  show "exclusive p \<Longrightarrow> o' = busy (next_status p st) (d @ [p]) r"
    using x o' by (cases p) (auto simp: exec_op_def access_def busy_def Let_def)
  show "p \<in> {Listen, Finish, Defer} \<Longrightarrow> r = [] \<Longrightarrow> o' = idle st (d @ [p]) p"
    "p = Delete \<Longrightarrow> r = [] \<Longrightarrow> o' = gone st (d @ [p])"
    "p = Branch \<Longrightarrow> r = [] \<Longrightarrow> st = Some s \<Longrightarrow> o' = busy st d (branch code s)"
    using x o' by (auto simp: exec_op_def access_def obj_defs Let_def)
qed

lemma idle_step:
  assumes "call_step code (idle st d p) o'"
  shows "p \<in> {Listen, Finish} \<Longrightarrow> \<exists>ok. o' = busy st d (deliver code ok)"
    and "p = Defer \<Longrightarrow> o' = busy st d (answer code)"
    and "p \<in> {Listen, Finish, Defer}"
  using assms by (cases rule: call_step.cases; auto simp: obj_defs)+

lemma no_step: "\<not> call_step code (gone st d) o'" "\<not> call_step code (busy st d []) o'"
  by (auto elim!: call_step.cases simp: obj_defs)

text \<open>A thread in the middle of a segment: exclusive accesses, then one that publishes or deletes.\<close>

definition in_segment ::
  "call_op list \<Rightarrow> call_status option \<Rightarrow> call_op list \<Rightarrow> call_op \<Rightarrow> call_obj \<Rightarrow> bool" where
  "in_segment before st xs e o1 \<longleftrightarrow>
     (\<exists>d r. xs = d @ r \<and> o1 = busy (fold next_status d st) (before @ d) (r @ [e]))"

lemma segment_start: "in_segment before st xs e (busy st before (xs @ [e]))"
  unfolding in_segment_def by (rule exI [of _ "[]"]) simp

lemma segment_step:
  assumes "in_segment before st xs e o1" and "call_step code o1 o2" and "list_all exclusive xs"
  shows "in_segment before st xs e o2 \<or>
    call_step code (busy (fold next_status xs st) (before @ xs) [e]) o2"
proof -
  from assms(1) obtain d r where xs: "xs = d @ r"
    and o1: "o1 = busy (fold next_status d st) (before @ d) (r @ [e])"
    by (auto simp: in_segment_def)
  show ?thesis
  proof (cases r)
    case Nil
    with xs o1 assms(2) show ?thesis by simp
  next
    case (Cons q r')
    then have "o2 = busy (fold next_status (d @ [q]) st) (before @ d @ [q]) (r' @ [e])"
      using busy_step(1) [of code "fold next_status d st" "before @ d" q "r' @ [e]" o2] assms(2,3) xs o1
      by simp
    then have "in_segment before st xs e o2"
      unfolding in_segment_def using Cons xs by (intro exI [of _ "d @ [q]"] exI [of _ r']) simp
    then show ?thesis ..
  qed
qed

lemma segment_prefix: "in_segment before st xs e o1 \<Longrightarrow> prefix (o_done o1) (before @ xs @ ys)"
  by (auto simp: in_segment_def busy_def)

lemma segment_sound: "in_segment before st xs e o1 \<Longrightarrow> \<not> o_fault o1 \<and> o_alive o1"
  by (auto simp: in_segment_def busy_def)

section \<open>The contract of server calls\<close>

text \<open>\<open>xs\<close> sets the object up for listening with status \<open>s1\<close>; \<open>ys\<close> serves the request up to a
  \<open>Finish\<close> or a deferral; \<open>ws\<close> is the deferred answer; in both cases the response leaves with status
  \<open>s2\<close>, under which \<open>zs\<close> cleans up. Nothing is accessed after publishing.\<close>

locale server_call =
  fixes code :: call_code and xs ys ws zs :: "call_op list" and e :: call_op
    and s1 s2 :: call_status
  assumes ctor_code: "ctor code = xs @ [Listen]" "list_all exclusive xs" "fold next_status xs None = Some s1"
    and deliver_code: "deliver code = HandleRpcs"
    and serve_code: "branch code s1 = ys @ [e]" "list_all exclusive ys"
    and publish: "e = Finish \<and> ws = [] \<and> fold next_status ys (Some s1) = Some s2 \<or>
      e = Defer \<and> answer code = ws @ [Finish] \<and> list_all exclusive ws \<and>
      fold next_status ws (fold next_status ys (Some s1)) = Some s2"
    and clean_code: "branch code s2 = zs @ [Delete]" "list_all exclusive zs"
begin

definition served :: "call_op list" where
  "served = xs @ [Listen] @ ys @ [e] @ (if e = Defer then ws @ [Finish] else [])"

definition life :: "call_obj \<Rightarrow> bool" where
  "life o1 \<longleftrightarrow>
     in_segment [] None xs Listen o1 \<or> o1 = idle (Some s1) (xs @ [Listen]) Listen \<or>
     o1 = busy (Some s1) (xs @ [Listen]) [Branch] \<or> o1 = busy (Some s1) (xs @ [Listen]) [] \<or>
     in_segment (xs @ [Listen]) (Some s1) ys e o1 \<or>
     e = Defer \<and> o1 = idle (fold next_status ys (Some s1)) (xs @ [Listen] @ ys @ [e]) Defer \<or>
     e = Defer \<and> in_segment (xs @ [Listen] @ ys @ [e]) (fold next_status ys (Some s1)) ws Finish o1 \<or>
     o1 = idle (Some s2) served Finish \<or>
     o1 = busy (Some s2) served [Branch] \<or> o1 = busy (Some s2) served [] \<or>
     in_segment served (Some s2) zs Delete o1 \<or>
     o1 = gone (fold next_status zs (Some s2)) (served @ zs @ [Delete])"

lemma life_start: "life (new_obj code)"
proof -
  have "new_obj code = busy None [] (xs @ [Listen])"
    by (simp add: new_obj_def busy_def threads_of_def ctor_code(1))
  then show ?thesis using segment_start [of "[]" None xs Listen] by (simp add: life_def)
qed

lemma delivered:
  assumes "call_step code (idle st d p) o2" and "p \<in> {Listen, Finish}"
  shows "o2 = busy st d [Branch] \<or> o2 = busy st d []"
  using idle_step(1) [OF assms] by (auto simp: deliver_code HandleRpcs_def)

lemma life_step_request:
  assumes "call_step code o1 o2"
    and "in_segment [] None xs Listen o1 \<or> o1 = idle (Some s1) (xs @ [Listen]) Listen \<or>
     o1 = busy (Some s1) (xs @ [Listen]) [Branch] \<or> o1 = busy (Some s1) (xs @ [Listen]) []"
  shows "life o2"
  using assms(2)
proof (elim disjE)
  assume "in_segment [] None xs Listen o1"
  from segment_step [OF this assms(1) ctor_code(2)] show ?thesis
    using busy_step(2) [of code "Some s1" xs Listen "[]" o2] ctor_code(3) by (auto simp: life_def)
next
  assume "o1 = idle (Some s1) (xs @ [Listen]) Listen"
  with assms(1) delivered show ?thesis by (auto simp: life_def)
next
  assume "o1 = busy (Some s1) (xs @ [Listen]) [Branch]"
  with assms(1) have "o2 = busy (Some s1) (xs @ [Listen]) (ys @ [e])"
    using busy_step(4) [of code "Some s1" _ Branch "[]" o2 s1] serve_code(1) by simp
  then show ?thesis using segment_start by (simp add: life_def)
next
  assume "o1 = busy (Some s1) (xs @ [Listen]) []"
  with assms(1) no_step show ?thesis by blast
qed

lemma life_step_serve:
  assumes "call_step code o1 o2"
    and "in_segment (xs @ [Listen]) (Some s1) ys e o1 \<or>
     e = Defer \<and> o1 = idle (fold next_status ys (Some s1)) (xs @ [Listen] @ ys @ [e]) Defer \<or>
     e = Defer \<and> in_segment (xs @ [Listen] @ ys @ [e]) (fold next_status ys (Some s1)) ws Finish o1"
  shows "life o2"
  using assms(2)
proof (elim disjE conjE)
  assume "in_segment (xs @ [Listen]) (Some s1) ys e o1"
  from segment_step [OF this assms(1) serve_code(2)] show ?thesis
    using busy_step(2) [of code "fold next_status ys (Some s1)" "xs @ [Listen] @ ys" e "[]" o2] publish
    by (auto simp: life_def served_def)
next
  assume d: "e = Defer" and "o1 = idle (fold next_status ys (Some s1)) (xs @ [Listen] @ ys @ [e]) Defer"
  with assms(1) have "o2 = busy (fold next_status ys (Some s1)) (xs @ [Listen] @ ys @ [e]) (ws @ [Finish])"
    using idle_step(2) [of code _ _ Defer o2] publish by auto
  then have "in_segment (xs @ [Listen] @ ys @ [e]) (fold next_status ys (Some s1)) ws Finish o2"
    by (simp only: segment_start)
  with d show ?thesis unfolding life_def by blast
next
  assume d: "e = Defer"
    and seg: "in_segment (xs @ [Listen] @ ys @ [e]) (fold next_status ys (Some s1)) ws Finish o1"
  have w: "list_all exclusive ws" "fold next_status ws (fold next_status ys (Some s1)) = Some s2"
    using publish d by auto
  have "served = (xs @ [Listen] @ ys @ [e]) @ ws @ [Finish]" unfolding served_def using d by simp
  then have "call_step code (busy (Some s2) ((xs @ [Listen] @ ys @ [e]) @ ws) [Finish]) o2 \<Longrightarrow>
      o2 = idle (Some s2) served Finish"
    using busy_step(2) [of code "Some s2" "(xs @ [Listen] @ ys @ [e]) @ ws" Finish "[]" o2] by simp
  with segment_step [OF seg assms(1) w(1)] d w(2) show ?thesis unfolding life_def by auto
qed

lemma life_step_clean:
  assumes "call_step code o1 o2"
    and "o1 = idle (Some s2) served Finish \<or>
     o1 = busy (Some s2) served [Branch] \<or> o1 = busy (Some s2) served [] \<or>
     in_segment served (Some s2) zs Delete o1 \<or>
     o1 = gone (fold next_status zs (Some s2)) (served @ zs @ [Delete])"
  shows "life o2"
  using assms(2)
proof (elim disjE)
  assume "o1 = idle (Some s2) served Finish"
  with assms(1) delivered show ?thesis by (auto simp: life_def)
next
  assume "o1 = busy (Some s2) served [Branch]"
  with assms(1) have "o2 = busy (Some s2) served (zs @ [Delete])"
    using busy_step(4) [of code "Some s2" _ Branch "[]" o2 s2] clean_code(1) by simp
  then show ?thesis using segment_start by (simp add: life_def)
next
  assume "in_segment served (Some s2) zs Delete o1"
  from segment_step [OF this assms(1) clean_code(2)] show ?thesis
    using busy_step(3) [of code "fold next_status zs (Some s2)" "served @ zs" Delete "[]" o2]
    by (auto simp: life_def)
qed (use assms(1) no_step in blast)+

lemma life_reachable: "reachable_obj code o1 \<Longrightarrow> life o1"
  unfolding reachable_obj_def
proof (induction rule: rtranclp_induct)
  case base
  show ?case by (rule life_start)
next
  case (step o1 o2)
  then show ?case
    unfolding life_def [of o1] using life_step_request life_step_serve life_step_clean by blast
qed

lemma owned:
  assumes "reachable_obj code o1"
  shows "\<not> o_fault o1" and "prefix (o_done o1) (served @ zs @ [Delete])"
    and "o_alive o1 \<or> o_threads o1 = [] \<and> \<not> o_listening o1 \<and> \<not> o_sent o1 \<and> \<not> o_deferred o1"
  using life_reachable [OF assms] unfolding life_def
  by (auto simp: obj_defs served_def dest: segment_sound segment_prefix)

end

text \<open>The sequential life of a server call: constructor, serving, deferred answer if any, clean-up.\<close>

definition serving_status :: "server_class \<Rightarrow> call_status" where
  "serving_status c = (if c = SendClientRequestCallData then CREATE else PROCESS)"

definition sequential_life :: "bool \<Rightarrow> request_path \<Rightarrow> server_class \<Rightarrow> call_op list" where
  "sequential_life t h c =
     construct t c @ Proceed t h c (serving_status c) @
       (if Finish \<in> set (Proceed t h c (serving_status c)) then [] else Respond t c) @ Proceed t h c FINISH"

interpretation prepare_call: server_call "server_code t h PrepareCallData"
  "[Put CREATE, Put PROCESS]" "[Spawn, Handle]" "[Touch, Put FINISH]" "[]" Defer PROCESS FINISH for t h
  by unfold_locales (simp_all add: server_code_def)

interpretation accept_call: server_call "server_code t h AcceptCallData"
  "[Put CREATE, Put PROCESS]" "[Spawn, Handle, Put FINISH]" "[]" "[]" Finish PROCESS FINISH for t h
  by unfold_locales (simp_all add: server_code_def)

interpretation commit_call: server_call "server_code t h CommitCallData"
  "[Put CREATE, Put PROCESS]" "[Spawn, Handle, Put FINISH]" "[]" "log_members t" Finish PROCESS FINISH for t h
  by unfold_locales (simp_all add: server_code_def log_members_def)

interpretation new_view_call: server_call "server_code t h NewViewCallData"
  "[Put CREATE, Put PROCESS]" "[Spawn, Handle]" "log_members t @ [Touch, Put FINISH]" "Touch # log_members t"
  Defer PROCESS FINISH for t h
  by unfold_locales (simp_all add: server_code_def log_members_def)

interpretation queued_call: server_call "server_code t Queued SendClientRequestCallData"
  "[Put CREATE]" "[Put PROCESS, Spawn] @ log_members t @ [Handle]" "[Touch, Put FINISH]" "log_members t"
  Defer CREATE FINISH for t
  by unfold_locales (simp_all add: server_code_def log_members_def)

interpretation answered_call: server_call "server_code t Answered SendClientRequestCallData"
  "[Put CREATE]" "[Put PROCESS, Spawn] @ log_members t @ [Handle, Touch, Put FINISH]" "[]" "log_members t"
  Finish CREATE FINISH for t
  by unfold_locales (simp_all add: server_code_def log_members_def)

interpretation submit_call: server_call "server_code t h SubmitTransactionCallData"
  "[Put CREATE, Put PROCESS]" "Spawn # log_members t @ [Touch, Put FINISH]" "[]" "log_members t"
  Finish PROCESS FINISH for t h
  by unfold_locales (simp_all add: server_code_def log_members_def)

interpretation accept_ack_call: server_call "server_code t h ReceiveAcceptAckCallData"
  "[Put CREATE, Put PROCESS]" "[Spawn, Handle, Put FINISH]" "[]" "log_members t" Finish PROCESS FINISH for t h
  by unfold_locales (simp_all add: server_code_def log_members_def)

interpretation heartbeat_call: server_call "server_code t h HeartbeatCallData"
  "[Put CREATE, Put PROCESS]" "[Spawn, Handle, Put FINISH]" "[]" "[]" Finish PROCESS FINISH for t h
  by unfold_locales (simp_all add: server_code_def)

interpretation alive_call: server_call "server_code t h AliveUpdateCallData"
  "[Put CREATE, Put PROCESS]" "[Spawn, Handle, Put FINISH]" "[]" "log_members t" Finish PROCESS FINISH for t h
  by unfold_locales (simp_all add: server_code_def log_members_def)

interpretation info_call: server_call "server_code t h GetNodeInfoCallData"
  "[Put CREATE, Put PROCESS]" "[Spawn, Handle, Put FINISH]" "[]" "[]" Finish PROCESS FINISH for t h
  by unfold_locales (simp_all add: server_code_def)

interpretation reply_call: server_call "server_code t h AsyncServerCall"
  "[Put CREATE, Put PROCESS]" "[Spawn, Handle, Touch, Put FINISH]" "[]" "[]" Finish PROCESS FINISH for t h
  by unfold_locales (simp_all add: server_code_def)

interpretation two_pc_call: server_call "server_code t h TwoPCCallData"
  "[Put CREATE, Put PROCESS]" "[Spawn, Touch, Handle, Put FINISH]" "[]" "log_members t"
  Finish PROCESS FINISH for t h
  by unfold_locales (simp_all add: server_code_def log_members_def)

lemmas server_calls_sound = prepare_call.owned(1) accept_call.owned(1) commit_call.owned(1)
  new_view_call.owned(1) queued_call.owned(1) answered_call.owned(1) submit_call.owned(1) accept_ack_call.owned(1)
  heartbeat_call.owned(1) alive_call.owned(1) info_call.owned(1) reply_call.owned(1) two_pc_call.owned(1)

lemmas server_calls_prefix =
  prepare_call.owned(2) [unfolded prepare_call.served_def, simplified]
  accept_call.owned(2) [unfolded accept_call.served_def, simplified]
  commit_call.owned(2) [unfolded commit_call.served_def, simplified]
  new_view_call.owned(2) [unfolded new_view_call.served_def, simplified]
  queued_call.owned(2) [unfolded queued_call.served_def, simplified]
  answered_call.owned(2) [unfolded answered_call.served_def, simplified]
  submit_call.owned(2) [unfolded submit_call.served_def, simplified]
  accept_ack_call.owned(2) [unfolded accept_ack_call.served_def, simplified]
  heartbeat_call.owned(2) [unfolded heartbeat_call.served_def, simplified]
  alive_call.owned(2) [unfolded alive_call.served_def, simplified]
  info_call.owned(2) [unfolded info_call.served_def, simplified]
  reply_call.owned(2) [unfolded reply_call.served_def, simplified]
  two_pc_call.owned(2) [unfolded two_pc_call.served_def, simplified]

lemma log_members_no_finish [simp]: "Finish \<notin> set (log_members t)"
  by (simp add: log_members_def)

text \<open>The two places where the object is accessed after it was published.\<close>

definition touches_published :: "request_path \<Rightarrow> server_class \<Rightarrow> bool" where
  "touches_published h c \<longleftrightarrow> c = MoveOnCallData \<or> c = SendClientRequestCallData \<and> h = Proposed"

lemma server_call_owned:
  assumes "reachable_obj (server_code t h c) o1" and "\<not> touches_published h c"
  shows "\<not> o_fault o1" and "prefix (o_done o1) (sequential_life t h c)"
proof -
  show "\<not> o_fault o1"
    using assms by (cases c; cases h; simp only: server_calls_sound touches_published_def simp_thms)
  show "prefix (o_done o1) (sequential_life t h c)"
    using assms
    by (cases c; cases h; simp add: sequential_life_def serving_status_def touches_published_def)
      (rule server_calls_prefix, assumption)+
qed

section \<open>Schedules\<close>

text \<open>A schedule picks the next step; playing it gives a reachable state.\<close>

datatype choice = Run nat | Deliver_request bool | Deliver_sent bool | Answer

fun play :: "call_code \<Rightarrow> choice list \<Rightarrow> call_obj \<Rightarrow> call_obj option" where
  "play code [] o1 = Some o1"
| "play code (Run i # cs) o1 =
     (if i < length (o_threads o1) then
        case o_threads o1 ! i of
          [] \<Rightarrow> None
        | p # ops \<Rightarrow>
            let (ops', o2) = exec_op code p ops o1 in
            play code cs (o2\<lparr>o_threads := take i (o_threads o1) @ threads_of ops' @
              drop (Suc i) (o_threads o1)\<rparr>)
      else None)"
| "play code (Deliver_request ok # cs) o1 =
     (if o_listening o1 then
        play code cs (o1\<lparr>o_listening := False, o_threads := o_threads o1 @ threads_of (deliver code ok)\<rparr>)
      else None)"
| "play code (Deliver_sent ok # cs) o1 =
     (if o_sent o1 then
        play code cs (o1\<lparr>o_sent := False, o_threads := o_threads o1 @ threads_of (deliver code ok)\<rparr>)
      else None)"
| "play code (Answer # cs) o1 =
     (if o_deferred o1 then
        play code cs (o1\<lparr>o_deferred := False, o_threads := o_threads o1 @ threads_of (answer code)\<rparr>)
      else None)"

lemma play_reaches: "play code cs o1 = Some o2 \<Longrightarrow> rtranclp (call_step code) o1 o2"
proof (induction code cs o1 rule: play.induct)
  case (2 code i cs o1)
  from "2.prems" have i: "i < length (o_threads o1)" by (auto split: if_splits)
  with "2.prems" obtain p ops ops' ob where t: "o_threads o1 ! i = p # ops"
    and x: "exec_op code p ops o1 = (ops', ob)"
    and rest: "play code cs (ob\<lparr>o_threads := take i (o_threads o1) @ threads_of ops' @
        drop (Suc i) (o_threads o1)\<rparr>) = Some o2"
    by (auto split: list.splits prod.splits)
  have "o_threads o1 = take i (o_threads o1) @ (p # ops) # drop (Suc i) (o_threads o1)"
    using id_take_nth_drop [OF i] t by simp
  from call_step.run [OF this x] have "call_step code o1
      (ob\<lparr>o_threads := take i (o_threads o1) @ threads_of ops' @ drop (Suc i) (o_threads o1)\<rparr>)" .
  moreover from "2.IH" [OF i t x [symmetric] refl rest]
  have "rtranclp (call_step code)
      (ob\<lparr>o_threads := take i (o_threads o1) @ threads_of ops' @ drop (Suc i) (o_threads o1)\<rparr>) o2" .
  ultimately show ?case by (rule converse_rtranclp_into_rtranclp)
next
  case (3 code ok cs o1)
  then show ?case
    by (auto split: if_splits intro: converse_rtranclp_into_rtranclp [rotated] call_step.arrive)
next
  case (4 code ok cs o1)
  then show ?case
    by (auto split: if_splits intro: converse_rtranclp_into_rtranclp [rotated] call_step.complete)
next
  case (5 code cs o1)
  then show ?case
    by (auto split: if_splits intro: converse_rtranclp_into_rtranclp [rotated] call_step.respond)
qed simp

lemma play_new: "play code cs (new_obj code) = Some o2 \<Longrightarrow> reachable_obj code o2"
  unfolding reachable_obj_def by (rule play_reaches)

text \<open>\<^verbatim>\<open>MoveOnCallData\<close> assigns \<^verbatim>\<open>status_\<close> after \<^verbatim>\<open>Finish\<close>: another polling thread takes the
  completion, finds a status other than \<^verbatim>\<open>CREATE\<close> and deletes the object first.\<close>

definition move_on_race :: "bool \<Rightarrow> choice list" where
  "move_on_race t = [Run 0, Run 0, Deliver_request True, Run 0, Run 0, Run 0] @
     (if t then [Run 0] else []) @ [Run 0, Run 0, Deliver_sent True, Run 1, Run 1, Run 0]"

lemma move_on_race_faults:
  "\<exists>o1. play (server_code t h MoveOnCallData) (move_on_race t) (new_obj (server_code t h MoveOnCallData)) =
     Some o1 \<and> o_fault o1 \<and> \<not> o_alive o1"
  by (cases t) (simp_all add: move_on_race_def new_obj_def server_code_def HandleRpcs_def exec_op_def access_def
      log_members_def threads_of_def)

text \<open>A proposed request: after the pointer is stored, a MoveOn or a demotion answers the call, a polling
  thread takes the end of the answer and deletes the object, and the handler goes on to read it.\<close>

definition propose_race :: "bool \<Rightarrow> choice list" where
  "propose_race t = [Run 0, Run 0, Deliver_request True, Run 0, Run 0, Run 0] @ (if t then [Run 0] else []) @
     [Run 0, Run 0, Answer, Run 1, Run 1, Run 1, Deliver_sent True, Run 1] @ (if t then [Run 1] else []) @
     [Run 1, Run 0]"

lemma propose_race_faults:
  "\<exists>o1. play (server_code t Proposed SendClientRequestCallData) (propose_race t)
     (new_obj (server_code t Proposed SendClientRequestCallData)) = Some o1 \<and> o_fault o1 \<and> \<not> o_alive o1"
  by (cases t) (simp_all add: propose_race_def new_obj_def server_code_def HandleRpcs_def exec_op_def access_def
      log_members_def threads_of_def)



section \<open>The contract of client calls\<close>

locale client_call =
  fixes code :: call_code and xs :: "call_op list" and zs :: "bool \<Rightarrow> call_op list"
  assumes start_code: "ctor code = xs @ [Finish]" "list_all exclusive xs"
    and end_code: "deliver code ok = zs ok @ [Delete]" "list_all exclusive (zs ok)"
begin

definition client_life :: "call_obj \<Rightarrow> bool" where
  "client_life o1 \<longleftrightarrow>
     in_segment [] None xs Finish o1 \<or> o1 = idle (fold next_status xs None) (xs @ [Finish]) Finish \<or>
     (\<exists>ok. in_segment (xs @ [Finish]) (fold next_status xs None) (zs ok) Delete o1 \<or>
        o1 = gone (fold next_status (zs ok) (fold next_status xs None)) (xs @ [Finish] @ zs ok @ [Delete]))"

lemma client_life_step:
  assumes "call_step code o1 o2" and "client_life o1"
  shows "client_life o2"
  using assms(2) unfolding client_life_def [of o1]
proof (elim disjE exE)
  assume "in_segment [] None xs Finish o1"
  from segment_step [OF this assms(1) start_code(2)] show ?thesis
    using busy_step(2) [of code "fold next_status xs None" xs Finish "[]" o2] by (auto simp: client_life_def)
next
  assume "o1 = idle (fold next_status xs None) (xs @ [Finish]) Finish"
  with assms(1) obtain ok where "o2 = busy (fold next_status xs None) (xs @ [Finish]) (zs ok @ [Delete])"
    using idle_step(1) [of code _ _ Finish o2] end_code(1) by auto
  then have "in_segment (xs @ [Finish]) (fold next_status xs None) (zs ok) Delete o2"
    by (simp only: segment_start)
  then show ?thesis unfolding client_life_def by blast
next
  fix ok assume "in_segment (xs @ [Finish]) (fold next_status xs None) (zs ok) Delete o1"
  from segment_step [OF this assms(1) end_code(2)] show ?thesis
    using busy_step(3) [of code "fold next_status (zs ok) (fold next_status xs None)"
        "xs @ [Finish] @ zs ok" Delete "[]" o2]
    by (auto simp: client_life_def)
next
  fix ok assume "o1 = gone (fold next_status (zs ok) (fold next_status xs None)) (xs @ [Finish] @ zs ok @ [Delete])"
  with assms(1) no_step show ?thesis by blast
qed

lemma client_owned:
  assumes "reachable_obj code o1"
  shows "\<not> o_fault o1 \<and> (\<exists>ok. prefix (o_done o1) (ctor code @ deliver code ok))"
proof -
  have "new_obj code = busy None [] (xs @ [Finish])"
    by (simp add: new_obj_def busy_def threads_of_def start_code(1))
  then have "client_life (new_obj code)"
    using segment_start [of "[]" None xs Finish] by (simp add: client_life_def)
  with assms have "client_life o1"
    unfolding reachable_obj_def by (induction rule: rtranclp_induct) (auto intro: client_life_step)
  then show ?thesis unfolding client_life_def start_code(1) end_code(1)
    using segment_prefix [of "[]" None xs Finish o1 "Finish # zs True @ [Delete]"]
      segment_prefix [of "xs @ [Finish]" _ _ Delete o1 "[Delete]"]
    by (auto simp: obj_defs dest: segment_sound)
qed

end

interpretation prepare_sent: client_call "client_code t PrepareClientCallData"
  "[Touch]" "\<lambda>ok. (if ok then [Touch, Handle] else [Touch]) @ log_members t" for t
  by unfold_locales (simp_all add: client_code_def PollClientCompletionQueue_def log_members_def)

interpretation new_view_sent: client_call "client_code t NewViewClientCallData"
  "log_members t @ [Touch] @ log_members t"
  "\<lambda>ok. (if ok then Touch # log_members t else [Touch, Touch]) @ log_members t" for t
  by unfold_locales (simp_all add: client_code_def PollClientCompletionQueue_def log_members_def)

interpretation alive_sent: client_call "client_code t AliveAsyncCall"
  "[Touch, Touch]" "\<lambda>ok. if ok then Touch # log_members t else [Touch, Touch]" for t
  by unfold_locales (simp_all add: client_code_def PollClientCompletionQueue_def log_members_def)

interpretation accept_sent: client_call "client_code t AcceptClientCallData"
  "[Touch, Touch]" "\<lambda>ok. if ok then [Touch, Handle] else [Touch, Touch]" for t
  by unfold_locales (simp_all add: client_code_def PollClientCompletionQueue_def)

interpretation commit_sent: client_call "client_code t CommitClientCallData"
  "[Touch, Touch]" "\<lambda>ok. if ok then Touch # log_members t else [Touch, Touch]" for t
  by unfold_locales (simp_all add: client_code_def PollClientCompletionQueue_def log_members_def)

interpretation reply_sent: client_call "client_code t ClientCallData"
  "[Touch]" "\<lambda>ok. if ok then Touch # log_members t else [Touch, Touch]" for t
  by unfold_locales (simp_all add: client_code_def PollClientCompletionQueue_def log_members_def)

interpretation accept_ack_sent: client_call "client_code False AsyncAcceptAckCall"
  "[Touch]" "\<lambda>ok. if ok then [Touch] else [Touch, Touch]"
  by unfold_locales (simp_all add: client_code_def PollClientCompletionQueue_def log_members_def)

interpretation heartbeat_sent: client_call "client_code t AsyncHeartbeatCall"
  "[Touch]" "\<lambda>ok. []" for t
  by unfold_locales (simp_all add: client_code_def PollClientCompletionQueue_def)

interpretation client_reply_sent: client_call "client_code t AsyncClientReplyCallData"
  "[Touch]" "\<lambda>ok. Touch # log_members t" for t
  by unfold_locales (simp_all add: client_code_def PollClientCompletionQueue_def log_members_def)

interpretation request_sent: client_call "client_code t AsyncCall"
  "[Touch] @ log_members t" "\<lambda>ok. Touch # log_members t" for t
  by unfold_locales (simp_all add: client_code_def PollClientCompletionQueue_def log_members_def)

interpretation two_pc_sent: client_call "client_code t TwoPCClientCallData"
  "[Touch, Touch]" "\<lambda>ok. if ok then [Touch] else [Touch, Touch]" for t
  by unfold_locales (simp_all add: client_code_def PollClientCompletionQueue_def)

lemmas client_calls_owned = prepare_sent.client_owned new_view_sent.client_owned alive_sent.client_owned
  accept_sent.client_owned commit_sent.client_owned reply_sent.client_owned heartbeat_sent.client_owned
  client_reply_sent.client_owned request_sent.client_owned two_pc_sent.client_owned

lemma client_call_owned:
  assumes "reachable_obj (client_code t c) o1" and "c \<noteq> AsyncAcceptAckCall \<or> \<not> t"
  shows "\<not> o_fault o1 \<and> (\<exists>ok. prefix (o_done o1) (start_call t c @ OnComplete t c ok))"
proof -
  have "ctor (client_code t c) = start_call t c" "deliver (client_code t c) ok = OnComplete t c ok" for ok
    by (simp_all add: client_code_def PollClientCompletionQueue_def)
  moreover have "\<not> o_fault o1 \<and> (\<exists>ok. prefix (o_done o1) (ctor (client_code t c) @ deliver (client_code t c) ok))"
  proof (cases "c = AsyncAcceptAckCall")
    case True
    with assms accept_ack_sent.client_owned show ?thesis by simp
  next
    case False
    then show ?thesis using assms(1) by (cases c) (simp_all only: client_calls_owned simp_thms)
  qed
  ultimately show ?thesis by simp
qed

text \<open>\<^verbatim>\<open>AsyncAcceptAckCall\<close> logs a member after \<^verbatim>\<open>Finish\<close>.\<close>

lemma accept_ack_race_faults:
  "\<exists>o1. play (client_code True AsyncAcceptAckCall)
     [Run 0, Run 0, Deliver_sent True, Run 1, Run 1, Run 1, Run 0]
     (new_obj (client_code True AsyncAcceptAckCall)) = Some o1 \<and> o_fault o1 \<and> \<not> o_alive o1"
  by (simp add: new_obj_def client_code_def PollClientCompletionQueue_def exec_op_def access_def
      log_members_def threads_of_def)

text \<open>
  C25: the client calls are free of illegal accesses except for \<^verbatim>\<open>AsyncAcceptAckCall\<close> in builds
  with tracing, whose constructor logs a member after \<^verbatim>\<open>Finish\<close>, when the polling thread may have
  deleted the object. In all other cases the accesses are a prefix of the constructor followed by one
  completion, which deletes the object last.
\<close>

theorem client_calls_sound_iff:
  "((\<exists>o1. reachable_obj (client_code t c) o1 \<and> o_fault o1) \<longleftrightarrow> c = AsyncAcceptAckCall \<and> t) \<and>
   (c \<noteq> AsyncAcceptAckCall \<longrightarrow>
     (\<forall>o1. reachable_obj (client_code t c) o1 \<longrightarrow>
        (\<exists>ok. prefix (o_done o1) (start_call t c @ OnComplete t c ok))))"
proof -
  have "\<exists>o1. reachable_obj (client_code True AsyncAcceptAckCall) o1 \<and> o_fault o1"
    using accept_ack_race_faults play_new by blast
  then have "c = AsyncAcceptAckCall \<and> t \<Longrightarrow> \<exists>o1. reachable_obj (client_code t c) o1 \<and> o_fault o1" by simp
  then show ?thesis using client_call_owned [of t c] by blast
qed

theorem client_calls_sound_iff_witness:
  "\<not> (\<exists>o1. reachable_obj (client_code True AcceptClientCallData) o1 \<and> o_fault o1) \<and>
   (\<exists>o1. reachable_obj (client_code True AsyncAcceptAckCall) o1 \<and> o_fault o1)"
  using client_calls_sound_iff [of True AcceptClientCallData] client_calls_sound_iff [of True AsyncAcceptAckCall]
  by simp

end
