(* ===== verification/Server.thy ===== *)
theory Server
  imports CallData NodeState
begin

text \<open>
  The server a node runs (\<^verbatim>\<open>PaxosNode::Run\<close>) and the one of the client
  (\<^verbatim>\<open>PaxosClient::StartServer\<close>): the call objects made at the start and the threads that poll
  for them. An object takes one call; a call finds an object only if one of its class is
  waiting. The machine counts, per class, the waiting objects while the threads run the code of
  \<open>CallData\<close>.
\<close>

section \<open>What is set up\<close>

text \<open>\<open>ns_stubs\<close>: a stub for every peer, the node itself included.\<close>

record node_server =
  ns_stubs :: "int list"
  ns_handlers :: "server_class list"
  ns_server_threads :: nat
  ns_client_pollers :: nat
  ns_accept_pollers :: nat
  ns_retry_thread :: bool

definition handler_classes :: "server_class list" where
  "handler_classes = [PrepareCallData, AcceptCallData, CommitCallData, NewViewCallData,
     SendClientRequestCallData, ReceiveAcceptAckCallData, HeartbeatCallData, AliveUpdateCallData,
     GetNodeInfoCallData, MoveOnCallData, TwoPCCallData]"

definition Run :: "node \<Rightarrow> node_server" where
  "Run n = \<lparr>ns_stubs = peers n, ns_handlers = concat (replicate 3 handler_classes),
     ns_server_threads = 8, ns_client_pollers = 1, ns_accept_pollers = 4, ns_retry_thread = True\<rparr>"

definition StartServer :: "server_class list \<times> nat" where
  "StartServer = (replicate 20 AsyncServerCall, 1)"

text \<open>The loops of the client, as \<open>HandleRpcs\<close> and \<open>PollClientCompletionQueue\<close> of the node: a thread runs
  \<^verbatim>\<open>Proceed\<close> for a call that succeeded, and \<^verbatim>\<open>OnComplete\<close> in any case.\<close>

definition PollServerQueue :: "bool \<Rightarrow> call_op list" where
  "PollServerQueue ok = (if ok then [Branch] else [])"

definition PollCompletionQueue :: "bool \<Rightarrow> bool \<Rightarrow> call_op list" where
  "PollCompletionQueue t ok = OnComplete t AsyncCall ok"

text \<open>The thread of the launcher that completes alive updates (\<^verbatim>\<open>src/node_launch.cpp\<close>).\<close>

definition poll_updates :: "bool \<Rightarrow> bool \<Rightarrow> call_op list" where
  "poll_updates t ok = OnComplete t AliveAsyncCall ok"

section \<open>The pool\<close>

record pool =
  waiting :: "server_class \<Rightarrow> nat"
  running :: "(server_class \<times> call_op list) list"

definition pool_start :: "server_class list \<Rightarrow> pool" where
  "pool_start hs = \<lparr>waiting = count_list hs, running = []\<rparr>"

text \<open>The status of an object that waits for its call: the one its constructor leaves.\<close>

definition waiting_status :: "bool \<Rightarrow> server_class \<Rightarrow> call_status" where
  "waiting_status t c = the (fold next_status (construct t c) None)"

text \<open>A free thread takes a call for a waiting object, or the end of an answer; a thread runs the next
  operation (for a client request along the path \<open>h\<close>), where \<open>Spawn\<close> makes a new waiting object; a thread is free again.\<close>

inductive pool_step :: "bool \<Rightarrow> nat \<Rightarrow> pool \<Rightarrow> pool \<Rightarrow> bool" for t threads where
  arrive: "0 < waiting p c \<Longrightarrow> length (running p) < threads \<Longrightarrow>
    pool_step t threads p (p\<lparr>waiting := (waiting p)(c := waiting p c - 1),
      running := running p @ [(c, Proceed t h c (waiting_status t c))]\<rparr>)"
| finished: "length (running p) < threads \<Longrightarrow>
    pool_step t threads p (p\<lparr>running := running p @ [(c, Proceed t h c FINISH)]\<rparr>)"
| work: "running p = pre @ (c, op # ops) # post \<Longrightarrow>
    pool_step t threads p (p\<lparr>waiting := (if op = Spawn then (waiting p)(c := waiting p c + 1) else waiting p),
      running := pre @ (c, ops) # post\<rparr>)"
| leave: "running p = pre @ (c, []) # post \<Longrightarrow> pool_step t threads p (p\<lparr>running := pre @ post\<rparr>)"

text \<open>The threads that still have to replace the object they took.\<close>

definition replacing :: "server_class \<Rightarrow> pool \<Rightarrow> nat" where
  "replacing c p = length (filter (\<lambda>(d, ops). d = c \<and> Spawn \<in> set ops) (running p))"

section \<open>Every object is replaced\<close>

lemma constructor_listens: "Listen \<in> set (construct t c)"
  by (cases c) simp_all

lemma finish_spawns_none: "Spawn \<notin> set (Proceed t h c FINISH)"
  by (cases c) (auto simp: log_members_def)

text \<open>No thread creates a second object.\<close>

definition pool_ok :: "nat \<Rightarrow> server_class list \<Rightarrow> pool \<Rightarrow> bool" where
  "pool_ok threads hs p \<longleftrightarrow> (\<forall>c. waiting p c + replacing c p = count_list hs c) \<and>
     (\<forall>x\<in>set (running p). count_list (snd x) Spawn \<le> 1) \<and> length (running p) \<le> threads"

lemma proceed_spawn_count:
  "count_list (Proceed t h c (waiting_status t c)) Spawn = 1" "count_list (Proceed t h c FINISH) Spawn = 0"
  by (cases c; cases h; simp add: waiting_status_def log_members_def)+

lemma pool_ok_step: "pool_step t threads p q \<Longrightarrow> pool_ok threads hs p \<Longrightarrow> pool_ok threads hs q"
proof (induction rule: pool_step.induct)
  case (arrive p c h)
  have "Spawn \<in> set (Proceed t h c (waiting_status t c))"
    using proceed_spawn_count(1) [of t h c] by (metis count_list_0_iff zero_neq_one)
  moreover have "waiting p d + replacing d p = count_list hs d" for d
    using arrive(3) by (simp add: pool_ok_def)
  moreover from this [of c] arrive(1) have "0 < count_list hs c" by linarith
  ultimately show ?case using arrive
    by (auto simp: pool_ok_def replacing_def proceed_spawn_count)
next
  case (finished p c h)
  then show ?case by (auto simp: pool_ok_def replacing_def proceed_spawn_count finish_spawns_none)
next
  case (work p pre c op ops post)
  have "op = Spawn \<Longrightarrow> Spawn \<notin> set ops"
    using work by (auto simp: pool_ok_def count_list_0_iff)
  with work show ?case
    by (auto simp: pool_ok_def replacing_def split: if_splits)
next
  case (leave p pre c post)
  then show ?case by (auto simp: pool_ok_def replacing_def)
qed



end
