(* ===== verification/Database.thy ===== *)
theory Database
  imports CppStrings
begin

text \<open>
  The SQLite mirror of the balances (\<^verbatim>\<open>src/paxos_node.cpp\<close>, \<^verbatim>\<open>InitializeDatabase\<close> to
  \<^verbatim>\<open>GetBalance\<close>). SQLite is the parameter \<open>S\<close>: its entry points over a state \<open>'s\<close> that holds
  files, connections and statements. What the node relies on is in two hypotheses: \<open>sqlite_documented\<close>,
  the documented effect of a call that reports success, and \<open>sqlite_available\<close>, that calls do succeed
  where nothing but an I/O error, lack of memory or another process could make them fail.
\<close>

section \<open>The interface of SQLite\<close>

datatype step_code = SQLITE_ROW | SQLITE_DONE | SQLITE_ERROR

text \<open>Connections \<open>'h\<close> and statements \<open>'p\<close>; a Boolean tells whether the call returned
  \<^verbatim>\<open>SQLITE_OK\<close>. The failed calls still hand back a state and, for \<^verbatim>\<open>sqlite3_open\<close>, perhaps a connection.\<close>

record ('s, 'h, 'p) sqlite =
  sqlite3_open :: "string \<Rightarrow> 's \<Rightarrow> bool \<times> 'h option \<times> 's"
  sqlite3_exec :: "'h option \<Rightarrow> string \<Rightarrow> 's \<Rightarrow> bool \<times> 's"
  sqlite3_prepare_v2 :: "'h option \<Rightarrow> string \<Rightarrow> 's \<Rightarrow> bool \<times> 'p option \<times> 's"
  sqlite3_bind_int :: "'p option \<Rightarrow> int \<Rightarrow> int \<Rightarrow> 's \<Rightarrow> 's"
  sqlite3_step :: "'p option \<Rightarrow> 's \<Rightarrow> step_code \<times> 's"
  sqlite3_column_int :: "'p option \<Rightarrow> int \<Rightarrow> 's \<Rightarrow> int"
  sqlite3_reset :: "'p option \<Rightarrow> 's \<Rightarrow> 's"
  sqlite3_finalize :: "'p option \<Rightarrow> 's \<Rightarrow> 's"

section \<open>The members of the node\<close>

text \<open>\<^verbatim>\<open>db_\<close>, \<^verbatim>\<open>update_stmt_\<close> and \<^verbatim>\<open>alv_\<close>, with the state of SQLite.\<close>

record ('s, 'h, 'p) node_db =
  files :: 's
  db :: "'h option"
  update_stmt :: "'p option"
  alv :: bool

definition node_db_init :: "'s \<Rightarrow> ('s, 'h, 'p) node_db" where
  "node_db_init s = \<lparr>files = s, db = None, update_stmt = None, alv = False\<rparr>"

definition db_path :: "int \<Rightarrow> string" where
  "db_path i = ''../database/node_'' @ to_string i @ ''.db''"

definition sql_journal :: string where "sql_journal = ''PRAGMA journal_mode=WAL;''"
definition sql_sync :: string where "sql_sync = ''PRAGMA synchronous=NORMAL;''"
definition sql_create :: string where
  "sql_create = ''CREATE TABLE IF NOT EXISTS accounts ( item_id INTEGER PRIMARY KEY, balance INTEGER NOT NULL);''"
definition sql_count :: string where "sql_count = ''SELECT COUNT(*) FROM accounts;''"
definition sql_begin :: string where "sql_begin = ''BEGIN TRANSACTION;''"
definition sql_commit :: string where "sql_commit = ''COMMIT;''"
definition sql_all_ten :: string where "sql_all_ten = ''UPDATE accounts SET balance = 10;''"
definition sql_insert :: string where
  "sql_insert = ''INSERT OR IGNORE INTO accounts (item_id, balance) VALUES (?, 10);''"
definition sql_add :: string where
  "sql_add = ''UPDATE accounts SET balance = balance + ? WHERE item_id = ?;''"
definition sql_put :: string where "sql_put = ''UPDATE accounts SET balance = ? WHERE item_id = ?;''"
definition sql_get :: string where "sql_get = ''SELECT balance FROM accounts WHERE item_id = ?;''"

section \<open>Opening and filling the database\<close>

text \<open>\<^verbatim>\<open>sqlite3_exec\<close> where the result is not looked at.\<close>

definition exec_sql :: "('s, 'h, 'p) sqlite \<Rightarrow> 'h option \<Rightarrow> string \<Rightarrow> 's \<Rightarrow> 's" where
  "exec_sql S h q s = snd (sqlite3_exec S h q s)"

definition count_rows :: "('s, 'h, 'p) sqlite \<Rightarrow> 'h option \<Rightarrow> 's \<Rightarrow> int \<times> 's" where
  "count_rows S h s =
     (let (ok, p, s1) = sqlite3_prepare_v2 S h sql_count s in
      if ok then
        let (code, s2) = sqlite3_step S p s1;
            row_count = (if code = SQLITE_ROW then sqlite3_column_int S p 0 s2 else 0)
        in (row_count, sqlite3_finalize S p s2)
      else (0, s1))"

definition insert_item :: "('s, 'h, 'p) sqlite \<Rightarrow> 'p option \<Rightarrow> int \<Rightarrow> 's \<Rightarrow> 's" where
  "insert_item S p item s =
     sqlite3_reset S p (snd (sqlite3_step S p (sqlite3_bind_int S p 1 item s)))"

definition fill_rows :: "('s, 'h, 'p) sqlite \<Rightarrow> 'h option \<Rightarrow> int \<Rightarrow> 's \<Rightarrow> 's" where
  "fill_rows S h row_count s =
     (if row_count \<ge> 9000 then exec_sql S h sql_all_ten s
      else
        let (ok, p, s1) = sqlite3_prepare_v2 S h sql_insert s in
        if ok then sqlite3_finalize S p (fold (insert_item S p) [1..9000] s1) else s1)"

text \<open>A failed \<^verbatim>\<open>sqlite3_prepare_v2\<close> leaves a null statement.\<close>

definition prepare_update :: "('s, 'h, 'p) sqlite \<Rightarrow> ('s, 'h, 'p) node_db \<Rightarrow> ('s, 'h, 'p) node_db" where
  "prepare_update S d =
     (let (ok, p, s) = sqlite3_prepare_v2 S (db d) sql_add (files d) in d\<lparr>files := s, update_stmt := p\<rparr>)"

definition InitializeDatabase ::
  "('s, 'h, 'p) sqlite \<Rightarrow> int \<Rightarrow> ('s, 'h, 'p) node_db \<Rightarrow> ('s, 'h, 'p) node_db" where
  "InitializeDatabase S node_id d =
     (let (ok, h, s) = sqlite3_open S (db_path node_id) (files d); d1 = d\<lparr>files := s, db := h\<rparr> in
      if \<not> ok then d1
      else
        let s1 = exec_sql S h sql_sync (exec_sql S h sql_journal s);
            (created, s2) = sqlite3_exec S h sql_create s1
        in
        if \<not> created then d1\<lparr>files := s2\<rparr>
        else
          let (row_count, s3) = count_rows S h s2;
              s4 = fill_rows S h row_count (exec_sql S h sql_begin s3)
          in prepare_update S (d1\<lparr>files := exec_sql S h sql_commit s4\<rparr>))"

definition InitDB ::
  "('s, 'h, 'p) sqlite \<Rightarrow> int \<Rightarrow> ('s, 'h, 'p) node_db \<Rightarrow> ('s, 'h, 'p) node_db" where
  "InitDB S node_id d =
     (let (ok, h, s) = sqlite3_open S (db_path node_id) (files d); d1 = d\<lparr>files := s, db := h\<rparr> in
      if \<not> ok then d1
      else prepare_update S (d1\<lparr>files := exec_sql S h sql_sync (exec_sql S h sql_journal s)\<rparr>))"

text \<open>The constructor and \<^verbatim>\<open>ResetNode\<close> both end with the two calls.\<close>

definition open_databases ::
  "('s, 'h, 'p) sqlite \<Rightarrow> int \<Rightarrow> ('s, 'h, 'p) node_db \<Rightarrow> ('s, 'h, 'p) node_db" where
  "open_databases S node_id d = InitDB S node_id (InitializeDatabase S node_id d)"

section \<open>Reading and writing balances\<close>

definition UpdateBalance ::
  "('s, 'h, 'p) sqlite \<Rightarrow> int \<Rightarrow> int \<Rightarrow> bool \<Rightarrow> ('s, 'h, 'p) node_db \<Rightarrow> ('s, 'h, 'p) node_db" where
  "UpdateBalance S item_id amount is_sender d =
     (if update_stmt d = None \<or> \<not> alv d then d
      else
        let p = update_stmt d; signed_amount = (if is_sender then - amount else amount);
            s1 = sqlite3_reset S p (files d);
            s2 = sqlite3_bind_int S p 2 item_id (sqlite3_bind_int S p 1 signed_amount s1)
        in d\<lparr>files := snd (sqlite3_step S p s2)\<rparr>)"

definition SetBalance ::
  "('s, 'h, 'p) sqlite \<Rightarrow> int \<Rightarrow> int \<Rightarrow> ('s, 'h, 'p) node_db \<Rightarrow> ('s, 'h, 'p) node_db" where
  "SetBalance S item_id new_balance d =
     (if db d = None \<or> \<not> alv d then d
      else
        let (ok, p, s) = sqlite3_prepare_v2 S (db d) sql_put (files d) in
        if \<not> ok then d\<lparr>files := s\<rparr>
        else
          let s1 = sqlite3_bind_int S p 2 item_id (sqlite3_bind_int S p 1 new_balance s)
          in d\<lparr>files := sqlite3_finalize S p (snd (sqlite3_step S p s1))\<rparr>)"

definition GetBalance ::
  "('s, 'h, 'p) sqlite \<Rightarrow> int \<Rightarrow> ('s, 'h, 'p) node_db \<Rightarrow> int \<times> ('s, 'h, 'p) node_db" where
  "GetBalance S item_id d =
     (if db d = None \<or> \<not> alv d then (- 1, d)
      else
        let (ok, p, s) = sqlite3_prepare_v2 S (db d) sql_get (files d) in
        if \<not> ok then (- 1, d\<lparr>files := s\<rparr>)
        else
          let (code, s1) = sqlite3_step S p (sqlite3_bind_int S p 1 item_id s);
              balance = (if code = SQLITE_ROW then sqlite3_column_int S p 0 s1 else - 1)
          in (balance, d\<lparr>files := sqlite3_finalize S p s1\<rparr>))"

section \<open>What the node relies on\<close>

text \<open>
  A view of the state of SQLite: the committed table of each file, if there is one; the file of a
  connection, whether it is in a transaction, and the table it sees; the connection and text of a
  statement, the values bound to its parameters, and whether it was stepped since it was last reset.
\<close>

type_synonym rows = "int \<rightharpoonup> int"

record ('s, 'h, 'p) sqlite_view =
  stored :: "'s \<Rightarrow> string \<Rightarrow> rows option"
  file_of :: "'h \<Rightarrow> string"
  txn :: "'s \<Rightarrow> 'h \<Rightarrow> bool"
  seen :: "'s \<Rightarrow> 'h \<Rightarrow> rows option"
  conn_of :: "'p \<Rightarrow> 'h"
  text_of :: "'p \<Rightarrow> string"
  bound :: "'s \<Rightarrow> 'p \<Rightarrow> int \<Rightarrow> int"
  stepped :: "'s \<Rightarrow> 'p \<Rightarrow> bool"

text \<open>The effect of a statement that changes rows, given its parameters.\<close>

definition put_if_present :: "int \<Rightarrow> (int \<Rightarrow> int) \<Rightarrow> rows \<Rightarrow> rows" where
  "put_if_present k g t = (case t k of None \<Rightarrow> t | Some v \<Rightarrow> t(k \<mapsto> g v))"

definition put_if_absent :: "int \<Rightarrow> int \<Rightarrow> rows \<Rightarrow> rows" where
  "put_if_absent k v t = (case t k of None \<Rightarrow> t(k \<mapsto> v) | Some _ \<Rightarrow> t)"

definition row_change :: "string \<Rightarrow> (int \<Rightarrow> int) \<Rightarrow> rows \<Rightarrow> rows" where
  "row_change q b =
     (if q = sql_insert then put_if_absent (b 1) 10
      else if q = sql_add then put_if_present (b 2) (\<lambda>v. v + b 1)
      else put_if_present (b 2) (\<lambda>v. b 1))"

text \<open>A call that leaves tables and transactions alone, and one that writes a table through a
  connection: inside a transaction only that connection sees the change.\<close>

definition untouched :: "('s, 'h, 'p) sqlite_view \<Rightarrow> 's \<Rightarrow> 's \<Rightarrow> bool" where
  "untouched V s s' \<longleftrightarrow> stored V s' = stored V s \<and> txn V s' = txn V s \<and> seen V s' = seen V s"

definition wrote :: "('s, 'h, 'p) sqlite_view \<Rightarrow> 'h \<Rightarrow> rows \<Rightarrow> 's \<Rightarrow> 's \<Rightarrow> bool" where
  "wrote V h u s s' \<longleftrightarrow> txn V s' = txn V s \<and> seen V s' h = Some u \<and>
     stored V s' = (if txn V s h then stored V s else (stored V s)(file_of V h := Some u))"

text \<open>Outside a transaction a connection sees what is stored. Opening, preparing, binding and resetting
  change no rows; a statement that was stepped and not reset refuses new values.\<close>

definition sees_stored :: "('s, 'h, 'p) sqlite_view \<Rightarrow> bool" where
  "sees_stored V \<longleftrightarrow> (\<forall>s h. \<not> txn V s h \<longrightarrow> seen V s h = stored V s (file_of V h))"

definition open_documented :: "('s, 'h, 'p) sqlite \<Rightarrow> ('s, 'h, 'p) sqlite_view \<Rightarrow> bool" where
  "open_documented S V \<longleftrightarrow>
     (\<forall>f s r s'. sqlite3_open S f s = (True, r, s') \<longrightarrow>
        (\<exists>h. r = Some h \<and> file_of V h = f \<and> stored V s' = stored V s \<and> txn V s' = (txn V s)(h := False)))"

definition pragma_documented :: "('s, 'h, 'p) sqlite \<Rightarrow> ('s, 'h, 'p) sqlite_view \<Rightarrow> bool" where
  "pragma_documented S V \<longleftrightarrow>
     (\<forall>h q s. q \<in> {sql_journal, sql_sync} \<longrightarrow> untouched V s (snd (sqlite3_exec S (Some h) q s)))"

definition write_documented :: "('s, 'h, 'p) sqlite \<Rightarrow> ('s, 'h, 'p) sqlite_view \<Rightarrow> bool" where
  "write_documented S V \<longleftrightarrow>
     (\<forall>h s s'. sqlite3_exec S (Some h) sql_create s = (True, s') \<longrightarrow>
        wrote V h (case seen V s h of None \<Rightarrow> Map.empty | Some t \<Rightarrow> t) s s') \<and>
     (\<forall>h s s' t. sqlite3_exec S (Some h) sql_all_ten s = (True, s') \<and> seen V s h = Some t \<longrightarrow>
        wrote V h (\<lambda>k. map_option (\<lambda>_. 10) (t k)) s s')"

definition begin_documented :: "('s, 'h, 'p) sqlite \<Rightarrow> ('s, 'h, 'p) sqlite_view \<Rightarrow> bool" where
  "begin_documented S V \<longleftrightarrow>
     (\<forall>h s s'. sqlite3_exec S (Some h) sql_begin s = (True, s') \<longrightarrow>
        stored V s' = stored V s \<and> seen V s' h = seen V s h \<and> txn V s' = (txn V s)(h := True))"

definition commit_documented :: "('s, 'h, 'p) sqlite \<Rightarrow> ('s, 'h, 'p) sqlite_view \<Rightarrow> bool" where
  "commit_documented S V \<longleftrightarrow>
     (\<forall>h s s' t. sqlite3_exec S (Some h) sql_commit s = (True, s') \<and> seen V s h = Some t \<longrightarrow>
        stored V s' = (stored V s)(file_of V h := Some t) \<and> txn V s' = (txn V s)(h := False))"

definition prepare_documented :: "('s, 'h, 'p) sqlite \<Rightarrow> ('s, 'h, 'p) sqlite_view \<Rightarrow> bool" where
  "prepare_documented S V \<longleftrightarrow>
     (\<forall>h q s r s'. sqlite3_prepare_v2 S (Some h) q s = (True, r, s') \<longrightarrow>
        (\<exists>p. r = Some p \<and> conn_of V p = h \<and> text_of V p = q \<and> \<not> stepped V s' p \<and> untouched V s s'))"

definition bind_documented :: "('s, 'h, 'p) sqlite \<Rightarrow> ('s, 'h, 'p) sqlite_view \<Rightarrow> bool" where
  "bind_documented S V \<longleftrightarrow>
     (\<forall>p i v s. untouched V s (sqlite3_bind_int S (Some p) i v s) \<and>
        stepped V (sqlite3_bind_int S (Some p) i v s) p = stepped V s p \<and>
        bound V (sqlite3_bind_int S (Some p) i v s) p =
          (if stepped V s p then bound V s p else (bound V s p)(i := v)))"

definition reset_documented :: "('s, 'h, 'p) sqlite \<Rightarrow> ('s, 'h, 'p) sqlite_view \<Rightarrow> bool" where
  "reset_documented S V \<longleftrightarrow>
     (\<forall>p s. untouched V s (sqlite3_reset S (Some p) s) \<and> \<not> stepped V (sqlite3_reset S (Some p) s) p \<and>
        untouched V s (sqlite3_finalize S (Some p) s))"

definition step_documented :: "('s, 'h, 'p) sqlite \<Rightarrow> ('s, 'h, 'p) sqlite_view \<Rightarrow> bool" where
  "step_documented S V \<longleftrightarrow>
     (\<forall>p s c s' t. \<not> stepped V s p \<and> seen V s (conn_of V p) = Some t \<and> sqlite3_step S (Some p) s = (c, s') \<longrightarrow>
        (text_of V p \<in> {sql_insert, sql_add, sql_put} \<and> c = SQLITE_DONE \<longrightarrow>
           wrote V (conn_of V p) (row_change (text_of V p) (bound V s p) t) s s' \<and> stepped V s' p) \<and>
        (text_of V p = sql_count \<and> c = SQLITE_ROW \<longrightarrow>
           untouched V s s' \<and> sqlite3_column_int S (Some p) 0 s' = int (card (dom t))) \<and>
        (text_of V p = sql_get \<and> c \<noteq> SQLITE_ERROR \<longrightarrow>
           untouched V s s' \<and>
           (case t (bound V s p 1) of
              None \<Rightarrow> c = SQLITE_DONE
            | Some v \<Rightarrow> c = SQLITE_ROW \<and> sqlite3_column_int S (Some p) 0 s' = v)))"

definition sqlite_documented :: "('s, 'h, 'p) sqlite \<Rightarrow> ('s, 'h, 'p) sqlite_view \<Rightarrow> bool" where
  "sqlite_documented S V \<longleftrightarrow> sees_stored V \<and> open_documented S V \<and> pragma_documented S V \<and>
     write_documented S V \<and> begin_documented S V \<and> commit_documented S V \<and> prepare_documented S V \<and>
     bind_documented S V \<and> reset_documented S V \<and> step_documented S V"

text \<open>No other connection is in a transaction, so that none holds a lock.\<close>

definition unlocked :: "('s, 'h, 'p) sqlite_view \<Rightarrow> 's \<Rightarrow> 'h \<Rightarrow> bool" where
  "unlocked V s h \<longleftrightarrow> (\<forall>g. g \<noteq> h \<longrightarrow> \<not> txn V s g)"

definition connections_available :: "('s, 'h, 'p) sqlite \<Rightarrow> ('s, 'h, 'p) sqlite_view \<Rightarrow> bool" where
  "connections_available S V \<longleftrightarrow>
     (\<forall>f s. fst (sqlite3_open S f s)) \<and>
     (\<forall>h s. unlocked V s h \<longrightarrow> fst (sqlite3_exec S (Some h) sql_create s)) \<and>
     (\<forall>h s. unlocked V s h \<and> seen V s h \<noteq> None \<longrightarrow> fst (sqlite3_exec S (Some h) sql_all_ten s)) \<and>
     (\<forall>h s. \<not> txn V s h \<longrightarrow> fst (sqlite3_exec S (Some h) sql_begin s)) \<and>
     (\<forall>h s. unlocked V s h \<and> txn V s h \<longrightarrow> fst (sqlite3_exec S (Some h) sql_commit s))"

definition statements_available :: "('s, 'h, 'p) sqlite \<Rightarrow> ('s, 'h, 'p) sqlite_view \<Rightarrow> bool" where
  "statements_available S V \<longleftrightarrow>
     (\<forall>h q s. q \<in> {sql_count, sql_insert, sql_add, sql_put, sql_get} \<and> seen V s h \<noteq> None \<longrightarrow>
        fst (sqlite3_prepare_v2 S (Some h) q s)) \<and>
     (\<forall>p s. unlocked V s (conn_of V p) \<and> \<not> stepped V s p \<and> seen V s (conn_of V p) \<noteq> None \<longrightarrow>
        (text_of V p \<in> {sql_insert, sql_add, sql_put} \<longrightarrow> fst (sqlite3_step S (Some p) s) = SQLITE_DONE) \<and>
        (text_of V p = sql_count \<longrightarrow> fst (sqlite3_step S (Some p) s) = SQLITE_ROW) \<and>
        (text_of V p = sql_get \<longrightarrow> fst (sqlite3_step S (Some p) s) \<noteq> SQLITE_ERROR))"

definition sqlite_available :: "('s, 'h, 'p) sqlite \<Rightarrow> ('s, 'h, 'p) sqlite_view \<Rightarrow> bool" where
  "sqlite_available S V \<longleftrightarrow> connections_available S V \<and> statements_available S V"

section \<open>Calls on an unlocked database\<close>

definition working :: "('s, 'h, 'p) sqlite \<Rightarrow> ('s, 'h, 'p) sqlite_view \<Rightarrow> bool" where
  "working S V \<longleftrightarrow> sqlite_documented S V \<and> sqlite_available S V"

lemmas working_defs = working_def sqlite_documented_def sqlite_available_def

lemma untouchedD:
  "untouched V s s' \<Longrightarrow> stored V s' = stored V s" "untouched V s s' \<Longrightarrow> txn V s' = txn V s"
  "untouched V s s' \<Longrightarrow> seen V s' = seen V s"
  by (simp_all add: untouched_def)

lemma working_open:
  assumes "working S V"
  shows "\<exists>h s'. sqlite3_open S f s = (True, Some h, s') \<and> file_of V h = f \<and> stored V s' = stored V s \<and>
    txn V s' = (txn V s)(h := False)"
proof -
  have doc: "open_documented S V" and "connections_available S V" using assms by (simp_all add: working_defs)
  then have "fst (sqlite3_open S f s)" by (simp add: connections_available_def)
  then obtain r s' where o1: "sqlite3_open S f s = (True, r, s')" by (cases "sqlite3_open S f s") simp
  from doc [unfolded open_documented_def, rule_format, OF o1] o1 show ?thesis by blast
qed

lemma working_seen: "working S V \<Longrightarrow> \<not> txn V s h \<Longrightarrow> seen V s h = stored V s (file_of V h)"
  by (simp add: working_defs sees_stored_def)

lemma working_pragma:
  assumes "working S V"
  shows "untouched V s (exec_sql S (Some h) sql_journal s)" "untouched V s (exec_sql S (Some h) sql_sync s)"
  using assms by (simp_all add: working_defs pragma_documented_def exec_sql_def)

lemma working_create:
  assumes "working S V" and "unlocked V s h"
  shows "\<exists>s'. sqlite3_exec S (Some h) sql_create s = (True, s') \<and>
    wrote V h (case seen V s h of None \<Rightarrow> Map.empty | Some t \<Rightarrow> t) s s'"
proof -
  have doc: "write_documented S V" and "connections_available S V" using assms by (simp_all add: working_defs)
  then have "fst (sqlite3_exec S (Some h) sql_create s)" using assms(2) by (simp add: connections_available_def)
  then obtain s' where "sqlite3_exec S (Some h) sql_create s = (True, s')"
    by (cases "sqlite3_exec S (Some h) sql_create s") simp
  with doc show ?thesis by (auto simp: write_documented_def)
qed

lemma working_exec:
  assumes "working S V"
  shows "unlocked V s h \<Longrightarrow> seen V s h = Some t \<Longrightarrow>
      wrote V h (\<lambda>k. map_option (\<lambda>_. 10) (t k)) s (exec_sql S (Some h) sql_all_ten s)"
    and "\<not> txn V s h \<Longrightarrow> stored V (exec_sql S (Some h) sql_begin s) = stored V s \<and>
      seen V (exec_sql S (Some h) sql_begin s) h = seen V s h \<and>
      txn V (exec_sql S (Some h) sql_begin s) = (txn V s)(h := True)"
    and "unlocked V s h \<Longrightarrow> txn V s h \<Longrightarrow> seen V s h = Some t \<Longrightarrow>
      stored V (exec_sql S (Some h) sql_commit s) = (stored V s)(file_of V h := Some t) \<and>
      txn V (exec_sql S (Some h) sql_commit s) = (txn V s)(h := False)"
proof -
  have pair: "fst (sqlite3_exec S (Some h) q s) \<Longrightarrow>
      sqlite3_exec S (Some h) q s = (True, exec_sql S (Some h) q s)" for q
    unfolding exec_sql_def by (cases "sqlite3_exec S (Some h) q s") simp
  have av: "connections_available S V" and w: "write_documented S V" and b: "begin_documented S V"
    and c: "commit_documented S V"
    using assms by (simp_all add: working_defs)
  show "unlocked V s h \<Longrightarrow> seen V s h = Some t \<Longrightarrow>
      wrote V h (\<lambda>k. map_option (\<lambda>_. 10) (t k)) s (exec_sql S (Some h) sql_all_ten s)"
    using w av pair [of sql_all_ten] by (simp add: write_documented_def connections_available_def)
  show "\<not> txn V s h \<Longrightarrow> stored V (exec_sql S (Some h) sql_begin s) = stored V s \<and>
      seen V (exec_sql S (Some h) sql_begin s) h = seen V s h \<and>
      txn V (exec_sql S (Some h) sql_begin s) = (txn V s)(h := True)"
    using b av pair [of sql_begin] by (simp add: begin_documented_def connections_available_def)
  show "unlocked V s h \<Longrightarrow> txn V s h \<Longrightarrow> seen V s h = Some t \<Longrightarrow>
      stored V (exec_sql S (Some h) sql_commit s) = (stored V s)(file_of V h := Some t) \<and>
      txn V (exec_sql S (Some h) sql_commit s) = (txn V s)(h := False)"
    using c av pair [of sql_commit] by (simp add: commit_documented_def connections_available_def)
qed

lemma working_prepare:
  assumes "working S V" and "q \<in> {sql_count, sql_insert, sql_add, sql_put, sql_get}" and "seen V s h \<noteq> None"
  shows "\<exists>p s'. sqlite3_prepare_v2 S (Some h) q s = (True, Some p, s') \<and> conn_of V p = h \<and> text_of V p = q \<and>
    \<not> stepped V s' p \<and> untouched V s s'"
proof -
  have doc: "prepare_documented S V" and av: "statements_available S V" using assms by (simp_all add: working_defs)
  have "fst (sqlite3_prepare_v2 S (Some h) q s)"
    using av assms(2,3) unfolding statements_available_def by blast
  then obtain r s' where o1: "sqlite3_prepare_v2 S (Some h) q s = (True, r, s')"
    by (cases "sqlite3_prepare_v2 S (Some h) q s") simp
  from doc [unfolded prepare_documented_def, rule_format, OF o1] o1 show ?thesis by blast
qed

lemma working_bind:
  assumes "working S V" and "\<not> stepped V s p"
  shows "untouched V s (sqlite3_bind_int S (Some p) i v s)" "\<not> stepped V (sqlite3_bind_int S (Some p) i v s) p"
    "bound V (sqlite3_bind_int S (Some p) i v s) p = (bound V s p)(i := v)"
  using assms by (simp_all add: working_defs bind_documented_def)

lemma working_reset:
  assumes "working S V"
  shows "untouched V s (sqlite3_reset S (Some p) s)" "\<not> stepped V (sqlite3_reset S (Some p) s) p"
    "untouched V s (sqlite3_finalize S (Some p) s)"
  using assms by (simp_all add: working_defs reset_documented_def)

lemma working_step:
  assumes "working S V" and "\<not> stepped V s p" and "seen V s (conn_of V p) = Some t" and "unlocked V s (conn_of V p)"
  shows "text_of V p \<in> {sql_insert, sql_add, sql_put} \<Longrightarrow>
      wrote V (conn_of V p) (row_change (text_of V p) (bound V s p) t) s (snd (sqlite3_step S (Some p) s))"
    and "text_of V p = sql_count \<Longrightarrow> \<exists>s'. sqlite3_step S (Some p) s = (SQLITE_ROW, s') \<and> untouched V s s' \<and>
      sqlite3_column_int S (Some p) 0 s' = int (card (dom t))"
    and "text_of V p = sql_get \<Longrightarrow> \<exists>c s'. sqlite3_step S (Some p) s = (c, s') \<and> untouched V s s' \<and>
      (case t (bound V s p 1) of
         None \<Rightarrow> c = SQLITE_DONE
       | Some v \<Rightarrow> c = SQLITE_ROW \<and> sqlite3_column_int S (Some p) 0 s' = v)"
proof -
  obtain c s' where step: "sqlite3_step S (Some p) s = (c, s')" by fastforce
  have doc: "step_documented S V" and av: "statements_available S V" using assms(1) by (simp_all add: working_defs)
  note d = doc [unfolded step_documented_def, rule_format, OF conjI [OF assms(2) conjI [OF assms(3) step]]]
  have "unlocked V s (conn_of V p) \<and> \<not> stepped V s p \<and> seen V s (conn_of V p) \<noteq> None" using assms(2-4) by simp
  note a = av [unfolded statements_available_def, THEN conjunct2, rule_format, OF this, unfolded step fst_conv]
  show "text_of V p \<in> {sql_insert, sql_add, sql_put} \<Longrightarrow>
      wrote V (conn_of V p) (row_change (text_of V p) (bound V s p) t) s (snd (sqlite3_step S (Some p) s))"
    using d a step by simp
  show "text_of V p = sql_count \<Longrightarrow> \<exists>s'. sqlite3_step S (Some p) s = (SQLITE_ROW, s') \<and> untouched V s s' \<and>
      sqlite3_column_int S (Some p) 0 s' = int (card (dom t))"
    using d a step by simp
  show "text_of V p = sql_get \<Longrightarrow> \<exists>c s'. sqlite3_step S (Some p) s = (c, s') \<and> untouched V s s' \<and>
      (case t (bound V s p 1) of
         None \<Rightarrow> c = SQLITE_DONE
       | Some v \<Rightarrow> c = SQLITE_ROW \<and> sqlite3_column_int S (Some p) 0 s' = v)"
    using d a step by simp
qed

section \<open>The rows after the start\<close>

text \<open>The database at rest, with the tables \<open>st\<close>; and inside the transaction of \<open>h\<close>, which sees \<open>t\<close>.\<close>

definition at_rest :: "('s, 'h, 'p) sqlite_view \<Rightarrow> (string \<Rightarrow> rows option) \<Rightarrow> 's \<Rightarrow> bool" where
  "at_rest V st s \<longleftrightarrow> stored V s = st \<and> (\<forall>g. \<not> txn V s g)"

definition in_txn :: "('s, 'h, 'p) sqlite_view \<Rightarrow> 'h \<Rightarrow> rows \<Rightarrow> (string \<Rightarrow> rows option) \<Rightarrow> 's \<Rightarrow> bool" where
  "in_txn V h t st s \<longleftrightarrow> stored V s = st \<and> (\<forall>g. txn V s g \<longleftrightarrow> g = h) \<and> seen V s h = Some t"

lemma rest_seen: "working S V \<Longrightarrow> at_rest V st s \<Longrightarrow> seen V s h = st (file_of V h)"
  using working_seen [of S V s h] by (auto simp: at_rest_def)

lemma rest_unlocked: "at_rest V st s \<Longrightarrow> unlocked V s h" "in_txn V h t st s \<Longrightarrow> unlocked V s h"
  by (simp_all add: at_rest_def in_txn_def unlocked_def)

lemma untouched_state:
  "at_rest V st s \<Longrightarrow> untouched V s s' \<Longrightarrow> at_rest V st s'" "in_txn V h t st s \<Longrightarrow> untouched V s s' \<Longrightarrow> in_txn V h t st s'"
  by (simp_all add: untouched_def at_rest_def in_txn_def)

lemma wrote_state:
  "wrote V h u s s' \<Longrightarrow> at_rest V st s \<Longrightarrow> at_rest V (st(file_of V h := Some u)) s'"
  "wrote V h u s s' \<Longrightarrow> in_txn V h t st s \<Longrightarrow> in_txn V h u st s'"
  by (auto simp: wrote_def at_rest_def in_txn_def)

lemma insert_item_row:
  assumes w: "working S V" and p: "text_of V p = sql_insert" "conn_of V p = h"
    and s: "in_txn V h t st s" "\<not> stepped V s p"
  shows "in_txn V h (put_if_absent i 10 t) st (insert_item S (Some p) i s)"
    and "\<not> stepped V (insert_item S (Some p) i s) p"
proof -
  let ?b = "sqlite3_bind_int S (Some p) 1 i s"
  note b = working_bind [OF w s(2), of 1 i]
  have t: "in_txn V h t st ?b" by (rule untouched_state(2) [OF s(1) b(1)])
  then have "seen V ?b (conn_of V p) = Some t" "unlocked V ?b (conn_of V p)"
    using rest_unlocked(2) [OF t] by (simp_all add: in_txn_def p)
  from working_step(1) [OF w b(2) this] have "wrote V h (put_if_absent i 10 t) ?b (snd (sqlite3_step S (Some p) ?b))"
    by (simp add: p b(3) row_change_def)
  from untouched_state(2) [OF wrote_state(2) [OF this t] working_reset(1) [OF w]]
  show "in_txn V h (put_if_absent i 10 t) st (insert_item S (Some p) i s)"
    unfolding insert_item_def .
  show "\<not> stepped V (insert_item S (Some p) i s) p"
    unfolding insert_item_def by (rule working_reset(2) [OF w])
qed

lemma insert_items_rows:
  assumes w: "working S V" and p: "text_of V p = sql_insert" "conn_of V p = h"
  shows "in_txn V h t st s \<Longrightarrow> \<not> stepped V s p \<Longrightarrow>
    in_txn V h (\<lambda>k. if k \<in> set is \<and> t k = None then Some 10 else t k) st (fold (insert_item S (Some p)) is s)"
proof (induction "is" arbitrary: s t)
  case (Cons i js)
  have "(\<lambda>k. if k \<in> set js \<and> put_if_absent i 10 t k = None then Some 10 else put_if_absent i 10 t k) =
      (\<lambda>k. if k \<in> set (i # js) \<and> t k = None then Some 10 else t k)"
    by (auto simp: put_if_absent_def fun_eq_iff split: option.split)
  then show ?case using Cons.IH [OF insert_item_row [OF w p Cons.prems], of i] by simp
qed simp

lemma count_rows_working:
  assumes w: "working S V" and r: "at_rest V st s" and t: "st (file_of V h) = Some t"
  shows "\<exists>s'. count_rows S (Some h) s = (int (card (dom t)), s') \<and> at_rest V st s'"
proof -
  have "seen V s h \<noteq> None" using rest_seen [OF w r] t by simp
  then obtain p s1 where p: "sqlite3_prepare_v2 S (Some h) sql_count s = (True, Some p, s1)" "conn_of V p = h"
      "text_of V p = sql_count" "\<not> stepped V s1 p" "untouched V s s1"
    using working_prepare [OF w, of sql_count s h] by auto
  have r1: "at_rest V st s1" by (rule untouched_state(1) [OF r p(5)])
  then have "seen V s1 (conn_of V p) = Some t" "unlocked V s1 (conn_of V p)"
    using rest_seen [OF w r1] t p(2) rest_unlocked(1) [OF r1] by simp_all
  from working_step(2) [OF w p(4) this p(3)] obtain s2 where "sqlite3_step S (Some p) s1 = (SQLITE_ROW, s2)"
      "untouched V s1 s2" "sqlite3_column_int S (Some p) 0 s2 = int (card (dom t))" by blast
  with untouched_state(1) [OF untouched_state(1) [OF r1] working_reset(3) [OF w], of s2 p] p(1)
  show ?thesis by (simp add: count_rows_def)
qed

definition started_rows :: "rows \<Rightarrow> rows" where
  "started_rows t =
     (if 9000 \<le> card (dom t) then (\<lambda>k. map_option (\<lambda>_. 10) (t k))
      else (\<lambda>k. if 1 \<le> k \<and> k \<le> 9000 \<and> t k = None then Some 10 else t k))"

lemma fill_rows_working:
  assumes w: "working S V" and t: "in_txn V h t st s"
  shows "in_txn V h (started_rows t) st (fill_rows S (Some h) (int (card (dom t))) s)"
proof (cases "9000 \<le> card (dom t)")
  case True
  have "seen V s h = Some t" using t by (simp add: in_txn_def)
  from wrote_state(2) [OF working_exec(1) [OF w rest_unlocked(2) [OF t] this] t] True
  show ?thesis by (simp add: fill_rows_def started_rows_def)
next
  case False
  have "seen V s h \<noteq> None" using t by (simp add: in_txn_def)
  then obtain p s1 where p: "sqlite3_prepare_v2 S (Some h) sql_insert s = (True, Some p, s1)" "conn_of V p = h"
      "text_of V p = sql_insert" "\<not> stepped V s1 p" "untouched V s s1"
    using working_prepare [OF w, of sql_insert s h] by auto
  have "in_txn V h t st s1" by (rule untouched_state(2) [OF t p(5)])
  from untouched_state(2) [OF insert_items_rows [OF w p(3,2) this p(4), of "[1..9000]"] working_reset(3) [OF w], of p]
  show ?thesis using p(1) False by (simp add: fill_rows_def started_rows_def conj_assoc)
qed

lemma prepare_update_working:
  assumes w: "working S V" and "db d = Some h" and r: "at_rest V st (files d)" and t: "st (file_of V h) \<noteq> None"
  shows "at_rest V st (files (prepare_update S d))" "db (prepare_update S d) = db d"
    "\<exists>p. update_stmt (prepare_update S d) = Some p \<and> conn_of V p = h \<and> text_of V p = sql_add"
    "alv (prepare_update S d) = alv d"
proof -
  have "seen V (files d) h \<noteq> None" using rest_seen [OF w r] t by simp
  then obtain p s1 where p: "sqlite3_prepare_v2 S (Some h) sql_add (files d) = (True, Some p, s1)" "conn_of V p = h"
      "text_of V p = sql_add" "untouched V (files d) s1"
    using working_prepare [OF w, of sql_add "files d" h] by auto
  then show "at_rest V st (files (prepare_update S d))" "db (prepare_update S d) = db d"
    "\<exists>p. update_stmt (prepare_update S d) = Some p \<and> conn_of V p = h \<and> text_of V p = sql_add"
    "alv (prepare_update S d) = alv d"
    using assms(2) untouched_state(1) [OF r, of s1] by (auto simp: prepare_update_def)
qed

text \<open>The rows before the start, none when there is no table yet.\<close>

definition rows_in :: "(string \<Rightarrow> rows option) \<Rightarrow> string \<Rightarrow> rows" where
  "rows_in st f = (case st f of None \<Rightarrow> Map.empty | Some t \<Rightarrow> t)"

text \<open>Opening, and the two pragmas.\<close>

lemma open_working:
  assumes w: "working S V" and r: "at_rest V st s"
  shows "\<exists>h s'. sqlite3_open S f s = (True, Some h, s') \<and> file_of V h = f \<and>
    at_rest V st (exec_sql S (Some h) sql_sync (exec_sql S (Some h) sql_journal s'))"
proof -
  obtain h s' where "sqlite3_open S f s = (True, Some h, s')" "file_of V h = f" "stored V s' = stored V s"
      "txn V s' = (txn V s)(h := False)" using working_open [OF w] by blast
  moreover from this have "at_rest V st s'" using r by (simp add: at_rest_def)
  from untouched_state(1) [OF untouched_state(1) [OF this working_pragma(1) [OF w]] working_pragma(2) [OF w]]
  have "at_rest V st (exec_sql S (Some h) sql_sync (exec_sql S (Some h) sql_journal s'))" .
  ultimately show ?thesis by blast
qed

lemma InitializeDatabase_working:
  assumes w: "working S V" and r: "at_rest V st (files d)"
  shows "at_rest V (st(db_path i := Some (started_rows (rows_in st (db_path i))))) (files (InitializeDatabase S i d))"
    and "alv (InitializeDatabase S i d) = alv d"
proof -
  let ?t = "rows_in st (db_path i)" and ?f = "db_path i"
  obtain h s where h: "sqlite3_open S ?f (files d) = (True, Some h, s)" "file_of V h = ?f"
      "at_rest V st (exec_sql S (Some h) sql_sync (exec_sql S (Some h) sql_journal s))"
    using open_working [OF w r] by blast
  let ?s1 = "exec_sql S (Some h) sql_sync (exec_sql S (Some h) sql_journal s)"
  obtain s2 where s2: "sqlite3_exec S (Some h) sql_create ?s1 = (True, s2)"
      "wrote V h (case seen V ?s1 h of None \<Rightarrow> Map.empty | Some t \<Rightarrow> t) ?s1 s2"
    using working_create [OF w rest_unlocked(1) [OF h(3)]] by blast
  have "(case seen V ?s1 h of None \<Rightarrow> Map.empty | Some t \<Rightarrow> t) = ?t"
    using rest_seen [OF w h(3)] h(2) by (simp add: rows_in_def)
  then have r2: "at_rest V (st(?f := Some ?t)) s2" using wrote_state(1) [OF s2(2) h(3)] h(2) by simp
  obtain s3 where s3: "count_rows S (Some h) s2 = (int (card (dom ?t)), s3)" "at_rest V (st(?f := Some ?t)) s3"
    using count_rows_working [OF w r2, of h ?t] h(2) by auto
  let ?s4 = "exec_sql S (Some h) sql_begin s3"
  have "\<not> txn V s3 h" "seen V s3 h = Some ?t"
    using s3(2) rest_seen [OF w s3(2)] h(2) by (simp_all add: at_rest_def)
  then have "in_txn V h ?t (st(?f := Some ?t)) ?s4"
    using working_exec(2) [OF w, of s3 h] s3(2) by (auto simp: in_txn_def at_rest_def)
  from fill_rows_working [OF w this]
  have t5: "in_txn V h (started_rows ?t) (st(?f := Some ?t)) (fill_rows S (Some h) (int (card (dom ?t))) ?s4)" .
  let ?s5 = "exec_sql S (Some h) sql_commit (fill_rows S (Some h) (int (card (dom ?t))) ?s4)"
  have r5: "at_rest V (st(?f := Some (started_rows ?t))) ?s5"
    using working_exec(3) [OF w rest_unlocked(2) [OF t5], of "started_rows ?t"] t5 h(2)
    by (simp add: in_txn_def at_rest_def)
  let ?d = "d\<lparr>db := Some h, files := ?s5\<rparr>"
  have "InitializeDatabase S i d = prepare_update S ?d"
    using h(1) s2(1) s3(1) by (simp add: InitializeDatabase_def Let_def)
  then show "at_rest V (st(?f := Some (started_rows ?t))) (files (InitializeDatabase S i d))"
    and "alv (InitializeDatabase S i d) = alv d"
    using prepare_update_working [OF w, of ?d h] r5 h(2) by simp_all
qed

lemma InitDB_working:
  assumes w: "working S V" and r: "at_rest V st (files d)" and t: "st (db_path i) \<noteq> None"
  shows "at_rest V st (files (InitDB S i d))" and "alv (InitDB S i d) = alv d"
    and "\<exists>h p. db (InitDB S i d) = Some h \<and> file_of V h = db_path i \<and>
      update_stmt (InitDB S i d) = Some p \<and> conn_of V p = h \<and> text_of V p = sql_add"
proof -
  obtain h s where h: "sqlite3_open S (db_path i) (files d) = (True, Some h, s)" "file_of V h = db_path i"
      "at_rest V st (exec_sql S (Some h) sql_sync (exec_sql S (Some h) sql_journal s))"
    using open_working [OF w r] by blast
  let ?d = "d\<lparr>db := Some h, files := exec_sql S (Some h) sql_sync (exec_sql S (Some h) sql_journal s)\<rparr>"
  have "InitDB S i d = prepare_update S ?d" using h(1) by (simp add: InitDB_def Let_def)
  then show "at_rest V st (files (InitDB S i d))" and "alv (InitDB S i d) = alv d"
    and "\<exists>h p. db (InitDB S i d) = Some h \<and> file_of V h = db_path i \<and>
      update_stmt (InitDB S i d) = Some p \<and> conn_of V p = h \<and> text_of V p = sql_add"
    using prepare_update_working [OF w, of ?d h] h t by auto
qed

section \<open>Balances in the open database\<close>

text \<open>The state the start leaves: a connection to the file of the node and the prepared update.\<close>

definition open_on ::
  "('s, 'h, 'p) sqlite_view \<Rightarrow> string \<Rightarrow> rows \<Rightarrow> ('s, 'h, 'p) node_db \<Rightarrow> bool" where
  "open_on V f t d \<longleftrightarrow> (\<forall>g. \<not> txn V (files d) g) \<and> stored V (files d) f = Some t \<and>
     (\<exists>h p. db d = Some h \<and> file_of V h = f \<and> update_stmt d = Some p \<and> conn_of V p = h \<and> text_of V p = sql_add)"

lemma open_onD:
  assumes "open_on V f t d"
  obtains h p st where "at_rest V st (files d)" "st f = Some t" "db d = Some h" "file_of V h = f"
    "update_stmt d = Some p" "conn_of V p = h" "text_of V p = sql_add"
  using assms that [of "stored V (files d)"] by (auto simp: open_on_def at_rest_def)

lemma open_onI:
  assumes "at_rest V st s" and "st f = Some t" and "open_on V f u d"
  shows "open_on V f t (d\<lparr>files := s\<rparr>)"
  using assms by (auto simp: open_on_def at_rest_def)

lemma fresh_statement:
  assumes w: "working S V" and d: "open_on V f t d" and q: "q \<in> {sql_put, sql_get}"
  shows "\<exists>h p s st. db d = Some h \<and> file_of V h = f \<and> sqlite3_prepare_v2 S (Some h) q (files d) = (True, Some p, s) \<and>
    conn_of V p = h \<and> text_of V p = q \<and> \<not> stepped V s p \<and> at_rest V st s \<and> st f = Some t"
proof -
  obtain h p st where o1: "at_rest V st (files d)" "st f = Some t" "db d = Some h" "file_of V h = f"
    using d by (rule open_onD)
  then have "seen V (files d) h \<noteq> None" using rest_seen [OF w o1(1), of h] by simp
  then obtain p s where "sqlite3_prepare_v2 S (Some h) q (files d) = (True, Some p, s)" "conn_of V p = h"
      "text_of V p = q" "\<not> stepped V s p" "untouched V (files d) s"
    using working_prepare [OF w, of q "files d" h] q by auto
  with o1 untouched_state(1) [OF o1(1), of s] show ?thesis by blast
qed

lemma bound_rest:
  assumes w: "working S V" and p: "\<not> stepped V s p" and r: "at_rest V st s" "st (file_of V (conn_of V p)) = Some t"
  shows "at_rest V st (sqlite3_bind_int S (Some p) i v s)" "\<not> stepped V (sqlite3_bind_int S (Some p) i v s) p"
    "seen V (sqlite3_bind_int S (Some p) i v s) (conn_of V p) = Some t"
    "unlocked V (sqlite3_bind_int S (Some p) i v s) (conn_of V p)"
proof -
  note b = working_bind [OF w p, of i v]
  show 1: "at_rest V st (sqlite3_bind_int S (Some p) i v s)" by (rule untouched_state(1) [OF r(1) b(1)])
  show "\<not> stepped V (sqlite3_bind_int S (Some p) i v s) p" by (rule b(2))
  show "seen V (sqlite3_bind_int S (Some p) i v s) (conn_of V p) = Some t"
    "unlocked V (sqlite3_bind_int S (Some p) i v s) (conn_of V p)"
    using rest_seen [OF w 1] r(2) rest_unlocked(1) [OF 1] by simp_all
qed

lemma GetBalance_working:
  assumes w: "working S V" and d: "open_on V f t d"
  shows "fst (GetBalance S k d) = (if alv d then case t k of None \<Rightarrow> - 1 | Some v \<Rightarrow> v else - 1)"
    and "open_on V f t (snd (GetBalance S k d))"
proof -
  obtain h p s st where o1: "db d = Some h" "file_of V h = f" "conn_of V p = h" "text_of V p = sql_get"
      "sqlite3_prepare_v2 S (Some h) sql_get (files d) = (True, Some p, s)"
      "\<not> stepped V s p" "at_rest V st s" "st f = Some t"
    using fresh_statement [OF w d, of sql_get] by auto
  then have "st (file_of V (conn_of V p)) = Some t" by simp
  note b = bound_rest [OF w o1(6,7) this, of 1 k] and v = working_bind(3) [OF w o1(6), of 1 k]
  obtain c s' where c: "sqlite3_step S (Some p) (sqlite3_bind_int S (Some p) 1 k s) = (c, s')"
      "untouched V (sqlite3_bind_int S (Some p) 1 k s) s'"
      "case t k of None \<Rightarrow> c = SQLITE_DONE | Some v \<Rightarrow> c = SQLITE_ROW \<and> sqlite3_column_int S (Some p) 0 s' = v"
    using working_step(3) [OF w b(2,3,4) o1(4)] by (auto simp: v)
  have "at_rest V st (sqlite3_finalize S (Some p) s')"
    by (rule untouched_state(1) [OF untouched_state(1) [OF b(1) c(2)] working_reset(3) [OF w]])
  then have "open_on V f t (d\<lparr>files := sqlite3_finalize S (Some p) s'\<rparr>)" using o1(8) d by (rule open_onI)
  then show "fst (GetBalance S k d) = (if alv d then case t k of None \<Rightarrow> - 1 | Some v \<Rightarrow> v else - 1)"
    and "open_on V f t (snd (GetBalance S k d))"
    using o1 c d by (auto simp: GetBalance_def split: option.splits)
qed

lemma SetBalance_working:
  assumes w: "working S V" and d: "open_on V f t d" and "alv d"
  shows "open_on V f (put_if_present k (\<lambda>_. v) t) (SetBalance S k v d) \<and> alv (SetBalance S k v d)"
proof -
  obtain h p s st where o1: "db d = Some h" "file_of V h = f" "conn_of V p = h" "text_of V p = sql_put"
      "sqlite3_prepare_v2 S (Some h) sql_put (files d) = (True, Some p, s)"
      "\<not> stepped V s p" "at_rest V st s" "st f = Some t"
    using fresh_statement [OF w d, of sql_put] by auto
  then have f: "st (file_of V (conn_of V p)) = Some t" by simp
  note b1 = bound_rest [OF w o1(6,7) f, of 1 v] and v1 = working_bind(3) [OF w o1(6), of 1 v]
  note b2 = bound_rest [OF w b1(2,1) f, of 2 k] and v2 = working_bind(3) [OF w b1(2), of 2 k]
  let ?b = "sqlite3_bind_int S (Some p) 2 k (sqlite3_bind_int S (Some p) 1 v s)"
  have n: "sql_put \<noteq> sql_insert" "sql_put \<noteq> sql_add" by (simp_all add: sql_put_def sql_insert_def sql_add_def)
  have "wrote V h (put_if_present k (\<lambda>_. v) t) ?b (snd (sqlite3_step S (Some p) ?b))"
    using working_step(1) [OF w b2(2,3,4)] o1(3,4) n by (simp add: v1 v2 row_change_def)
  from untouched_state(1) [OF wrote_state(1) [OF this b2(1)] working_reset(3) [OF w], of p]
  have "at_rest V (st(f := Some (put_if_present k (\<lambda>_. v) t))) (sqlite3_finalize S (Some p) (snd (sqlite3_step S (Some p) ?b)))"
    using o1(2) by simp
  from open_onI [OF this _ d] show ?thesis using o1(1,5) assms(3) by (simp add: SetBalance_def)
qed

lemma UpdateBalance_working:
  assumes w: "working S V" and d: "open_on V f t d" and "alv d"
  shows "open_on V f (put_if_present k (\<lambda>v. v + (if is_sender then - amount else amount)) t)
      (UpdateBalance S k amount is_sender d) \<and> alv (UpdateBalance S k amount is_sender d)"
proof -
  obtain h p st where o1: "at_rest V st (files d)" "st f = Some t" "file_of V h = f" "update_stmt d = Some p"
      "conn_of V p = h" "text_of V p = sql_add" using d by (rule open_onD)
  let ?a = "if is_sender then - amount else amount" and ?r = "sqlite3_reset S (Some p) (files d)"
  have f: "st (file_of V (conn_of V p)) = Some t" using o1 by simp
  have r: "at_rest V st ?r" "\<not> stepped V ?r p"
    using untouched_state(1) [OF o1(1) working_reset(1) [OF w]] working_reset(2) [OF w] by simp_all
  note b1 = bound_rest [OF w r(2,1) f, of 1 ?a] and v1 = working_bind(3) [OF w r(2), of 1 ?a]
  note b2 = bound_rest [OF w b1(2,1) f, of 2 k] and v2 = working_bind(3) [OF w b1(2), of 2 k]
  let ?b = "sqlite3_bind_int S (Some p) 2 k (sqlite3_bind_int S (Some p) 1 ?a ?r)"
  have n: "sql_add \<noteq> sql_insert" by (simp add: sql_insert_def sql_add_def)
  have "wrote V h (put_if_present k (\<lambda>v. v + ?a) t) ?b (snd (sqlite3_step S (Some p) ?b))"
    using working_step(1) [OF w b2(2,3,4)] o1(5,6) n by (simp add: v1 v2 row_change_def)
  from wrote_state(1) [OF this b2(1)]
  have "at_rest V (st(f := Some (put_if_present k (\<lambda>v. v + ?a) t))) (snd (sqlite3_step S (Some p) ?b))"
    using o1(3) by simp
  from open_onI [OF this _ d] show ?thesis using o1(4) assms(3) by (simp add: UpdateBalance_def Let_def)
qed

text \<open>\<^verbatim>\<open>alv_\<close> is false from the start and nothing assigns it, so the mirror is never read or written.\<close>

lemma mirror_switched_off:
  "\<not> alv d \<Longrightarrow> UpdateBalance S k amount is_sender d = d"
  "\<not> alv d \<Longrightarrow> SetBalance S k v d = d"
  "\<not> alv d \<Longrightarrow> GetBalance S k d = (- 1, d)"
  by (simp_all add: UpdateBalance_def SetBalance_def GetBalance_def)

text \<open>A file that cannot be opened leaves the rest of the node as it was.\<close>

lemma unopened_database:
  "\<not> fst (sqlite3_open S (db_path i) (files d)) \<Longrightarrow> update_stmt (InitializeDatabase S i d) = update_stmt d"
  "\<not> fst (sqlite3_open S (db_path i) (files d)) \<Longrightarrow> update_stmt (InitDB S i d) = update_stmt d"
  by (auto simp: InitializeDatabase_def InitDB_def Let_def split: prod.splits)

section \<open>A SQLite\<close>

text \<open>
  An instance: connections are numbered, a statement is its number, connection and text. A connection
  in a transaction works on a copy of the table.
\<close>

type_synonym sq_conn = "nat \<times> string"
type_synonym sq_stmt = "nat \<times> sq_conn \<times> string"

record sq_state =
  sq_tables :: "string \<Rightarrow> rows option"
  sq_copy :: "sq_conn \<Rightarrow> rows option option"
  sq_binds :: "sq_stmt \<Rightarrow> int \<Rightarrow> int"
  sq_busy :: "sq_stmt \<Rightarrow> bool"
  sq_column :: int
  sq_next :: nat

definition sq_seen :: "sq_state \<Rightarrow> sq_conn \<Rightarrow> rows option" where
  "sq_seen s h = (case sq_copy s h of None \<Rightarrow> sq_tables s (snd h) | Some t \<Rightarrow> t)"

definition sq_write :: "sq_conn \<Rightarrow> rows \<Rightarrow> sq_state \<Rightarrow> sq_state" where
  "sq_write h u s =
     (if sq_copy s h = None then s\<lparr>sq_tables := (sq_tables s)(snd h := Some u)\<rparr>
      else s\<lparr>sq_copy := (sq_copy s)(h := Some (Some u))\<rparr>)"

definition sq_open :: "string \<Rightarrow> sq_state \<Rightarrow> bool \<times> sq_conn option \<times> sq_state" where
  "sq_open f s = (let h = (sq_next s, f) in
     (True, Some h, s\<lparr>sq_copy := (sq_copy s)(h := None), sq_next := sq_next s + 1\<rparr>))"

definition sq_exec :: "sq_conn option \<Rightarrow> string \<Rightarrow> sq_state \<Rightarrow> bool \<times> sq_state" where
  "sq_exec c q s =
     (case c of None \<Rightarrow> (False, s)
      | Some h \<Rightarrow>
          if q = sql_create then (True, sq_write h (case sq_seen s h of None \<Rightarrow> Map.empty | Some t \<Rightarrow> t) s)
          else if q = sql_all_ten then
            (case sq_seen s h of None \<Rightarrow> (False, s)
             | Some t \<Rightarrow> (True, sq_write h (\<lambda>k. map_option (\<lambda>_. 10) (t k)) s))
          else if q = sql_begin then
            (case sq_copy s h of
               None \<Rightarrow> (True, s\<lparr>sq_copy := (sq_copy s)(h := Some (sq_tables s (snd h)))\<rparr>) | Some t \<Rightarrow> (False, s))
          else if q = sql_commit then
            (case sq_copy s h of
               None \<Rightarrow> (False, s)
             | Some t \<Rightarrow> (True, s\<lparr>sq_tables := (sq_tables s)(snd h := t), sq_copy := (sq_copy s)(h := None)\<rparr>))
          else (True, s))"

definition sq_prepare :: "sq_conn option \<Rightarrow> string \<Rightarrow> sq_state \<Rightarrow> bool \<times> sq_stmt option \<times> sq_state" where
  "sq_prepare c q s =
     (case c of None \<Rightarrow> (False, None, s)
      | Some h \<Rightarrow> if sq_seen s h = None then (False, None, s)
          else let p = (sq_next s, h, q)
               in (True, Some p, s\<lparr>sq_busy := (sq_busy s)(p := False), sq_next := sq_next s + 1\<rparr>))"

definition sq_bind :: "sq_stmt option \<Rightarrow> int \<Rightarrow> int \<Rightarrow> sq_state \<Rightarrow> sq_state" where
  "sq_bind r i v s =
     (case r of None \<Rightarrow> s
      | Some p \<Rightarrow> if sq_busy s p then s else s\<lparr>sq_binds := (sq_binds s)(p := (sq_binds s p)(i := v))\<rparr>)"

definition sq_step :: "sq_stmt option \<Rightarrow> sq_state \<Rightarrow> step_code \<times> sq_state" where
  "sq_step r s =
     (case r of None \<Rightarrow> (SQLITE_ERROR, s)
      | Some p \<Rightarrow>
          let h = fst (snd p); q = snd (snd p); s1 = s\<lparr>sq_busy := (sq_busy s)(p := True)\<rparr> in
          if sq_busy s p then (SQLITE_ERROR, s)
          else case sq_seen s h of
             None \<Rightarrow> (SQLITE_ERROR, s)
           | Some t \<Rightarrow>
               if q = sql_count then (SQLITE_ROW, s1\<lparr>sq_column := int (card (dom t))\<rparr>)
               else if q = sql_get then
                 (case t (sq_binds s p 1) of
                    None \<Rightarrow> (SQLITE_DONE, s1) | Some v \<Rightarrow> (SQLITE_ROW, s1\<lparr>sq_column := v\<rparr>))
               else (SQLITE_DONE, sq_write h (row_change q (sq_binds s p) t) s1))"

definition sq :: "(sq_state, sq_conn, sq_stmt) sqlite" where
  "sq = \<lparr>sqlite3_open = sq_open, sqlite3_exec = sq_exec, sqlite3_prepare_v2 = sq_prepare,
     sqlite3_bind_int = sq_bind, sqlite3_step = sq_step, sqlite3_column_int = (\<lambda>r i s. sq_column s),
     sqlite3_reset = (\<lambda>r s. case r of None \<Rightarrow> s | Some p \<Rightarrow> s\<lparr>sq_busy := (sq_busy s)(p := False)\<rparr>),
     sqlite3_finalize = (\<lambda>r s. s)\<rparr>"

definition sq_view :: "(sq_state, sq_conn, sq_stmt) sqlite_view" where
  "sq_view = \<lparr>stored = sq_tables, file_of = snd, txn = (\<lambda>s h. sq_copy s h \<noteq> None), seen = sq_seen,
     conn_of = (\<lambda>p. fst (snd p)), text_of = (\<lambda>p. snd (snd p)), bound = sq_binds, stepped = sq_busy\<rparr>"

lemma sql_distinct:
  "sql_all_ten \<noteq> sql_create" "sql_journal \<notin> {sql_create, sql_all_ten, sql_begin, sql_commit}"
  "sql_sync \<notin> {sql_create, sql_all_ten, sql_begin, sql_commit}"
  "sql_begin \<notin> {sql_create, sql_all_ten}" "sql_commit \<notin> {sql_create, sql_all_ten, sql_begin}"
  "sql_insert \<notin> {sql_count, sql_get}" "sql_add \<notin> {sql_count, sql_get}" "sql_put \<notin> {sql_count, sql_get}"
  "sql_get \<noteq> sql_count"
  by (simp_all add: sql_create_def sql_all_ten_def sql_journal_def sql_sync_def sql_begin_def sql_commit_def
      sql_insert_def sql_add_def sql_put_def sql_count_def sql_get_def)

lemma sq_wrote:
  "wrote sq_view h u s (sq_write h u s)"
  "wrote sq_view h u s (sq_write h u (s\<lparr>sq_busy := b\<rparr>))" "sq_busy (sq_write h u s) = sq_busy s"
  by (auto simp: wrote_def sq_view_def sq_write_def sq_seen_def fun_eq_iff)

lemma sq_untouched:
  assumes "sq_tables s' = sq_tables s" and "sq_copy s' = sq_copy s"
  shows "untouched sq_view s s'"
proof -
  have "sq_seen s' h = sq_seen s h" for h using assms by (simp add: sq_seen_def split: option.split)
  then have "sq_seen s' = sq_seen s" by blast
  with assms show ?thesis by (simp add: untouched_def sq_view_def)
qed

lemma sq_view_sel [simp]:
  "stored sq_view = sq_tables" "file_of sq_view h = snd h" "txn sq_view s h = (sq_copy s h \<noteq> None)"
  "seen sq_view = sq_seen" "conn_of sq_view p = fst (snd p)" "text_of sq_view p = snd (snd p)"
  "bound sq_view = sq_binds" "stepped sq_view = sq_busy"
  by (simp_all add: sq_view_def)

lemma sq_sel [simp]:
  "sqlite3_open sq = sq_open" "sqlite3_exec sq = sq_exec" "sqlite3_prepare_v2 sq = sq_prepare"
  "sqlite3_bind_int sq = sq_bind" "sqlite3_step sq = sq_step" "sqlite3_column_int sq r i s = sq_column s"
  "sqlite3_reset sq (Some p) s = s\<lparr>sq_busy := (sq_busy s)(p := False)\<rparr>" "sqlite3_finalize sq r s = s"
  by (simp_all add: sq_def)

lemma sq_connections:
  "sees_stored sq_view" "open_documented sq sq_view" "pragma_documented sq sq_view" "write_documented sq sq_view"
  "begin_documented sq sq_view" "commit_documented sq sq_view"
proof -
  show "sees_stored sq_view" by (simp add: sees_stored_def sq_seen_def)
  show "open_documented sq sq_view" by (auto simp: open_documented_def sq_open_def Let_def sq_view_def fun_eq_iff)
  show "pragma_documented sq sq_view"
    using sql_distinct by (auto simp: pragma_documented_def sq_exec_def intro: sq_untouched)
  show "write_documented sq sq_view"
    using sql_distinct(1) sq_wrote by (auto simp: write_documented_def sq_exec_def split: option.splits)
  show "begin_documented sq sq_view"
    using sql_distinct by (auto simp: begin_documented_def sq_exec_def sq_seen_def sq_view_def fun_eq_iff split: option.splits)
  show "commit_documented sq sq_view"
    using sql_distinct by (auto simp: commit_documented_def sq_exec_def sq_seen_def sq_view_def fun_eq_iff split: option.splits)
qed

lemma sq_statements:
  "prepare_documented sq sq_view" "bind_documented sq sq_view" "reset_documented sq sq_view"
  "step_documented sq sq_view"
proof -
  show "prepare_documented sq sq_view"
    by (auto simp: prepare_documented_def sq_prepare_def Let_def intro: sq_untouched split: if_splits)
  show "bind_documented sq sq_view" by (auto simp: bind_documented_def sq_bind_def intro: sq_untouched)
  show "reset_documented sq sq_view" by (auto simp: reset_documented_def intro: sq_untouched)
  show "step_documented sq sq_view"
    using sql_distinct
    by (auto simp: step_documented_def sq_step_def Let_def sq_wrote intro: sq_untouched split: option.splits if_splits)
qed

lemma sq_works: "sqlite_documented sq sq_view" "sqlite_available sq sq_view"
proof -
  show "sqlite_documented sq sq_view"
    unfolding sqlite_documented_def using sq_connections sq_statements by blast
  have "connections_available sq sq_view"
    using sql_distinct by (auto simp: connections_available_def sq_open_def sq_exec_def Let_def split: option.splits)
  moreover have "statements_available sq sq_view"
    using sql_distinct
    by (auto simp: statements_available_def sq_prepare_def sq_step_def Let_def split: option.splits)
  ultimately show "sqlite_available sq sq_view" by (simp add: sqlite_available_def)
qed

section \<open>The database after the start\<close>

text \<open>
  C37: the database a node starts with, when no call of SQLite fails. Whatever the file held before, and
  as long as no transaction is open, the constructor and a reset leave the node connected to its
  own file, with the update prepared, no transaction open, and no other file changed. When
  the committed table had at least 9000 rows, every row is set to 10; when it had fewer, the rows it had
  keep their balances and only the missing items from 1 to 9000 are added with 10. The
  result is committed: a new connection sees it. SQLite is held to its documentation: a statement that
  was stepped takes new values only after a reset, and a write in a transaction is stored by the commit.
\<close>

theorem started_database:
  assumes "sqlite_documented S V" and "sqlite_available S V" and "\<forall>g. \<not> txn V (files d) g"
  shows "\<exists>t. open_on V (db_path i) t (open_databases S i d) \<and>
    (\<forall>k. t k = (if 9000 \<le> card (dom (rows_in (stored V (files d)) (db_path i)))
                then map_option (\<lambda>_. 10) (rows_in (stored V (files d)) (db_path i) k)
                else if 1 \<le> k \<and> k \<le> 9000 \<and> rows_in (stored V (files d)) (db_path i) k = None then Some 10
                else rows_in (stored V (files d)) (db_path i) k)) \<and>
    (\<forall>f. f \<noteq> db_path i \<longrightarrow> stored V (files (open_databases S i d)) f = stored V (files d) f) \<and>
    alv (open_databases S i d) = alv d"
proof -
  let ?t = "started_rows (rows_in (stored V (files d)) (db_path i))"
  have w: "working S V" using assms(1,2) by (simp add: working_def)
  have "at_rest V (stored V (files d)) (files d)" using assms(3) by (simp add: at_rest_def)
  note one = InitializeDatabase_working [OF w this, of i]
  have "((stored V (files d))(db_path i := Some ?t)) (db_path i) \<noteq> None" by simp
  note two = InitDB_working [OF w one(1) this]
  have "open_on V (db_path i) ?t (open_databases S i d)"
    using two by (auto simp: open_on_def open_databases_def at_rest_def)
  then show ?thesis
    using one two by (intro exI [of _ ?t]) (simp add: open_databases_def started_rows_def at_rest_def)
qed

text \<open>A file with one row, for item 7, and balance 3.\<close>

definition demo_files :: sq_state where
  "demo_files = \<lparr>sq_tables = (\<lambda>f. if f = db_path 2 then Some [7 \<mapsto> 3] else None), sq_copy = (\<lambda>_. None),
     sq_binds = (\<lambda>_ _. 0), sq_busy = (\<lambda>_. False), sq_column = 0, sq_next = 0\<rparr>"

theorem started_database_witness:
  "\<exists>t. open_on sq_view (db_path 2) t (open_databases sq 2 (node_db_init demo_files)) \<and> t 1 = Some 10 \<and>
     t 7 = Some 3 \<and> t 9001 = None"
proof -
  have r: "rows_in (stored sq_view (files (node_db_init demo_files))) (db_path 2) = [7 \<mapsto> 3]"
    by (simp add: rows_in_def node_db_init_def demo_files_def)
  have "\<forall>g. \<not> txn sq_view (files (node_db_init demo_files)) g" by (simp add: node_db_init_def demo_files_def)
  from started_database [OF sq_works this, of 2] show ?thesis unfolding r by auto
qed

text \<open>Reading back what was written, if the mirror were switched on.\<close>

lemma balance_read_back:
  assumes "working S V" and "open_on V f t d" and "alv d"
  shows "fst (GetBalance S k (UpdateBalance S k amount is_sender (SetBalance S k v d))) =
    (if t k = None then - 1 else v + (if is_sender then - amount else amount))"
proof -
  let ?t = "put_if_present k (\<lambda>_. v) t" and ?e = "UpdateBalance S k amount is_sender (SetBalance S k v d)"
  have "open_on V f ?t (SetBalance S k v d)" "alv (SetBalance S k v d)"
    using SetBalance_working [OF assms] by simp_all
  then have "open_on V f (put_if_present k (\<lambda>v. v + (if is_sender then - amount else amount)) ?t) ?e" "alv ?e"
    using UpdateBalance_working [OF assms(1)] by blast+
  then show ?thesis
    using GetBalance_working(1) [OF assms(1), where d = ?e and k = k]
    by (auto simp: put_if_present_def split: option.splits)
qed

end
