(* ===== verification/Spec2Isabelle.thy ===== *)
theory Spec2Isabelle
  imports Atomicity CrossShard Dedup Prompt Startup Server Database
begin

text \<open>
  A model of a sharded Multi-Paxos transaction system with two-phase commit
  (\<^verbatim>\<open>src/paxos_node.cpp\<close>, \<^verbatim>\<open>src/paxos_node.h\<close>, \<^verbatim>\<open>grpc/paxos.proto\<close>,
  \<^verbatim>\<open>src/call_data.cpp\<close>), of its client (\<^verbatim>\<open>src/paxos_client.cpp\<close>), of the launcher
  that drives a test run (\<^verbatim>\<open>src/node_launch.cpp\<close>), of the workload generator
  (\<^verbatim>\<open>src/benchmark.h\<close>) and of the trace log (\<^verbatim>\<open>src/log.h\<close>).

  \<^bold>\<open>The program.\<close> Accounts 1 to 9000 are split over clusters. The nodes of a cluster replicate a
  log with Multi-Paxos: a leader assigns sequence numbers to client requests, proposes them to its
  backups, commits an entry at \<^verbatim>\<open>f_ + 1\<close> acknowledgements and executes the committed entries in
  sequence order. A transfer inside one cluster is one log entry. A transfer between clusters runs
  two-phase commit: the sender's cluster (coordinator) and the receiver's cluster (participant) each
  replicate a first-phase entry, which changes one balance and writes a write-ahead entry, and then
  a second-phase entry under the same sequence number, which keeps or undoes the change. A silent
  leader is replaced by an election: PREPARE, promises that carry whole logs, a merge, NEW-VIEW.

  \<^bold>\<open>Theories, in the order of the imports.\<close>
  \<^item> \<open>Prelude\<close>, \<open>CppStrings\<close>: failures as values, \<^verbatim>\<open>std::map\<close>, \<^verbatim>\<open>std::vector\<close>,
    \<^verbatim>\<open>std::stoi\<close>, \<^verbatim>\<open>std::to_string\<close>.
  \<^item> \<open>Ballots\<close>: \<^verbatim>\<open>struct Ballot\<close> and its operators, a linear order.
  \<^item> \<open>Messages\<close>: the messages of \<^verbatim>\<open>paxos.proto\<close> and the RPCs a node issues and answers.
  \<^item> \<open>Topology\<close>: the cluster arithmetic of the constructor; when quorums intersect.
  \<^item> \<open>NodeState\<close>: the members of \<^verbatim>\<open>class PaxosNode\<close>, the constructor, shared accesses, and
    a sample deployment on which the witnesses evaluate the handlers.
  \<^item> \<open>Execution\<close>: \<^verbatim>\<open>ExecuteTransaction\<close>; its behaviour on each branch, conservation of money,
    non-negativity of balances for non-negative amounts.
  \<^item> \<open>TwoPhase\<close>: \<^verbatim>\<open>StartSecondPhase\<close>, \<^verbatim>\<open>ExecuteRepeatedTwoPCEntry\<close>, the 2PC replies and
    their routing, the retry loop. \<open>Atomicity\<close>: the write-ahead log as an undo log, all-or-nothing
    of a cross-shard transfer whose first phases both took effect, and how it is lost when one did not.
  \<^item> \<open>Election\<close>: timers, PREPARE and promise, demotion and the settling of the write-ahead log,
    heartbeats, kill, revive, reset; promises as a monotone invariant over a step relation.
  \<^item> \<open>Commit\<close>: counting acknowledgements, committing, the execution loop, answers to clients;
    independence of the order of commits while none is of a second phase.
  \<^item> \<open>Requests\<close>: client requests at a node, account locks, proposing; the end of an election.
  \<^item> \<open>ViewChange\<close>: proposals at a backup, collecting promises, merging logs, filling gaps,
    NEW-VIEW.
  \<^item> \<open>Replica\<close>: what each handler does to one node during a term, under requests inside one shard; the ledger specification, the fold
    of the requests of a log over the initial balances. \<open>Agreement\<close>: one leader and its backups
    as a step relation over these handlers, in which messages are lost, repeated and reordered; what a
    backup learns as committed is held by a quorum, and all nodes execute one log. The term is the first one,
    from empty logs, and every request is inside one shard. \<open>Succession\<close>: the
    same run with timeouts, PREPAREs and promises added; what is committed before or after the
    election that ends the first term is in the new leader's log. \<open>Network\<close>: every node on an equal footing; a run over two
    view changes in which two nodes commit different requests under one number. \<open>CrossShard\<close>: the
    same network over two clusters; a transfer the coordinator has given up is committed. \<open>Dedup\<close>: all operations of
    a node; none forgets a timestamp, so each node proposes a request at most once.
  \<^item> \<open>NodeInfo\<close>: the inspection and MoveOn handlers, and what the prompt prints for an item.
  \<^item> \<open>Client\<close>: \<^verbatim>\<open>PaxosClient\<close> (\<^verbatim>\<open>src/paxos_client.cpp\<close>): the request table and timer
    queue, which share request objects, retries, replies, the leader table.
  \<^item> \<open>Launch\<close>: \<^verbatim>\<open>src/node_launch.cpp\<close>: the initial shard map, resharding, alive updates.
  \<^item> \<open>Prompt\<close>: \<^verbatim>\<open>PromptUser\<close> and its commands, over the inspection handlers and the shard map.
  \<^item> \<open>Benchmark\<close>: \<^verbatim>\<open>src/benchmark.h\<close>: sampling of accounts, termination of the reflection loop, the
    generated workload and its agreement with the shard map.
  \<^item> \<open>Driver\<close>: the read loop of \<^verbatim>\<open>main\<close> and the CSV writer; the round trip between them.
    \<open>TestRun\<close>: driver and client interleaved; what the driver may rely on when it prompts.
  \<^item> \<open>CallData\<close>: the accesses of the call objects of \<^verbatim>\<open>src/call_data.cpp\<close> and a machine
    that interleaves them; ownership as a locale, and the accesses that break it: \<^verbatim>\<open>MoveOnCallData\<close> writes its
    status after \<^verbatim>\<open>Finish\<close>, a proposed client request is read after its pointer was stored where
    other threads answer it, \<^verbatim>\<open>AsyncAcceptAckCall\<close> logs a member after \<^verbatim>\<open>Finish\<close>. What the handler
    of a client request does with the object (answer, queue, propose) is a parameter of the run. \<open>Server\<close>: the
    call objects and threads set up by \<^verbatim>\<open>Run\<close> and \<^verbatim>\<open>StartServer\<close>;
    every object that takes a call is replaced.
  \<^item> \<open>RingLog\<close>: \<^verbatim>\<open>src/log.h\<close>: the trace ring, a refinement of the list of all statements.
  \<^item> \<open>Startup\<close>: \<^verbatim>\<open>main\<close> around the read loop: signals, arguments, the processes it starts and
    their agreement, the end of the run, and the input thread, one call at a time, with nodes
    and client at work between its calls.
  \<^item> \<open>Database\<close>: the SQLite mirror of the balances, with SQLite as a parameter: the rows a node
    starts with, and reading back what was written. What SQLite documents (\<open>sqlite_documented\<close>: what a
    call that succeeds does, and that a stepped statement takes no values before a reset) is kept apart from
    what the environment grants (\<open>sqlite_available\<close>: no call fails); an instance satisfies both.

  \<^bold>\<open>How the model reads the code.\<close> A member \<^verbatim>\<open>x_\<close> is the field \<open>x\<close> of the record
  \<open>node\<close>; a method is a definition with the method's name that takes the node last and returns the
  new one, as \<open>exn + node\<close> when it can fail. \<open>Inl\<close> is the end of the process: an uncaught exception,
  \<^verbatim>\<open>std::abort\<close>, or undefined behaviour (an index outside a vector, a null stub). A handler
  is one atomic step, so the mutexes that only serialise threads are left out, and races inside two
  handlers of one node are not covered (\<open>CallData\<close> covers them for the call objects); likewise a turn of the
  client's timer collects the requests that are due and sends them in one step, although the code releases
  its mutex in between. The per-account mutexes, which the code holds across messages, are state. RPCs issued and answered are appended to
  \<open>outbox\<close>. A call object is its number and its request. Clock and random jitter are arguments, in
  milliseconds; a loop over time is one definition per turn. Unordered maps that are iterated are
  lists, so their iteration order is one of the possible ones; no property depends on which.
  Balances and amounts are whole numbers: the program starts every balance at 10 and the workloads
  transfer small whole amounts, on which its floating-point additions are exact. Fixed-width
  counters (ballot counter, sequence number, timestamp) are unbounded.

  \<^bold>\<open>Bounds and termination.\<close> No definition uses fuel. The execution loop is a total function:
  its measure is the number of committed entries above the last executed one.

  \<^bold>\<open>Not modelled.\<close> gRPC itself (channels, message transport, completion queues beyond their order of
  delivery), generated code, printed statistics and messages, sleeping, redirection of the output,
  floating-point rounding. The step relations of \<open>Agreement\<close> and \<open>Succession\<close> cover the first
  term, from empty logs, up to the election of the next leader, with requests inside one shard; for later view changes \<open>Network\<close> shows that agreement fails,
  because a backup that acknowledges a proposal may keep an older value in its log.
\<close>

end
